(* ===== verification/Prelude.thy ===== *)
theory Prelude
  imports Main "HOL-Library.Word" "HOL-Library.Char_ord" "HOL-Library.List_Lexorder"
begin

text \<open>
  Shared vocabulary of the development: the machine types of Go and C, the outcome of a
  piece of Go code (it returns, it panics, or it waits on a channel), sequencing of
  effects, the parts of the standard library the binding uses everywhere (decimal
  printing, \<^verbatim>\<open>time.Unix\<close>, NUL-terminated strings, \<^verbatim>\<open>C.GoBytes\<close>), and generic lemmas.
\<close>

section \<open>Machine types\<close>

type_synonym u8 = "8 word"
type_synonym u16 = "16 word"
type_synonym u32 = "32 word"
type_synonym u64 = "64 word"
type_synonym i32 = "32 word"  \<comment> \<open>read with \<open>sint\<close>\<close>
type_synonym i64 = "64 word"  \<comment> \<open>read with \<open>sint\<close>\<close>
type_synonym bytes = "u8 list"

named_theorems go_simps \<open>rewriting of Go effects on the world\<close>
named_theorems outcome_intros \<open>how a sequence of effects returns\<close>

section \<open>Outcomes of Go code\<close>

text \<open>
  A panic is fatal to the caller: nothing in the binding but \<^verbatim>\<open>AddStatEntry\<close> recovers.
  \<open>CUndefined\<close> is undefined behaviour on the C++ side (a dangling or null pointer).
  \<open>Block\<close> is a send on a full channel: the goroutine waits until a consumer receives.
\<close>

datatype panic =
    PanicMsg string        \<comment> \<open>\<^verbatim>\<open>panic("...")\<close>\<close>
  | TypeAssertion          \<comment> \<open>\<^verbatim>\<open>x.(T)\<close> with another dynamic type\<close>
  | IndexOutOfRange        \<comment> \<open>\<^verbatim>\<open>xs[i]\<close>, \<^verbatim>\<open>xs[:n]\<close>\<close>
  | SendOnClosed
  | CloseOfClosed
  | NilChannel
  | NilPointer             \<comment> \<open>a field of \<open>nil\<close>\<close>
  | BadLength              \<comment> \<open>\<^verbatim>\<open>C.GoBytes\<close> of a negative length\<close>
  | CUndefined
  | Terminate              \<comment> \<open>a C++ exception that reaches Go: \<^verbatim>\<open>std::terminate\<close>\<close>
  | Thrown                 \<comment> \<open>a C++ exception that leaves a handler for the client library\<close>
  | Fatal string           \<comment> \<open>\<^verbatim>\<open>log.Fatalf\<close>\<close>

datatype 'a outcome = Done 'a | Panic panic | Block

fun bindO :: "'a outcome \<Rightarrow> ('a \<Rightarrow> 'b outcome) \<Rightarrow> 'b outcome" where
  "bindO (Done x) f = f x"
| "bindO (Panic p) f = Panic p"
| "bindO Block f = Block"

fun mapO :: "('a \<Rightarrow> 'b) \<Rightarrow> 'a outcome \<Rightarrow> 'b outcome" where
  "mapO f (Done x) = Done (f x)"
| "mapO f (Panic p) = Panic p"
| "mapO f Block = Block"

text \<open>A block of statements: each one transforms the world, the first that fails ends it.\<close>

fun steps :: "('w \<Rightarrow> 'w outcome) list \<Rightarrow> 'w \<Rightarrow> 'w outcome" where
  "steps [] w = Done w"
| "steps (f # fs) w = bindO (f w) (steps fs)"

text \<open>A loop over a list that collects the results.\<close>

fun mapM :: "('a \<Rightarrow> 'b outcome) \<Rightarrow> 'a list \<Rightarrow> 'b list outcome" where
  "mapM f [] = Done []"
| "mapM f (x # xs) = bindO (f x) (\<lambda>y. mapO (Cons y) (mapM f xs))"

definition skip :: "'w \<Rightarrow> 'w outcome" where
  "skip w = Done w"

definition returns :: "'a outcome \<Rightarrow> bool" where
  "returns r = (case r of Done _ \<Rightarrow> True | _ \<Rightarrow> False)"

definition panics :: "'a outcome \<Rightarrow> bool" where
  "panics r = (case r of Panic _ \<Rightarrow> True | _ \<Rightarrow> False)"

section \<open>Standard library\<close>

text \<open>\<^verbatim>\<open>fmt.Sprintf("%d", n)\<close>.\<close>

definition digit_char :: "nat \<Rightarrow> char" where
  "digit_char d = char_of (48 + d)"

fun dec_nat :: "nat \<Rightarrow> string" where
  "dec_nat n = (if n < 10 then [digit_char n] else dec_nat (n div 10) @ [digit_char (n mod 10)])"

declare dec_nat.simps [simp del]

definition dec_int :: "int \<Rightarrow> string" where
  "dec_int i = (if i < 0 then CHR ''-'' # dec_nat (nat (- i)) else dec_nat (nat i))"

definition dec_u64 :: "'n::len word \<Rightarrow> string" where
  "dec_u64 w = dec_nat (unat w)"

definition dec_i32 :: "'n::len word \<Rightarrow> string" where
  "dec_i32 w = dec_int (sint w)"

text \<open>
  A Go string seen by C: \<^verbatim>\<open>C.CString\<close> copies all bytes and appends NUL, and every reader
  of a \<^verbatim>\<open>char *\<close> (\<^verbatim>\<open>std::string(p)\<close>, \<^verbatim>\<open>C.GoString\<close>) stops at the first NUL.
\<close>

definition c_string :: "string \<Rightarrow> string" where
  "c_string s = takeWhile (\<lambda>c. c \<noteq> CHR 0x00) s"

definition string_of_bytes :: "bytes \<Rightarrow> string" where
  "string_of_bytes bs = map (\<lambda>b. char_of (unat b)) bs"

definition bytes_of_string :: "string \<Rightarrow> bytes" where
  "bytes_of_string s = map of_char s"

text \<open>
  \<^verbatim>\<open>C.GoBytes(p, n)\<close> copies \<open>n\<close> bytes of the memory at \<open>p\<close>; \<open>n\<close> is a C \<^verbatim>\<open>int\<close>,
  and a negative one is a run-time error. Reading past the object is undefined.
\<close>

definition c_GoBytes :: "bytes \<Rightarrow> i32 \<Rightarrow> bytes outcome" where
  "c_GoBytes mem n =
     (if sint n < 0 then Panic BadLength
      else if length mem < nat (sint n) then Panic CUndefined
      else Done (take (nat (sint n)) mem))"

text \<open>\<^verbatim>\<open>C.GoStringN\<close>.\<close>

definition c_GoStringN :: "bytes \<Rightarrow> i32 \<Rightarrow> string outcome" where
  "c_GoStringN mem n = mapO string_of_bytes (c_GoBytes mem n)"

text \<open>
  \<^verbatim>\<open>time.Unix(sec, nsec)\<close>: an instant, with the nanoseconds carried into the seconds so
  that they stay below one second. Seconds are unbounded here; the \<^verbatim>\<open>int64\<close> of the
  library differs only for instants about 292 billion years away.
\<close>

record go_time =
  t_sec :: int
  t_nsec :: int

definition time_Unix :: "int \<Rightarrow> int \<Rightarrow> go_time" where
  "time_Unix sec nsec =
     \<lparr>t_sec = sec + nsec div 1000000000, t_nsec = nsec mod 1000000000\<rparr>"

definition go_time_zero :: go_time where
  "go_time_zero = \<lparr>t_sec = - 62135596800, t_nsec = 0\<rparr>"

section \<open>Generic lemmas\<close>

subsection \<open>Outcomes\<close>

lemma bindO_eq_Done [simp]: "bindO r f = Done y \<longleftrightarrow> (\<exists>x. r = Done x \<and> f x = Done y)"
  by (cases r) auto

lemma bindO_eq_Panic:
  "bindO r f = Panic p \<longleftrightarrow> r = Panic p \<or> (\<exists>x. r = Done x \<and> f x = Panic p)"
  by (cases r) auto

lemma bindO_assoc: "bindO (bindO r f) g = bindO r (\<lambda>x. bindO (f x) g)"
  by (cases r) auto

lemma mapO_eq_Done [simp]: "mapO f r = Done y \<longleftrightarrow> (\<exists>x. r = Done x \<and> y = f x)"
  by (cases r) auto

lemma mapO_eq_Panic [simp]: "mapO f r = Panic p \<longleftrightarrow> r = Panic p"
  by (cases r) auto

lemma returns_simps [simp]:
  "returns (Done x)" "\<not> returns (Panic p)" "\<not> returns Block"
  by (auto simp: returns_def)

lemma panics_simps [simp]:
  "\<not> panics (Done x)" "panics (Panic p)" "\<not> panics Block"
  by (auto simp: panics_def)

lemma returns_iff: "returns r \<longleftrightarrow> (\<exists>x. r = Done x)"
  by (cases r) auto

lemma panics_iff: "panics r \<longleftrightarrow> (\<exists>p. r = Panic p)"
  by (cases r) auto

lemma panics_mapO [simp]: "panics (mapO f r) = panics r"
  by (cases r) auto

lemma panics_bindO: "panics (bindO r f) \<longleftrightarrow> panics r \<or> (\<exists>x. r = Done x \<and> panics (f x))"
  by (cases r) auto

lemma skip_apply [simp]: "skip w = Done w"
  by (simp add: skip_def)

lemma mapM_all_Done: "(\<And>x. x \<in> set xs \<Longrightarrow> f x = Done (g x)) \<Longrightarrow> mapM f xs = Done (map g xs)"
  by (induction xs) auto

lemma bindO_steps_Nil [simp]: "bindO r (steps []) = r"
  by (cases r) auto

lemma bindO_sum_Done:
  "bindO r (\<lambda>x. case x of Inl e \<Rightarrow> f e | Inr y \<Rightarrow> g y) = Done z \<longleftrightarrow>
   (\<exists>e. r = Done (Inl e) \<and> f e = Done z) \<or> (\<exists>y. r = Done (Inr y) \<and> g y = Done z)"
proof (cases r)
  case (Done x)
  then show ?thesis by (cases x) auto
qed auto

lemma steps_append: "steps (fs @ gs) w = bindO (steps fs w) (steps gs)"
proof (induction fs arbitrary: w)
  case (Cons f fs)
  then have "steps (fs @ gs) = (\<lambda>x. bindO (steps fs x) (steps gs))" by (simp add: fun_eq_iff)
  then show ?case by (simp add: bindO_assoc)
qed simp

lemma steps_invariant:
  "steps fs w = Done w' \<Longrightarrow> P w \<Longrightarrow> (\<And>f v v'. f \<in> set fs \<Longrightarrow> f v = Done v' \<Longrightarrow> P v \<Longrightarrow> P v') \<Longrightarrow> P w'"
  by (induction fs arbitrary: w) auto

subsection \<open>Maps\<close>

lemma fun_upd_None_twice:
  "m a = None \<Longrightarrow> m b = None \<Longrightarrow> (m(a \<mapsto> x, b \<mapsto> y))(a := None, b := None) = m"
  by (auto simp: fun_eq_iff)

subsection \<open>Words\<close>

lemma unat_add_small:
  fixes w :: "'n::len word"
  assumes "unat w + n < 2 ^ LENGTH('n)"
  shows "unat (w + of_nat n) = unat w + n"
proof -
  have "n < 2 ^ LENGTH('n)" using assms by simp
  then have "unat (of_nat n :: 'n word) = n" by (simp add: unat_of_nat)
  then show ?thesis using assms by (simp add: unat_word_ariths)
qed

lemma unat_Suc_small:
  fixes w :: "'n::len word"
  assumes "unat w + 1 < 2 ^ LENGTH('n)"
  shows "unat (w + 1) = unat w + 1"
  using unat_add_small[of w 1] assms by simp

text \<open>Converting an unsigned size to a C \<^verbatim>\<open>int\<close> is exact below \<open>2 ^ 31\<close>.\<close>

lemma sint_ucast_small:
  fixes w :: "'n::len word"
  assumes "unat w < 2147483648"
  shows "sint (ucast w :: i32) = int (unat w)"
proof -
  have small: "uint w < 2147483648"
    using assms unfolding unat_eq_nat_uint by linarith
  have low: "- 2147483648 \<le> uint w"
    using uint_ge_0[of w] by linarith
  have "uint (ucast w :: i32) = take_bit 32 (uint w)"
    by (simp add: unsigned_ucast_eq)
  also have "\<dots> = uint w"
    using small by (simp add: take_bit_int_eq_self_iff)
  finally have same: "uint (ucast w :: i32) = uint w" .
  have "sint (ucast w :: i32) = signed_take_bit 31 (uint (ucast w :: i32))"
    by (simp add: sint_uint)
  also have "\<dots> = uint w"
    unfolding same using small low by (intro signed_take_bit_int_eq_self) auto
  finally show ?thesis by simp
qed

subsection \<open>Time and sizes\<close>

lemma time_Unix_eq:
  "time_Unix s n = time_Unix s' n' \<longleftrightarrow> s * 1000000000 + n = s' * 1000000000 + n'"
proof -
  have "s + n div 1000000000 = (s * 1000000000 + n) div 1000000000" for s n :: int by simp
  moreover have "n mod 1000000000 = (s * 1000000000 + n) mod 1000000000" for s n :: int by simp
  ultimately have t: "time_Unix s n = \<lparr>t_sec = (s * 1000000000 + n) div 1000000000,
      t_nsec = (s * 1000000000 + n) mod 1000000000\<rparr>" for s n
    by (metis time_Unix_def)
  show ?thesis
  proof
    assume "time_Unix s n = time_Unix s' n'"
    then have "(s * 1000000000 + n) div 1000000000 = (s' * 1000000000 + n') div 1000000000"
      "(s * 1000000000 + n) mod 1000000000 = (s' * 1000000000 + n') mod 1000000000"
      unfolding t by simp_all
    then show "s * 1000000000 + n = s' * 1000000000 + n'" by (metis div_mult_mod_eq)
  qed (simp add: t)
qed

text \<open>A size in a C \<^verbatim>\<open>int\<close>: what is left of it modulo \<open>2 ^ 32\<close>, negative from \<open>2 ^ 31\<close> on.\<close>

lemma sint_ucast_mod:
  fixes w :: u64
  assumes "k = unat w mod 4294967296"
  shows "sint (ucast w :: i32) = (if k < 2147483648 then int k else int k - 4294967296)"
proof -
  have "uint (ucast w :: i32) = take_bit 32 (uint w)" by (simp add: unsigned_ucast_eq)
  also have "\<dots> = int k"
    using assms by (simp only: take_bit_eq_mod uint_nat zmod_int) simp
  finally have same: "uint (ucast w :: i32) = int k" .
  have k: "k < 4294967296" using assms by (simp only: mod_less_divisor zero_less_numeral)
  have "sint (ucast w :: i32) = signed_take_bit 31 (int k)" unfolding sint_uint same by simp
  also have "\<dots> = (int k + 2147483648) mod 4294967296 - 2147483648"
    by (simp add: signed_take_bit_eq_take_bit_shift take_bit_eq_mod)
  also have "(int k + 2147483648) mod 4294967296 =
      (if k < 2147483648 then int k + 2147483648 else int k - 2147483648)"
  proof (cases "k < 2147483648")
    case True
    then show ?thesis by (simp add: mod_pos_pos_trivial)
  next
    case False
    have "(int k + 2147483648) mod 4294967296 = ((int k - 2147483648) + 4294967296) mod 4294967296"
      by (rule arg_cong[where f = "\<lambda>x. x mod 4294967296"]) linarith
    also have "\<dots> = (int k - 2147483648) mod 4294967296" by (rule mod_add_self2)
    also have "\<dots> = int k - 2147483648" using False k by (intro mod_pos_pos_trivial) linarith+
    finally show ?thesis using False by simp
  qed
  finally show ?thesis by (simp split: if_splits)
qed

subsection \<open>Strings\<close>

lemma c_string_no_nul [simp]: "CHR 0x00 \<notin> set s \<Longrightarrow> c_string s = s"
  by (simp add: c_string_def takeWhile_eq_all_conv) metis

lemma c_string_idem [simp]: "c_string (c_string s) = c_string s"
  by (rule c_string_no_nul) (auto simp: c_string_def dest: set_takeWhileD)

lemma c_string_stops [simp]: "CHR 0x00 \<notin> set a \<Longrightarrow> c_string (a @ CHR 0x00 # b) = a"
  by (induction a) (auto simp: c_string_def)

lemma c_GoBytes_all:
  assumes "length mem = unat n" and "unat n < 2147483648"
  shows "c_GoBytes mem (ucast (n :: u64)) = Done mem"
  using assms by (simp add: c_GoBytes_def sint_ucast_small)

end
