(* ===== verification/Errors.thy ===== *)
theory Errors
  imports Prelude
begin

text \<open>
  \<^verbatim>\<open>elliptics/errors.go\<close>: the error values of the binding and their accessors. A Go
  \<^verbatim>\<open>error\<close> is an interface; its dynamic types in this program are \<^verbatim>\<open>*DnetError\<close>, the
  text errors of \<^verbatim>\<open>errors.New\<close> and \<^verbatim>\<open>fmt.Errorf\<close>, \<^verbatim>\<open>io.EOF\<close>, and \<^verbatim>\<open>syscall.Errno\<close>
  (which carries the system's text for its number). \<open>nil\<close> is \<open>None\<close> of an option.
\<close>

section \<open>Definitions\<close>

record DnetError =
  Code :: int
  Flags :: u64
  Message :: string

datatype error =
    EDnet DnetError
  | EText string
  | EEOF
  | EErrno int string

definition DnetError_Error :: "DnetError \<Rightarrow> string" where
  "DnetError_Error err = ''elliptics error: '' @ dec_int (Code err) @ '': '' @ Message err"

fun Error :: "error \<Rightarrow> string" where
  "Error (EDnet ke) = DnetError_Error ke"
| "Error (EText s) = s"
| "Error EEOF = ''EOF''"
| "Error (EErrno n s) = s"

fun DnetErrorFromError :: "error \<Rightarrow> DnetError option" where
  "DnetErrorFromError (EDnet ke) = Some ke"
| "DnetErrorFromError _ = None"

definition ErrorData :: "error \<Rightarrow> string" where
  "ErrorData err = (case err of EDnet ke \<Rightarrow> Message ke | _ \<Rightarrow> Error err)"

definition ErrorStatus :: "error \<Rightarrow> int" where
  "ErrorStatus err = (case err of EDnet ke \<Rightarrow> Code ke | _ \<Rightarrow> - 22)"

section \<open>Lemmas\<close>

lemma DnetErrorFromError_Some: "DnetErrorFromError err = Some ke \<longleftrightarrow> err = EDnet ke"
  by (cases err) auto

lemma ErrorStatus_EDnet [simp]: "ErrorStatus (EDnet ke) = Code ke"
  by (simp add: ErrorStatus_def)

lemma ErrorData_EDnet [simp]: "ErrorData (EDnet ke) = Message ke"
  by (simp add: ErrorData_def)

text \<open>
  The three accessors agree: when the error is a \<^verbatim>\<open>*DnetError\<close> they read its fields, and
  otherwise the status is \<open>-EINVAL\<close> and the data is the error's own text.
\<close>

lemma error_accessors:
  "(ErrorStatus err, ErrorData err) =
     (case DnetErrorFromError err of Some ke \<Rightarrow> (Code ke, Message ke) | None \<Rightarrow> (- 22, Error err))"
  by (cases err) (auto simp: ErrorStatus_def ErrorData_def)

end
