(* ===== verification/Pool.thy ===== *)
theory Pool
  imports Errors
begin

text \<open>
  \<^verbatim>\<open>elliptics/pool.go\<close>: the global counter of callback contexts and the pool that maps a
  context number to the Go value (a closure, a buffer, a statistics object) that the C++
  side will ask for by that number. Both are protected by a mutex or an atomic add, so
  every operation is one atomic step. The locale \<open>context_pool\<close> states what the session
  code relies on; the pool below interprets it.
\<close>

section \<open>Definitions\<close>

text \<open>\<^verbatim>\<open>counter\<close> is the global variable, \<^verbatim>\<open>pool\<close> the field of the global \<^verbatim>\<open>Pool\<close>.\<close>

record 'v pool_state =
  counter :: u64
  pool :: "u64 \<rightharpoonup> 'v"

definition KeyError :: error where
  "KeyError = EText ''No key''"

definition NextContext :: "('v, 'z) pool_state_scheme \<Rightarrow> u64 \<times> ('v, 'z) pool_state_scheme" where
  "NextContext s = (let n = counter s + 1 in (n, s\<lparr>counter := n\<rparr>))"

definition Store :: "u64 \<Rightarrow> 'v \<Rightarrow> ('v, 'z) pool_state_scheme \<Rightarrow> ('v, 'z) pool_state_scheme" where
  "Store key v s = s\<lparr>pool := (pool s)(key \<mapsto> v)\<rparr>"

definition Get :: "u64 \<Rightarrow> ('v, 'z) pool_state_scheme \<Rightarrow> error + 'v" where
  "Get key s = (case pool s key of Some v \<Rightarrow> Inr v | None \<Rightarrow> Inl KeyError)"

definition Delete :: "u64 \<Rightarrow> ('v, 'z) pool_state_scheme \<Rightarrow> ('v, 'z) pool_state_scheme" where
  "Delete key s = s\<lparr>pool := (pool s)(key := None)\<rparr>"

text \<open>
  Well-formedness: every stored context was issued by the counter (contexts are numbered
  from 1, and the counter holds the last one). \<open>room n\<close> says that \<open>n\<close> more contexts can
  be issued before the 64-bit counter wraps around.
\<close>

definition issued :: "u64 \<Rightarrow> ('v, 'z) pool_state_scheme \<Rightarrow> bool" where
  "issued k s \<longleftrightarrow> k \<le> counter s"

definition pool_wf :: "('v, 'z) pool_state_scheme \<Rightarrow> bool" where
  "pool_wf s \<longleftrightarrow> (\<forall>k \<in> dom (pool s). issued k s)"

definition room :: "nat \<Rightarrow> ('v, 'z) pool_state_scheme \<Rightarrow> bool" where
  "room n s \<longleftrightarrow> unat (counter s) + n < 2 ^ 64"

section \<open>The interface\<close>

locale context_pool =
  fixes "next" :: "'s \<Rightarrow> u64 \<times> 's"
    and store :: "u64 \<Rightarrow> 'v \<Rightarrow> 's \<Rightarrow> 's"
    and get :: "u64 \<Rightarrow> 's \<Rightarrow> error + 'v"
    and delete :: "u64 \<Rightarrow> 's \<Rightarrow> 's"
    and given :: "u64 \<Rightarrow> 's \<Rightarrow> bool"
    and wf :: "'s \<Rightarrow> bool"
    and free :: "nat \<Rightarrow> 's \<Rightarrow> bool"
  assumes get_store: "get k' (store k v s) = (if k' = k then Inr v else get k' s)"
    and get_delete: "get k' (delete k s) = (if k' = k then Inl KeyError else get k' s)"
    and get_next: "get k (snd (next s)) = get k s"
    and given_next: "free (Suc n) s \<Longrightarrow> given k (snd (next s)) \<longleftrightarrow> given k s \<or> k = fst (next s)"
    and next_new: "free (Suc n) s \<Longrightarrow> \<not> given (fst (next s)) s"
    and wf_stored: "wf s \<Longrightarrow> get k s = Inr v \<Longrightarrow> given k s"
    and get_miss: "get k s = Inl e \<Longrightarrow> e = KeyError"
    and wf_next: "wf s \<Longrightarrow> free (Suc n) s \<Longrightarrow> wf (snd (next s))"
    and wf_store: "wf s \<Longrightarrow> given k s \<Longrightarrow> wf (store k v s)"
    and wf_delete: "wf s \<Longrightarrow> wf (delete k s)"
    and free_next: "free (Suc n) s \<Longrightarrow> free n (snd (next s))"
    and free_store: "free n (store k v s) = free n s"
    and given_store: "given k' (store k v s) = given k' s"
begin

text \<open>A context just issued is not in the pool, and differs from every stored one.\<close>

lemma next_unused: "wf s \<Longrightarrow> free (Suc n) s \<Longrightarrow> get (fst (next s)) s = Inl KeyError"
  by (cases "get (fst (next s)) s") (use next_new wf_stored get_miss in blast)+

lemma next_differs: "wf s \<Longrightarrow> free (Suc n) s \<Longrightarrow> get k s = Inr v \<Longrightarrow> fst (next s) \<noteq> k"
  using next_unused by fastforce

text \<open>The two contexts of one request differ.\<close>

lemma next_next:
  assumes "free (Suc (Suc n)) s"
  shows "fst (next (snd (next s))) \<noteq> fst (next s)"
  using next_new[OF free_next[OF assms]] given_next[OF assms] by metis

text \<open>
  The life of one request: two contexts are taken, a value is stored under each, and both
  are deleted at the end. In between every other entry is as before, and at the end the
  whole pool is.
\<close>

lemma request_open:
  assumes "wf s" "free (Suc (Suc n)) s"
    and "next s = (c1, s1)" "next s1 = (c2, s2)" "s' = store c2 v2 (store c1 v1 s2)"
  shows "get c1 s' = Inr v1 \<and> get c2 s' = Inr v2 \<and> wf s' \<and>
    (\<forall>k. k \<noteq> c1 \<longrightarrow> k \<noteq> c2 \<longrightarrow> get k s' = get k s)"
proof -
  have s1: "s1 = snd (next s)" "c1 = fst (next s)" and s2: "s2 = snd (next s1)" "c2 = fst (next s1)"
    using assms(3,4) by simp_all
  have free1: "free (Suc n) s1" using assms(2) free_next s1 by simp
  have wf1: "wf s1" using assms(1,2) wf_next s1 by simp
  have g1: "given k s1 \<longleftrightarrow> given k s \<or> k = c1" for k using given_next[OF assms(2)] s1 by simp
  have g2: "given k s2 \<longleftrightarrow> given k s1 \<or> k = c2" for k using given_next[OF free1] s2 by simp
  have "wf (store c1 v1 s2)" using wf_store wf_next[OF wf1 free1] g1 g2 s2 by simp
  then have "wf s'" using wf_store g2 given_store assms(5) by simp
  moreover have "c1 \<noteq> c2" using next_next[OF assms(2)] s1 s2 by metis
  ultimately show ?thesis
    using assms(5) get_next s1(1) s2(1) by (simp add: get_store)
qed

lemma request_close:
  assumes "wf s" "free (Suc (Suc n)) s"
    and "next s = (c1, s1)" "next s1 = (c2, s2)" "s' = store c2 v2 (store c1 v1 s2)"
  shows "get k (delete c2 (delete c1 s')) = get k s"
proof -
  have free1: "free (Suc n) s1" "s1 = snd (next s)" "c1 = fst (next s)" "c2 = fst (next s1)"
    using assms(2-4) free_next by (metis fst_conv snd_conv)+
  have "get c1 s = Inl KeyError" using next_unused assms(1,2) free1 by simp
  moreover have "get c2 s1 = Inl KeyError"
    using next_unused[OF wf_next[OF assms(1,2)]] free1 by simp
  moreover have "get k s1 = get k s" for k using get_next free1(2) by simp
  ultimately show ?thesis
    using request_open[OF assms] by (auto simp: get_delete)
qed

end

section \<open>Lemmas\<close>

lemma pool_NextContext [go_simps]:
  "pool (snd (NextContext s)) = pool s"
  "counter (snd (NextContext s)) = counter s + 1"
  "fst (NextContext s) = counter s + 1"
  by (simp_all add: NextContext_def Let_def)

lemma pool_Store [go_simps]:
  "pool (Store k v s) = (pool s)(k \<mapsto> v)" "counter (Store k v s) = counter s"
  by (simp_all add: Store_def)

lemma pool_Delete [go_simps]:
  "pool (Delete k s) = (pool s)(k := None)" "counter (Delete k s) = counter s"
  by (simp_all add: Delete_def)

lemma Get_Inr [simp]: "Get k s = Inr v \<longleftrightarrow> pool s k = Some v"
  by (simp add: Get_def split: option.splits)

lemma Get_Inl [simp]: "Get k s = Inl e \<longleftrightarrow> pool s k = None \<and> e = KeyError"
  by (auto simp: Get_def split: option.splits)

lemma room_unat: "room (Suc n) s \<Longrightarrow> unat (counter s + 1) = Suc (unat (counter s))"
  using unat_Suc_small[of "counter s"] by (simp add: room_def)

lemma issued_Suc:
  assumes "room (Suc n) s"
  shows "k \<le> counter s + 1 \<longleftrightarrow> k \<le> counter s \<or> k = counter s + 1"
  using room_unat[OF assms] by (auto simp: word_le_nat_alt le_Suc_eq word_unat_eq_iff)

interpretation pl: context_pool
  "NextContext :: ('v, 'z) pool_state_scheme \<Rightarrow> _" Store Get Delete issued pool_wf room
proof (unfold_locales, goal_cases)
  case (4 n s k)
  then show ?case using issued_Suc[of n s k] by (simp add: issued_def go_simps)
next
  case (5 n s)
  then show ?case using room_unat[OF 5] by (simp add: issued_def word_le_nat_alt go_simps)
next
  case (8 s n)
  then show ?case
    using issued_Suc[OF 8(2)] by (auto simp: pool_wf_def issued_def go_simps)
next
  case (11 n s)
  then show ?case using room_unat[OF 11] by (simp add: room_def go_simps)
qed (auto simp: Get_def go_simps pool_wf_def issued_def room_def split: option.splits if_splits)

end
