(* ===== verification/Channels.thy ===== *)
theory Channels
  imports Prelude
begin

text \<open>
  Go's buffered channels, as the binding uses them: one producer (the callbacks of a
  request), one consumer (the caller), a capacity of at least one. A channel also carries
  what its consumer has received so far, so that everything ever sent through it can be
  read off the state. A send on a full channel waits (\<open>Block\<close>), a send on a closed
  channel and a second close panic, as the language specification says.
\<close>

section \<open>Definitions\<close>

record 'e chan =
  ch_cap :: nat
  ch_buf :: "'e list"
  ch_closed :: bool
  ch_out :: "'e list"   \<comment> \<open>received by the consumer, oldest first\<close>

definition chan_make :: "nat \<Rightarrow> 'e chan" where
  "chan_make n = \<lparr>ch_cap = n, ch_buf = [], ch_closed = False, ch_out = []\<rparr>"

definition chan_send :: "'e \<Rightarrow> 'e chan \<Rightarrow> 'e chan outcome" where
  "chan_send v c =
     (if ch_closed c then Panic SendOnClosed
      else if length (ch_buf c) < ch_cap c then Done (c\<lparr>ch_buf := ch_buf c @ [v]\<rparr>)
      else Block)"

definition chan_close :: "'e chan \<Rightarrow> 'e chan outcome" where
  "chan_close c = (if ch_closed c then Panic CloseOfClosed else Done (c\<lparr>ch_closed := True\<rparr>))"

text \<open>\<^verbatim>\<open>v, ok := <-ch\<close>: a value, or the end of a closed and empty channel, or waiting.\<close>

datatype 'e received = Got 'e "'e chan" | Drained | Waiting

definition chan_recv :: "'e chan \<Rightarrow> 'e received" where
  "chan_recv c =
     (case ch_buf c of
        v # vs \<Rightarrow> Got v (c\<lparr>ch_buf := vs, ch_out := ch_out c @ [v]\<rparr>)
      | [] \<Rightarrow> if ch_closed c then Drained else Waiting)"

text \<open>Everything sent so far, in order.\<close>

definition ch_log :: "'e chan \<Rightarrow> 'e list" where
  "ch_log c = ch_out c @ ch_buf c"

text \<open>\<^verbatim>\<open>for v := range ch\<close> on a channel no producer will touch any more.\<close>

definition drain :: "'e chan \<Rightarrow> 'e chan" where
  "drain c = c\<lparr>ch_buf := [], ch_out := ch_out c @ ch_buf c\<rparr>"

definition chan_has_room :: "'e chan \<Rightarrow> bool" where
  "chan_has_room c \<longleftrightarrow> \<not> ch_closed c \<and> length (ch_buf c) < ch_cap c"

section \<open>Lemmas\<close>

lemma ch_log_make [simp]: "ch_log (chan_make n) = []"
  by (simp add: ch_log_def chan_make_def)

lemma chan_make_simps [simp]:
  "ch_closed (chan_make n) = False" "ch_buf (chan_make n) = []" "ch_cap (chan_make n) = n"
  "ch_out (chan_make n) = []"
  by (simp_all add: chan_make_def)

lemma chan_send_room: "chan_has_room c \<Longrightarrow> chan_send v c = Done (c\<lparr>ch_buf := ch_buf c @ [v]\<rparr>)"
  by (simp add: chan_send_def chan_has_room_def)

lemma chan_send_Done:
  "chan_send v c = Done c' \<longleftrightarrow> chan_has_room c \<and> c' = c\<lparr>ch_buf := ch_buf c @ [v]\<rparr>"
  by (auto simp: chan_send_def chan_has_room_def)

lemma chan_send_no_panic: "\<not> ch_closed c \<Longrightarrow> \<not> panics (chan_send v c)"
  by (simp add: chan_send_def)

lemma ch_log_send: "chan_send v c = Done c' \<Longrightarrow> ch_log c' = ch_log c @ [v]"
  by (auto simp: chan_send_Done ch_log_def)

lemma ch_log_close: "chan_close c = Done c' \<Longrightarrow> ch_log c' = ch_log c \<and> ch_closed c'"
  by (auto simp: chan_close_def ch_log_def split: if_splits)

lemma ch_log_recv: "chan_recv c = Got v c' \<Longrightarrow> ch_log c' = ch_log c \<and> ch_closed c' = ch_closed c"
  by (auto simp: chan_recv_def ch_log_def split: list.splits if_splits)

lemma chan_recv_room:
  "chan_recv c = Got v c' \<Longrightarrow> \<not> ch_closed c \<Longrightarrow> length (ch_buf c) \<le> ch_cap c \<Longrightarrow> chan_has_room c'"
  by (auto simp: chan_recv_def chan_has_room_def split: list.splits if_splits)

end
