(* ===== verification/CtoGo.thy ===== *)
theory CtoGo
  imports Errors
begin

text \<open>
  \<^verbatim>\<open>elliptics/ctogo.go\<close>: the C structures of elliptics and their Go counterparts, with the
  conversions between them. The elliptics client library itself is not part of the
  repository: what the binding uses of it is collected in the record \<open>ell_lib\<close>, which is
  an argument of every definition that depends on it.
\<close>

section \<open>Definitions\<close>

subsection \<open>C structures\<close>

text \<open>\<^verbatim>\<open>struct dnet_addr\<close>: a fixed array of \<^verbatim>\<open>DNET_ADDR_SIZE\<close> bytes, of which \<open>addr_len\<close> count.\<close>

record c_dnet_addr =
  ca_addr :: bytes
  ca_len :: u16
  ca_family :: u16

record c_dnet_cmd =
  cc_id :: bytes
  cc_group :: u32
  cc_status :: i32
  cc_cmd :: i32
  cc_backend :: i32
  cc_trace :: u64
  cc_flags :: u64
  cc_trans :: u64
  cc_size :: u64

record c_dnet_io_attr =
  cio_parent :: bytes
  cio_id :: bytes
  cio_start :: u64
  cio_num :: u64
  cio_tsec :: i64
  cio_tnsec :: i64
  cio_user_flags :: u64
  cio_total_size :: u64
  cio_flags :: u32
  cio_offset :: u64
  cio_size :: u64

record c_dnet_file_info =
  cfi_checksum :: bytes
  cfi_offset :: u64
  cfi_size :: u64
  cfi_tsec :: i64
  cfi_tnsec :: i64

text \<open>
  The external library: the sizes of its arrays, the transformation of a key name into
  its identifier (\<^verbatim>\<open>session::transform\<close>), the identifier a key object has before it is
  transformed, the printing and parsing of addresses, and the route lookup of a key in a
  group (\<^verbatim>\<open>dnet_lookup_addr\<close>: an error code, and an address and a backend).
\<close>

record ell_lib =
  DNET_ID_SIZE :: nat
  DNET_ADDR_SIZE :: nat
  key_transform :: "string \<Rightarrow> bytes"
  key_initial_id :: bytes
  dnet_addr_string :: "c_dnet_addr \<Rightarrow> string"
  dnet_addr_host_string :: "c_dnet_addr \<Rightarrow> string"
  dnet_create_addr_str :: "string \<Rightarrow> i32 \<times> c_dnet_addr"
  dnet_lookup_addr :: "string \<Rightarrow> i32 \<Rightarrow> i32 \<times> c_dnet_addr \<times> i32"

text \<open>\<^verbatim>\<open>dnet_addr_alloc\<close> of \<^verbatim>\<open>session.h\<close>: a zeroed structure.\<close>

definition dnet_addr_alloc :: "ell_lib \<Rightarrow> c_dnet_addr" where
  "dnet_addr_alloc L = \<lparr>ca_addr = replicate (DNET_ADDR_SIZE L) 0, ca_len = 0, ca_family = 0\<rparr>"

subsection \<open>Addresses\<close>

record DnetAddr =
  Addr :: bytes
  Family :: u16

definition NewDnetAddr :: "c_dnet_addr \<Rightarrow> DnetAddr outcome" where
  "NewDnetAddr addr =
     mapO (\<lambda>bs. \<lparr>Addr = bs, Family = ca_family addr\<rparr>) (c_GoBytes (ca_addr addr) (ucast (ca_len addr)))"

text \<open>\<^verbatim>\<open>memcpy\<close> of the clamped length over the front of the array, then length and family.\<close>

definition CAddr :: "ell_lib \<Rightarrow> DnetAddr \<Rightarrow> c_dnet_addr \<Rightarrow> c_dnet_addr" where
  "CAddr L a tmp =
     (let n = length (Addr a);
          n = (if n > DNET_ADDR_SIZE L then DNET_ADDR_SIZE L else n);
          tmp = (if n > 0 then tmp\<lparr>ca_addr := take n (Addr a) @ drop n (ca_addr tmp)\<rparr> else tmp)
      in tmp\<lparr>ca_len := of_nat n, ca_family := Family a\<rparr>)"

definition NewDnetAddrStr :: "ell_lib \<Rightarrow> string \<Rightarrow> (error + DnetAddr) outcome" where
  "NewDnetAddrStr L addr_str =
     (let (err, caddr) = dnet_create_addr_str L addr_str
      in if sint err < 0
         then Done (Inl (EText (''could not create addr '' @ [CHR 0x27] @ addr_str @ [CHR 0x27] @
                 '': '' @ dec_i32 err)))
         else mapO Inr (NewDnetAddr caddr))"

definition DnetAddr_String :: "ell_lib \<Rightarrow> DnetAddr \<Rightarrow> string" where
  "DnetAddr_String L a =
     c_string (dnet_addr_string L (CAddr L a (dnet_addr_alloc L))) @ '':'' @ dec_u64 (Family a)"

definition DnetAddr_HostString :: "ell_lib \<Rightarrow> DnetAddr \<Rightarrow> string" where
  "DnetAddr_HostString L a = c_string (dnet_addr_host_string L (CAddr L a (dnet_addr_alloc L)))"

subsection \<open>Identifiers and commands\<close>

datatype DnetRawID = DnetRawID (RawID: bytes)

record DnetID =
  ID :: bytes
  ID_Group :: u32

record DnetCmd =
  Cmd_ID :: DnetID
  Cmd_Status :: i32
  Cmd_Cmd :: i32
  Cmd_Backend :: i32
  Cmd_Trace :: u64
  Cmd_Flags :: u64
  Cmd_Trans :: u64
  Cmd_Size :: u64

text \<open>
  A fixed C array of \<open>n\<close> bytes copied whole by \<^verbatim>\<open>C.GoBytes(&a[0], n)\<close>; the array has
  \<open>n\<close> elements by its C type.
\<close>

definition GoBytes_array :: "nat \<Rightarrow> bytes \<Rightarrow> bytes" where
  "GoBytes_array n a = take n a"

text \<open>The structure is packed, so its fields are read by C functions of the file.\<close>

definition dnet_cmd_get_trace_id :: "c_dnet_cmd \<Rightarrow> u64" where
  "dnet_cmd_get_trace_id d = cc_trace d"

definition dnet_cmd_get_flags :: "c_dnet_cmd \<Rightarrow> u64" where
  "dnet_cmd_get_flags d = cc_flags d"

definition dnet_cmd_get_size :: "c_dnet_cmd \<Rightarrow> u64" where
  "dnet_cmd_get_size d = cc_size d"

definition dnet_cmd_get_trans :: "c_dnet_cmd \<Rightarrow> u64" where
  "dnet_cmd_get_trans d = cc_trans d"

definition dnet_cmd_get_group :: "c_dnet_cmd \<Rightarrow> u32" where
  "dnet_cmd_get_group d = cc_group d"

definition dnet_cmd_get_status :: "c_dnet_cmd \<Rightarrow> i32" where
  "dnet_cmd_get_status d = cc_status d"

definition dnet_cmd_get_cmd :: "c_dnet_cmd \<Rightarrow> i32" where
  "dnet_cmd_get_cmd d = cc_cmd d"

definition dnet_cmd_get_backend_id :: "c_dnet_cmd \<Rightarrow> i32" where
  "dnet_cmd_get_backend_id d = cc_backend d"

lemmas dnet_cmd_get_simps [simp] =
  dnet_cmd_get_trace_id_def
  dnet_cmd_get_flags_def
  dnet_cmd_get_size_def
  dnet_cmd_get_trans_def
  dnet_cmd_get_group_def
  dnet_cmd_get_status_def
  dnet_cmd_get_cmd_def
  dnet_cmd_get_backend_id_def

definition NewDnetCmd :: "ell_lib \<Rightarrow> c_dnet_cmd \<Rightarrow> DnetCmd" where
  "NewDnetCmd L cmd =
     \<lparr>Cmd_ID = \<lparr>ID = GoBytes_array (DNET_ID_SIZE L) (cc_id cmd), ID_Group = dnet_cmd_get_group cmd\<rparr>,
      Cmd_Status = dnet_cmd_get_status cmd, Cmd_Cmd = dnet_cmd_get_cmd cmd,
      Cmd_Backend = dnet_cmd_get_backend_id cmd, Cmd_Trace = dnet_cmd_get_trace_id cmd,
      Cmd_Flags = dnet_cmd_get_flags cmd, Cmd_Trans = dnet_cmd_get_trans cmd,
      Cmd_Size = dnet_cmd_get_size cmd\<rparr>"

subsection \<open>IO attributes\<close>

record DnetIOAttr =
  IO_Parent :: bytes
  IO_ID :: bytes
  IO_Start :: u64
  IO_Num :: u64
  IO_Timestamp :: go_time
  IO_UserFlags :: u64
  IO_TotalSize :: u64
  IO_Flags :: u32
  IO_Offset :: u64
  IO_Size :: u64

text \<open>The accessors of this packed structure; \<open>get_tnsec\<close> reads the same field as \<open>get_tsec\<close>.\<close>

definition dnet_io_attr_get_tsec :: "c_dnet_io_attr \<Rightarrow> i64" where
  "dnet_io_attr_get_tsec io = cio_tsec io"

definition dnet_io_attr_get_tnsec :: "c_dnet_io_attr \<Rightarrow> i64" where
  "dnet_io_attr_get_tnsec io = cio_tsec io"

definition dnet_io_attr_get_start :: "c_dnet_io_attr \<Rightarrow> u64" where
  "dnet_io_attr_get_start io = cio_start io"

definition dnet_io_attr_get_num :: "c_dnet_io_attr \<Rightarrow> u64" where
  "dnet_io_attr_get_num io = cio_num io"

definition dnet_io_attr_get_user_flags :: "c_dnet_io_attr \<Rightarrow> u64" where
  "dnet_io_attr_get_user_flags io = cio_user_flags io"

definition dnet_io_attr_get_total_size :: "c_dnet_io_attr \<Rightarrow> u64" where
  "dnet_io_attr_get_total_size io = cio_total_size io"

definition dnet_io_attr_get_flags :: "c_dnet_io_attr \<Rightarrow> u64" where
  "dnet_io_attr_get_flags io = ucast (cio_flags io)"

definition dnet_io_attr_get_offset :: "c_dnet_io_attr \<Rightarrow> u64" where
  "dnet_io_attr_get_offset io = cio_offset io"

definition dnet_io_attr_get_size :: "c_dnet_io_attr \<Rightarrow> u64" where
  "dnet_io_attr_get_size io = cio_size io"

lemmas dnet_io_attr_get_simps [simp] =
  dnet_io_attr_get_start_def
  dnet_io_attr_get_num_def
  dnet_io_attr_get_user_flags_def
  dnet_io_attr_get_total_size_def
  dnet_io_attr_get_flags_def
  dnet_io_attr_get_offset_def
  dnet_io_attr_get_size_def

definition NewDnetIOAttr :: "ell_lib \<Rightarrow> c_dnet_io_attr \<Rightarrow> DnetIOAttr" where
  "NewDnetIOAttr L io =
     \<lparr>IO_Parent = GoBytes_array (DNET_ID_SIZE L) (cio_parent io),
      IO_ID = GoBytes_array (DNET_ID_SIZE L) (cio_id io),
      IO_Start = dnet_io_attr_get_start io, IO_Num = dnet_io_attr_get_num io,
      IO_Timestamp = time_Unix (sint (dnet_io_attr_get_tsec io)) (sint (dnet_io_attr_get_tnsec io)),
      IO_UserFlags = dnet_io_attr_get_user_flags io, IO_TotalSize = dnet_io_attr_get_total_size io,
      IO_Flags = ucast (dnet_io_attr_get_flags io), IO_Offset = dnet_io_attr_get_offset io,
      IO_Size = dnet_io_attr_get_size io\<rparr>"

text \<open>
  \<^verbatim>\<open>ell_io_attr\<close> of \<^verbatim>\<open>dnet_attr.h\<close>: \<open>id\<close> and \<open>parent\<close> are \<^verbatim>\<open>char *\<close>, null until set; the
  value-initialised structure of \<^verbatim>\<open>ell_ell_io_attr_new\<close> is all zero.
\<close>

record ell_io_attr =
  ea_id :: "bytes option"
  ea_parent :: "bytes option"
  ea_start :: u64
  ea_num :: u64
  ea_user_flags :: u64
  ea_total_size :: u64
  ea_flags :: u32
  ea_offset :: u64
  ea_size :: u64

definition ell_io_attr_new :: ell_io_attr where
  "ell_io_attr_new =
     \<lparr>ea_id = None, ea_parent = None, ea_start = 0, ea_num = 0, ea_user_flags = 0,
      ea_total_size = 0, ea_flags = 0, ea_offset = 0, ea_size = 0\<rparr>"

text \<open>The argument \<open>alloc\<close> says whether \<^verbatim>\<open>ell_ell_io_attr_new\<close> could allocate.\<close>

definition ToIOAttr :: "bool \<Rightarrow> DnetIOAttr \<Rightarrow> error + ell_io_attr" where
  "ToIOAttr alloc atr =
     (if \<not> alloc then Inl (EText ''not allocated memory for ell_io_attr'')
      else
        let attr = ell_io_attr_new;
            attr = attr\<lparr>ea_size := IO_Size atr\<rparr>;
            attr = attr\<lparr>ea_offset := IO_Offset atr\<rparr>;
            attr = attr\<lparr>ea_flags := ucast (ucast (IO_Flags atr) :: u64)\<rparr>;
            attr = attr\<lparr>ea_total_size := IO_TotalSize atr\<rparr>;
            attr = attr\<lparr>ea_user_flags := IO_UserFlags atr\<rparr>;
            attr = attr\<lparr>ea_num := IO_Num atr\<rparr>;
            attr = attr\<lparr>ea_start := IO_Start atr\<rparr>;
            attr = (if IO_ID atr \<noteq> [] then attr\<lparr>ea_id := Some (IO_ID atr)\<rparr> else attr);
            attr = (if IO_Parent atr \<noteq> [] then attr\<lparr>ea_parent := Some (IO_Parent atr)\<rparr> else attr)
        in Inr attr)"

subsection \<open>File information\<close>

record DnetFileInfo =
  FI_Csum :: bytes
  FI_Offset :: u64
  FI_Size :: u64
  FI_Mtime :: go_time

definition NewDnetFileInfo :: "ell_lib \<Rightarrow> c_dnet_file_info \<Rightarrow> DnetFileInfo" where
  "NewDnetFileInfo L info =
     \<lparr>FI_Csum = GoBytes_array (DNET_ID_SIZE L) (cfi_checksum info),
      FI_Offset = cfi_offset info, FI_Size = cfi_size info,
      FI_Mtime = time_Unix (sint (cfi_tsec info)) (sint (cfi_tnsec info))\<rparr>"

text \<open>The zero values Go gives to fields a composite literal leaves out.\<close>

definition DnetAddr_zero :: DnetAddr where
  "DnetAddr_zero = \<lparr>Addr = [], Family = 0\<rparr>"

definition DnetCmd_zero :: DnetCmd where
  "DnetCmd_zero =
     \<lparr>Cmd_ID = \<lparr>ID = [], ID_Group = 0\<rparr>, Cmd_Status = 0, Cmd_Cmd = 0, Cmd_Backend = 0,
      Cmd_Trace = 0, Cmd_Flags = 0, Cmd_Trans = 0, Cmd_Size = 0\<rparr>"

definition DnetIOAttr_zero :: DnetIOAttr where
  "DnetIOAttr_zero =
     \<lparr>IO_Parent = [], IO_ID = [], IO_Start = 0, IO_Num = 0, IO_Timestamp = go_time_zero,
      IO_UserFlags = 0, IO_TotalSize = 0, IO_Flags = 0, IO_Offset = 0, IO_Size = 0\<rparr>"

definition DnetFileInfo_zero :: DnetFileInfo where
  "DnetFileInfo_zero = \<lparr>FI_Csum = [], FI_Offset = 0, FI_Size = 0, FI_Mtime = go_time_zero\<rparr>"

text \<open>A C address whose array has its declared size and whose length fits in it.\<close>

definition c_addr_ok :: "ell_lib \<Rightarrow> c_dnet_addr \<Rightarrow> bool" where
  "c_addr_ok L a \<longleftrightarrow> length (ca_addr a) = DNET_ADDR_SIZE L \<and> unat (ca_len a) \<le> DNET_ADDR_SIZE L"

section \<open>Lemmas\<close>

lemma sint_ucast_u16: "sint (ucast (n :: u16) :: i32) = int (unat n)"
  using unsigned_less[of n, where ?'a = nat] by (intro sint_ucast_small) simp

lemma NewDnetAddr_ok:
  "c_addr_ok L a \<Longrightarrow>
     NewDnetAddr a = Done \<lparr>Addr = take (unat (ca_len a)) (ca_addr a), Family = ca_family a\<rparr>"
  by (simp add: NewDnetAddr_def c_addr_ok_def c_GoBytes_def sint_ucast_u16)

lemma c_addr_ok_alloc: "c_addr_ok L (dnet_addr_alloc L)"
  by (simp add: c_addr_ok_def dnet_addr_alloc_def)

lemma c_addr_ok_CAddr:
  assumes "c_addr_ok L tmp" and "DNET_ADDR_SIZE L < 65536"
  shows "c_addr_ok L (CAddr L a tmp)"
  using assms by (auto simp: c_addr_ok_def CAddr_def Let_def unat_of_nat)

text \<open>Going to C and back keeps an address, up to the bytes that do not fit the C array.\<close>

lemma NewDnetAddr_CAddr:
  assumes "c_addr_ok L tmp" and "DNET_ADDR_SIZE L < 65536"
  shows "NewDnetAddr (CAddr L a tmp) = Done (a\<lparr>Addr := take (DNET_ADDR_SIZE L) (Addr a)\<rparr>)"
proof -
  have "take (DNET_ADDR_SIZE L) (Addr a) = Addr a \<or> DNET_ADDR_SIZE L < length (Addr a)"
    by auto
  then show ?thesis
    using NewDnetAddr_ok[OF c_addr_ok_CAddr[OF assms]] assms
    by (auto simp: CAddr_def Let_def unat_of_nat c_addr_ok_def)
qed

text \<open>
  The time stamp of an IO attribute is the one the server sent only when its seconds and
  nanoseconds happen to be equal: \<^verbatim>\<open>dnet_io_attr_get_tnsec\<close> reads the field of the seconds.
\<close>

lemma timestamp_wrong:
  "IO_Timestamp (NewDnetIOAttr L io) = time_Unix (sint (cio_tsec io)) (sint (cio_tnsec io)) \<longleftrightarrow>
   cio_tnsec io = cio_tsec io"
proof -
  have "sint (cio_tsec io) = sint (cio_tnsec io) \<longleftrightarrow> cio_tnsec io = cio_tsec io"
    by (metis of_int_sint scast_id)
  then show ?thesis
    by (simp add: NewDnetIOAttr_def dnet_io_attr_get_tsec_def dnet_io_attr_get_tnsec_def time_Unix_eq)
qed

end
