(* ===== verification/Keys.thy ===== *)
theory Keys
  imports CtoGo
begin

text \<open>
  The key arrays of \<^verbatim>\<open>elliptics/key.go\<close> with their C++ side (\<^verbatim>\<open>key.h\<close>, \<^verbatim>\<open>key.cpp\<close>): a
  vector of key objects in which \<^verbatim>\<open>Find\<close> looks an identifier up by binary search
  (\<^verbatim>\<open>std::lower_bound\<close>) and answers with the name of the key it stops at. The names are
  sorted when the array is built; the search compares identifiers. The objects that own
  these arrays live in \<open>World\<close>; here are the array and the search.
\<close>

section \<open>Definitions\<close>

text \<open>
  \<^verbatim>\<open>ell_keys\<close>: the names the keys were made from, and whether \<^verbatim>\<open>session_bulk_read\<close> or
  \<^verbatim>\<open>session_bulk_remove\<close> has run \<^verbatim>\<open>transform\<close> over them yet.
\<close>

record ell_keys =
  kk :: "string list"
  kk_transformed :: bool

definition ell_keys_empty :: ell_keys where
  "ell_keys_empty = \<lparr>kk = [], kk_transformed = False\<rparr>"

text \<open>\<^verbatim>\<open>ell_keys_insert\<close>: out of memory is reported as \<^verbatim>\<open>-ENOMEM\<close> and adds nothing.\<close>

definition ell_keys_insert :: "bool \<Rightarrow> string \<Rightarrow> ell_keys \<Rightarrow> i32 \<times> ell_keys" where
  "ell_keys_insert alloc str keys =
     (if alloc then (0, keys\<lparr>kk := kk keys @ [str]\<rparr>) else (- 12, keys))"

definition key_ident :: "ell_lib \<Rightarrow> bool \<Rightarrow> string \<Rightarrow> bytes" where
  "key_ident L transformed name = (if transformed then key_transform L name else key_initial_id L)"

text \<open>
  \<^verbatim>\<open>std::lower_bound\<close> of the C++ library, which \<^verbatim>\<open>ell_keys::find\<close> calls: halve the range \<open>[first, first + len)\<close> until it is empty; \<open>lt x\<close>
  is "the element is before the wanted one".
\<close>

function lb_loop :: "('a \<Rightarrow> bool) \<Rightarrow> 'a list \<Rightarrow> nat \<Rightarrow> nat \<Rightarrow> nat" where
  "lb_loop lt xs first len =
     (if len = 0 then first
      else let half = len div 2; middle = first + half
           in if lt (xs ! middle) then lb_loop lt xs (Suc middle) (len - half - 1)
              else lb_loop lt xs first half)"
  by pat_completeness auto
termination
  by (relation "measure (\<lambda>(lt, xs, first, len). len)") auto

declare lb_loop.simps [simp del]

definition lower_bound :: "('a \<Rightarrow> bool) \<Rightarrow> 'a list \<Rightarrow> nat" where
  "lower_bound lt xs = lb_loop lt xs 0 (length xs)"

text \<open>\<^verbatim>\<open>memcmp(a, b, n) < 0\<close>.\<close>

definition memcmp_less :: "nat \<Rightarrow> bytes \<Rightarrow> bytes \<Rightarrow> bool" where
  "memcmp_less n a b \<longleftrightarrow> take n a < take n b"

text \<open>\<^verbatim>\<open>ell_keys::find\<close>: the name where the search stops, empty past the end.\<close>

definition keys_find :: "ell_lib \<Rightarrow> ell_keys \<Rightarrow> bytes \<Rightarrow> string" where
  "keys_find L keys tmp =
     (let it = lower_bound
            (\<lambda>k. memcmp_less (DNET_ID_SIZE L) (key_ident L (kk_transformed keys) k) tmp) (kk keys)
      in if it \<noteq> length (kk keys) then kk keys ! it else [])"

text \<open>\<^verbatim>\<open>ell_keys_find\<close>: null for the empty name, else a copy up to the first NUL.\<close>

definition ell_keys_find :: "ell_lib \<Rightarrow> ell_keys \<Rightarrow> bytes \<Rightarrow> string option" where
  "ell_keys_find L keys i =
     (let raw = take (DNET_ID_SIZE L) i; res = keys_find L keys raw
      in if length res = 0 then None else Some (c_string res))"

text \<open>\<^verbatim>\<open>Keys.Find\<close>; \<^verbatim>\<open>&id[0]\<close> needs a non-empty slice.\<close>

definition Keys_Find :: "ell_lib \<Rightarrow> ell_keys \<Rightarrow> bytes \<Rightarrow> (error + string) outcome" where
  "Keys_Find L keys i =
     (if i = [] then Panic IndexOutOfRange
      else Done (case ell_keys_find L keys i of
          None \<Rightarrow> Inl (EText ''could not find key for given ID'')
        | Some ret \<Rightarrow> Inr ret))"

text \<open>The elements before the wanted one come first.\<close>

definition partitioned :: "('a \<Rightarrow> bool) \<Rightarrow> 'a list \<Rightarrow> bool" where
  "partitioned lt xs \<longleftrightarrow> (\<forall>j < length xs. \<forall>i < j. lt (xs ! j) \<longrightarrow> lt (xs ! i))"

text \<open>The identifiers of an array, as the comparison sees them.\<close>

definition idents :: "ell_lib \<Rightarrow> ell_keys \<Rightarrow> bytes list" where
  "idents L keys = map (\<lambda>k. take (DNET_ID_SIZE L) (key_ident L (kk_transformed keys) k)) (kk keys)"

text \<open>
  The loop invariant: everything before \<open>a\<close> is before the wanted element, and nothing from
  \<open>b\<close> on is.
\<close>

definition splits_between :: "('a \<Rightarrow> bool) \<Rightarrow> 'a list \<Rightarrow> nat \<Rightarrow> nat \<Rightarrow> bool" where
  "splits_between lt xs a b \<longleftrightarrow> a \<le> b \<and> b \<le> length xs \<and> (\<forall>i < a. lt (xs ! i)) \<and>
     (\<forall>i. b \<le> i \<longrightarrow> i < length xs \<longrightarrow> \<not> lt (xs ! i))"

section \<open>The search interface\<close>

locale range_search =
  fixes search :: "('a \<Rightarrow> bool) \<Rightarrow> 'a list \<Rightarrow> nat"
  assumes search_spec: "partitioned lt xs \<Longrightarrow> search lt xs = length (takeWhile lt xs)"
begin

lemma search_le: "partitioned lt xs \<Longrightarrow> search lt xs \<le> length xs"
  by (simp add: search_spec length_takeWhile_le)

lemma search_before: "partitioned lt xs \<Longrightarrow> i < search lt xs \<Longrightarrow> lt (xs ! i)"
  by (metis nth_mem search_spec set_takeWhileD takeWhile_nth)

lemma search_stop: "partitioned lt xs \<Longrightarrow> search lt xs < length xs \<Longrightarrow> \<not> lt (xs ! search lt xs)"
  by (simp add: nth_length_takeWhile search_spec)

text \<open>The search stops at the first element equal to the wanted one when there is one.\<close>

lemma search_hit:
  assumes "partitioned lt xs" "i < length xs" "\<not> lt (xs ! i)" "\<And>j. j < i \<Longrightarrow> lt (xs ! j)"
  shows "search lt xs = i"
  using assms search_before[OF assms(1), of i] search_stop[OF assms(1)] search_le[OF assms(1)]
  by (metis linorder_neqE_nat order_le_less order_less_le_trans)

end

section \<open>Lemmas\<close>

lemma lb_loop_0: "lb_loop lt xs first 0 = first"
  by (subst lb_loop.simps) simp

lemma lb_loop_right:
  "len \<noteq> 0 \<Longrightarrow> lt (xs ! (first + len div 2)) \<Longrightarrow>
     lb_loop lt xs first len = lb_loop lt xs (Suc (first + len div 2)) (len - len div 2 - 1)"
  by (subst lb_loop.simps) (simp add: Let_def)

lemma lb_loop_left:
  "len \<noteq> 0 \<Longrightarrow> \<not> lt (xs ! (first + len div 2)) \<Longrightarrow>
     lb_loop lt xs first len = lb_loop lt xs first (len div 2)"
  by (subst lb_loop.simps) (simp add: Let_def)

lemma splits_right:
  assumes "partitioned lt xs" "splits_between lt xs a b" "a \<le> m" "m < b" "lt (xs ! m)"
  shows "splits_between lt xs (Suc m) b"
proof -
  have "lt (xs ! i)" if "i < Suc m" for i
    using that assms unfolding partitioned_def splits_between_def
    by (cases "i = m") (auto simp: less_Suc_eq, meson order_less_le_trans)
  then show ?thesis using assms by (auto simp: splits_between_def)
qed

lemma splits_left:
  assumes "partitioned lt xs" "splits_between lt xs a b" "a \<le> m" "m < b" "\<not> lt (xs ! m)"
  shows "splits_between lt xs a m"
proof -
  have "\<not> lt (xs ! i)" if "m \<le> i" "i < length xs" for i
    using that assms unfolding partitioned_def by (cases "i = m") auto
  then show ?thesis using assms by (auto simp: splits_between_def)
qed

lemma lb_loop_splits:
  assumes "partitioned lt xs" "splits_between lt xs first (first + len)"
  shows "splits_between lt xs (lb_loop lt xs first len) (lb_loop lt xs first len)"
  using assms(2)
proof (induction len arbitrary: first rule: less_induct)
  case (less len)
  show ?case
  proof (cases "len = 0")
    case True
    then show ?thesis using less.prems by (simp add: lb_loop_0)
  next
    case False
    let ?m = "first + len div 2"
    have m: "first \<le> ?m" "?m < first + len" "Suc ?m + (len - len div 2 - 1) = first + len"
      using False by auto
    show ?thesis
    proof (cases "lt (xs ! ?m)")
      case True
      have "splits_between lt xs (Suc ?m) (Suc ?m + (len - len div 2 - 1))"
        unfolding m(3) using splits_right[OF assms(1) less.prems m(1,2) True] .
      with less.IH[of "len - len div 2 - 1"] False show ?thesis
        using True by (simp add: lb_loop_right)
    next
      case nlt: False
      from less.IH[of "len div 2", OF _ splits_left[OF assms(1) less.prems m(1,2) nlt]] False
      show ?thesis using False nlt by (simp add: lb_loop_left)
    qed
  qed
qed

lemma takeWhile_split:
  "splits_between lt xs p p \<Longrightarrow> p = length (takeWhile lt xs)"
proof (induction xs arbitrary: p)
  case Nil
  then show ?case by (simp add: splits_between_def)
next
  case (Cons x xs)
  show ?case
  proof (cases p)
    case 0
    then show ?thesis using Cons.prems by (auto simp: splits_between_def)
  next
    case (Suc q)
    then have "lt x" "splits_between lt xs q q"
      using Cons.prems by (auto simp: splits_between_def)
    then show ?thesis using Cons.IH Suc by simp
  qed
qed

lemma lower_bound_takeWhile:
  assumes "partitioned lt xs"
  shows "lower_bound lt xs = length (takeWhile lt xs)"
proof -
  have "splits_between lt xs 0 (0 + length xs)" by (simp add: splits_between_def)
  from takeWhile_split[OF lb_loop_splits[OF assms this]] show ?thesis
    by (simp add: lower_bound_def)
qed

interpretation lb: range_search lower_bound
  by unfold_locales (rule lower_bound_takeWhile)

lemma partitioned_sorted:
  assumes "sorted (map f xs)"
  shows "partitioned (\<lambda>x. f x < (y :: 'b :: linorder)) xs"
proof -
  have "f (xs ! i) \<le> f (xs ! j)" if "i < j" "j < length xs" for i j
    using assms that by (simp add: sorted_iff_nth_mono)
  then show ?thesis unfolding partitioned_def by (meson le_less_trans)
qed

text \<open>The comparison \<^verbatim>\<open>Find\<close> runs, on an array whose identifiers are sorted.\<close>

lemma partitioned_idents:
  "sorted (idents L keys) \<Longrightarrow>
     partitioned (\<lambda>k. memcmp_less (DNET_ID_SIZE L) (key_ident L (kk_transformed keys) k) i) (kk keys)"
  unfolding memcmp_less_def idents_def by (rule partitioned_sorted)

lemma memcmp_ident:
  "i < length (kk keys) \<Longrightarrow>
   memcmp_less (DNET_ID_SIZE L) (key_ident L (kk_transformed keys) (kk keys ! i)) x \<longleftrightarrow>
   idents L keys ! i < take (DNET_ID_SIZE L) x"
  by (simp add: memcmp_less_def idents_def)

text \<open>Where the search of \<^verbatim>\<open>Find\<close> stops in a sorted array, and the name it answers with.\<close>

lemma Keys_Find_at:
  assumes "sorted (idents L keys)" "i < length (kk keys)" "x \<noteq> []" "kk keys ! i \<noteq> []"
    and "\<not> idents L keys ! i < take (DNET_ID_SIZE L) x"
    and "\<And>j. j < i \<Longrightarrow> idents L keys ! j < take (DNET_ID_SIZE L) x"
  shows "Keys_Find L keys x = Done (Inr (c_string (kk keys ! i)))"
proof -
  let ?lt = "\<lambda>k. memcmp_less (DNET_ID_SIZE L) (key_ident L (kk_transformed keys) k) (take (DNET_ID_SIZE L) x)"
  have "lower_bound ?lt (kk keys) = i"
    using assms memcmp_ident[of _ keys L "take (DNET_ID_SIZE L) x"]
    by (intro lb.search_hit[OF partitioned_idents[OF assms(1)]]) auto
  then show ?thesis
    using assms(2-4) by (simp add: Keys_Find_def ell_keys_find_def keys_find_def Let_def)
qed

lemma Keys_Find_end:
  assumes "sorted (idents L keys)" "x \<noteq> []" "\<And>y. y \<in> set (idents L keys) \<Longrightarrow> y < take (DNET_ID_SIZE L) x"
  shows "Keys_Find L keys x = Done (Inl (EText ''could not find key for given ID''))"
proof -
  let ?lt = "\<lambda>k. memcmp_less (DNET_ID_SIZE L) (key_ident L (kk_transformed keys) k) (take (DNET_ID_SIZE L) x)"
  have "lower_bound ?lt (kk keys) = length (takeWhile ?lt (kk keys))"
    using lower_bound_takeWhile[OF partitioned_idents[OF assms(1)]] .
  moreover have "takeWhile ?lt (kk keys) = kk keys"
    using assms(3) by (auto simp: takeWhile_eq_all_conv memcmp_less_def idents_def)
  ultimately show ?thesis
    using assms(2) by (simp add: Keys_Find_def ell_keys_find_def keys_find_def Let_def)
qed

lemma idents_untransformed:
  "\<not> kk_transformed keys \<Longrightarrow>
   idents L keys = replicate (length (kk keys)) (take (DNET_ID_SIZE L) (key_initial_id L))"
  by (simp add: idents_def key_ident_def map_replicate_const)

text \<open>There is no test for equality.\<close>

lemma Find_absent:
  assumes "sorted (idents L keys)" "i < length (kk keys)" "kk keys ! i \<noteq> []" "x \<noteq> []"
    and "take (DNET_ID_SIZE L) x < idents L keys ! i"
    and "\<forall>j < i. idents L keys ! j < take (DNET_ID_SIZE L) x"
  shows "Keys_Find L keys x = Done (Inr (c_string (kk keys ! i)))"
  using assms(5,6) by (intro Keys_Find_at[OF assms(1,2,4,3)]) auto

text \<open>Two keys whose names and identifiers are ordered differently.\<close>

lemma Find_wrong_key:
  assumes "a < b" "a \<noteq> []" "key_transform L a \<noteq> []" "key_transform L b \<noteq> []"
    and "take (DNET_ID_SIZE L) (key_transform L b) < take (DNET_ID_SIZE L) (key_transform L a)"
  shows "Keys_Find L \<lparr>kk = sort [b, a], kk_transformed = True\<rparr> (key_transform L b) = Done (Inr (c_string a)) \<and>
    Keys_Find L \<lparr>kk = sort [b, a], kk_transformed = True\<rparr> (key_transform L a) =
      Done (Inl (EText ''could not find key for given ID''))"
proof -
  have "\<not> b \<le> a" "\<not> take (DNET_ID_SIZE L) (key_transform L a) < take (DNET_ID_SIZE L) (key_transform L b)"
    using assms(1,5) by auto
  then show ?thesis
    using assms
    by (simp add: Keys_Find_def ell_keys_find_def keys_find_def lower_bound_def lb_loop.simps Let_def
        memcmp_less_def key_ident_def)
qed

end
