(* ===== verification/StatJson.thy ===== *)
theory StatJson
  imports CtoGo
begin

text \<open>
  \<^verbatim>\<open>elliptics/stat_json.go\<close>: the Go types into which the monitoring reply of a server is
  decoded, and the methods that add up the counters of a command. A Go map is an
  association list with distinct keys; its order is the (arbitrary) order of iteration.
\<close>

section \<open>Definitions\<close>

record Time =
  Sec :: u64
  USec :: u64

record Status =
  State :: i32
  St_DefragState :: i32
  LastStart :: Time
  LastStartErr :: i32
  St_RO :: bool
  St_Delay :: u32

record Config =
  Cf_Group :: u32
  Cf_Data :: string
  Sync :: i32
  BlobFlags :: u64
  BlobSize :: u64
  BlobSizeLimit :: u64
  MaxRecords :: u64
  DefragPercentage :: u64
  DefragTimeout :: u64
  DefragTime :: u64
  DefragSplay :: u64

record GlobalStats =
  DataSortStartTime :: u64
  DataSortCompletionTime :: u64
  DataSortCompletionStatus :: i32

record BlobStats =
  Bl_RecordsTotal :: u64
  Bl_RecordsRemoved :: u64
  Bl_RecordsRemovedSize :: u64
  Bl_RecordsCorrupted :: u64
  BaseSize :: u64
  WantDefrag :: i32
  IsSorted :: i32

record VStat =
  BSize :: u64
  FrSize :: u64
  Blocks :: u64
  BFree :: u64
  BAvail :: u64

record DStatRaw =
  ReadIOs :: u64
  ReadMerges :: u64
  ReadSectors :: u64
  ReadTicks :: u64
  WriteIOs :: u64
  WriteMerges :: u64
  WriteSectors :: u64
  WriteTicks :: u64
  InFlight :: u64
  Raw_IOTicks :: u64
  TimeInQueue :: u64

record BackendError =
  BE_Code :: i32

record Backend =
  Be_Config :: Config
  Be_GlobalStats :: GlobalStats
  Be_SummaryStats :: BlobStats
  Be_BaseStats :: "(string \<times> BlobStats) list"
  Be_VFS :: VStat
  Be_DStat :: DStatRaw
  Be_Error :: BackendError

record CommandStat =
  CS_Success :: u64
  CS_Failures :: u64
  CS_Size :: u64
  CS_Time :: u64

definition CommandStat_RequestsSuccess :: "CommandStat \<Rightarrow> u64" where
  "CommandStat_RequestsSuccess c = CS_Success c"

definition CommandStat_RequestsFailures :: "CommandStat \<Rightarrow> u64" where
  "CommandStat_RequestsFailures c = CS_Failures c"

definition CommandStat_Bytes :: "CommandStat \<Rightarrow> u64" where
  "CommandStat_Bytes c = CS_Size c"

record LayerStat =
  Outside :: CommandStat
  Internal :: CommandStat

definition LayerStat_RequestsSuccess :: "LayerStat \<Rightarrow> u64" where
  "LayerStat_RequestsSuccess l =
     CommandStat_RequestsSuccess (Outside l) + CommandStat_RequestsSuccess (Internal l)"

definition LayerStat_RequestsFailures :: "LayerStat \<Rightarrow> u64" where
  "LayerStat_RequestsFailures l =
     CommandStat_RequestsFailures (Outside l) + CommandStat_RequestsFailures (Internal l)"

definition LayerStat_Bytes :: "LayerStat \<Rightarrow> u64" where
  "LayerStat_Bytes l = CommandStat_Bytes (Outside l) + CommandStat_Bytes (Internal l)"

record PacketOnlyCommandStat =
  PO_Success :: u64
  PO_Failures :: u64

record DstStat =
  Storage :: PacketOnlyCommandStat
  Proxy :: PacketOnlyCommandStat

record Command =
  Co_Cache :: LayerStat
  Co_Disk :: LayerStat
  Co_Total :: DstStat

definition Command_RequestsSuccess :: "Command \<Rightarrow> u64" where
  "Command_RequestsSuccess c = LayerStat_RequestsSuccess (Co_Cache c) + LayerStat_RequestsSuccess (Co_Disk c)"

definition Command_RequestsFailures :: "Command \<Rightarrow> u64" where
  "Command_RequestsFailures c = LayerStat_RequestsFailures (Co_Cache c) + LayerStat_RequestsFailures (Co_Disk c)"

definition Command_Bytes :: "Command \<Rightarrow> u64" where
  "Command_Bytes c = LayerStat_Bytes (Co_Cache c) + LayerStat_Bytes (Co_Disk c)"

record VNode =
  BackendID :: i64
  VN_Status :: Status
  VN_Backend :: Backend
  VN_Commands :: "(string \<times> Command) list"

record Response =
  Timestamp :: Time
  MonitorStatus :: string
  Backends :: "(string \<times> VNode) list"
  Commands :: "(string \<times> Command) list"

section \<open>Lemmas\<close>

lemmas counter_defs = CommandStat_RequestsSuccess_def CommandStat_RequestsFailures_def CommandStat_Bytes_def
  LayerStat_RequestsSuccess_def LayerStat_RequestsFailures_def LayerStat_Bytes_def
  Command_RequestsSuccess_def Command_RequestsFailures_def Command_Bytes_def

end
