(* ===== verification/Floats.thy ===== *)
theory Floats
  imports Prelude Complex_Main
begin

text \<open>
  Go's \<^verbatim>\<open>float64\<close> as far as the statistics use it: IEEE 754 binary64 with rounding to
  the nearest value, ties to even. A finite value is the rational number it stands for, so
  the two zeros are one value; no divisor of the program can be a negative zero (each is a
  duration in seconds or a non-zero constant). The lemmas bound a rounded quotient.
\<close>

section \<open>Definitions\<close>

datatype float64 =
    Fin rat
  | Inf bool   \<comment> \<open>the sign: \<open>True\<close> is negative\<close>
  | NaN

fun nbits :: "nat \<Rightarrow> nat" where
  "nbits n = (if n = 0 then 0 else Suc (nbits (n div 2)))"

declare nbits.simps [simp del]

definition pow2 :: "int \<Rightarrow> rat" where
  "pow2 e = (if 0 \<le> e then 2 ^ nat e else 1 / 2 ^ nat (- e))"

text \<open>The exponent of the leading bit.\<close>

definition expo :: "rat \<Rightarrow> int" where
  "expo q =
     (let (a, b) = quotient_of \<bar>q\<bar>; e = int (nbits (nat a)) - int (nbits (nat b))
      in if pow2 e \<le> \<bar>q\<bar> then e else e - 1)"

definition round_even :: "rat \<Rightarrow> int" where
  "round_even x =
     (let n = \<lfloor>x\<rfloor>; f = x - of_int n
      in if f < 1 / 2 then n else if 1 / 2 < f then n + 1 else if even n then n else n + 1)"

text \<open>53 significant bits, and none below \<open>2 ^ (- 1074)\<close>.\<close>

definition ulp :: "rat \<Rightarrow> rat" where
  "ulp q = pow2 (max (expo q - 52) (- 1074))"

definition rounded :: "rat \<Rightarrow> rat" where
  "rounded q = (if q = 0 then 0 else of_int (round_even (q / ulp q)) * ulp q)"

definition fl :: "rat \<Rightarrow> float64" where
  "fl q = (let r = rounded q in if 2 ^ 1024 \<le> \<bar>r\<bar> then Inf (q < 0) else Fin r)"

fun fadd :: "float64 \<Rightarrow> float64 \<Rightarrow> float64" where
  "fadd (Fin x) (Fin y) = fl (x + y)"
| "fadd NaN _ = NaN"
| "fadd _ NaN = NaN"
| "fadd (Inf s) (Inf t) = (if s = t then Inf s else NaN)"
| "fadd (Inf s) (Fin _) = Inf s"
| "fadd (Fin _) (Inf s) = Inf s"

fun fneg :: "float64 \<Rightarrow> float64" where
  "fneg (Fin x) = Fin (- x)"
| "fneg (Inf s) = Inf (\<not> s)"
| "fneg NaN = NaN"

definition fsub :: "float64 \<Rightarrow> float64 \<Rightarrow> float64" where
  "fsub x y = fadd x (fneg y)"

fun fmul :: "float64 \<Rightarrow> float64 \<Rightarrow> float64" where
  "fmul (Fin x) (Fin y) = fl (x * y)"
| "fmul NaN _ = NaN"
| "fmul _ NaN = NaN"
| "fmul (Inf s) (Inf t) = Inf (s \<noteq> t)"
| "fmul (Inf s) (Fin y) = (if y = 0 then NaN else Inf (s \<noteq> (y < 0)))"
| "fmul (Fin x) (Inf t) = (if x = 0 then NaN else Inf (t \<noteq> (x < 0)))"

fun fdiv :: "float64 \<Rightarrow> float64 \<Rightarrow> float64" where
  "fdiv (Fin x) (Fin y) = (if y = 0 then if x = 0 then NaN else Inf (x < 0) else fl (x / y))"
| "fdiv NaN _ = NaN"
| "fdiv _ NaN = NaN"
| "fdiv (Inf s) (Inf t) = NaN"
| "fdiv (Inf s) (Fin y) = Inf (s \<noteq> (y < 0))"
| "fdiv (Fin _) (Inf _) = Fin 0"

text \<open>\<^verbatim>\<open>x <= y\<close>: false when one of them is not a number.\<close>

fun fle :: "float64 \<Rightarrow> float64 \<Rightarrow> bool" where
  "fle (Fin x) (Fin y) = (x \<le> y)"
| "fle NaN _ = False"
| "fle _ NaN = False"
| "fle (Inf s) (Inf t) = (s \<or> \<not> t)"
| "fle (Inf s) (Fin _) = s"
| "fle (Fin _) (Inf t) = (\<not> t)"

text \<open>\<^verbatim>\<open>float64(n)\<close> of integers.\<close>

definition f_of_u64 :: "'n::len word \<Rightarrow> float64" where
  "f_of_u64 n = fl (of_nat (unat n))"

definition f_of_int :: "int \<Rightarrow> float64" where
  "f_of_int n = fl (of_int n)"

section \<open>Lemmas\<close>

lemma pow2_pos [simp]: "0 < pow2 e"
  by (simp add: pow2_def)

lemma ulp_pos [simp]: "0 < ulp q"
  by (simp add: ulp_def)

text \<open>Rounding to an integer stays on the right side of every integer.\<close>

lemma round_even_le: "x \<le> of_int n \<Longrightarrow> round_even x \<le> n"
proof -
  assume le: "x \<le> of_int n"
  have "\<lfloor>x\<rfloor> < n \<or> x = of_int n \<and> \<lfloor>x\<rfloor> = n" using le by linarith
  then show ?thesis by (auto simp: round_even_def Let_def)
qed

lemma round_even_ge: "of_int n \<le> x \<Longrightarrow> n \<le> round_even x"
proof -
  assume "of_int n \<le> x"
  then have "n \<le> \<lfloor>x\<rfloor>" by linarith
  then show ?thesis by (auto simp: round_even_def Let_def)
qed

lemma round_even_of_int [simp]: "round_even (of_int n) = n"
  by (simp add: round_even_def)

lemma rounded_nonneg: "0 \<le> q \<Longrightarrow> 0 \<le> rounded q"
proof -
  assume "0 \<le> q"
  then have "0 \<le> round_even (q / ulp q)"
    using ulp_pos[of q] by (intro round_even_ge) (simp add: divide_nonneg_pos)
  then show ?thesis using ulp_pos[of q] unfolding rounded_def
    by (metis less_imp_le mult_nonneg_nonneg of_int_0_le_iff order_refl)
qed

lemma pow2_powi: "pow2 e = 2 powi e"
  unfolding pow2_def power_int_def by (simp only: divide_inverse mult_1 power_inverse)

lemma pow2_add: "pow2 (a + b) = pow2 a * pow2 b"
  by (simp add: pow2_powi power_int_add)

lemma nbits_mono: "m \<le> n \<Longrightarrow> nbits m \<le> nbits n"
proof (induction m arbitrary: n rule: nbits.induct)
  case (1 m)
  then show ?case
    by (cases "m = 0") (simp_all add: nbits.simps[of m] nbits.simps[of n] nbits.simps[of 0] div_le_mono)
qed

lemma nbits_shift: "0 < m \<Longrightarrow> nbits (m * 2 ^ k) = nbits m + k"
  by (induction k) (simp_all add: nbits.simps[of "m * (2 * 2 ^ k)" for m k] mult.left_commute)

text \<open>The rounding of a number up to a power of two stays below that power.\<close>

lemma expo_le:
  assumes "0 \<le> q" "q \<le> 2 ^ n"
  shows "expo q \<le> int n"
proof -
  obtain a b where ab: "quotient_of q = (a, b)" by (cases "quotient_of q")
  have b: "0 < b" using quotient_of_denom_pos[OF ab] .
  have q: "q = of_int a / of_int b" using quotient_of_div[OF ab] .
  have "0 \<le> a" using assms(1) b unfolding q by (simp add: zero_le_divide_iff)
  have "rat_of_int a \<le> of_int (b * 2 ^ n)"
    using assms(2) b unfolding q by (simp add: pos_divide_le_eq mult.commute)
  then have "a \<le> b * 2 ^ n" by (simp only: of_int_le_iff)
  then have "nat a \<le> nat b * 2 ^ n"
    using b by (metis less_imp_le nat_mono nat_mult_distrib nat_numeral nat_power_eq zero_le_numeral)
  then have "nbits (nat a) \<le> nbits (nat b) + n"
    using nbits_mono nbits_shift[of "nat b" n] b by fastforce
  then show ?thesis using assms(1) by (simp add: expo_def ab Let_def)
qed

lemma rounded_le_power:
  assumes "0 \<le> q" "q \<le> 2 ^ n"
  shows "rounded q \<le> 2 ^ n"
proof -
  define k where "k = max (expo q - 52) (- 1074)"
  have k: "k \<le> int n" using expo_le[OF assms] by (simp add: k_def)
  have "(2::rat) ^ n = pow2 (int n - k + k)" by (simp add: pow2_def)
  also have "\<dots> = of_int (2 ^ nat (int n - k)) * ulp q"
    using k unfolding pow2_add by (simp add: ulp_def k_def[symmetric] pow2_def)
  finally have eq: "(2::rat) ^ n = of_int (2 ^ nat (int n - k)) * ulp q" .
  have "q / ulp q \<le> of_int (2 ^ nat (int n - k))"
    using assms(2) unfolding eq by (simp add: pos_divide_le_eq)
  from round_even_le[OF this] show ?thesis
    unfolding eq using ulp_pos[of q] by (auto simp: rounded_def less_imp_le)
qed

text \<open>A number from 1 on does not vanish by rounding.\<close>

lemma nbits_bounds: "0 < n \<Longrightarrow> 2 ^ nbits n \<le> 2 * n \<and> n < 2 ^ nbits n"
proof (induction n rule: nbits.induct)
  case (1 n)
  show ?case
  proof (cases "n div 2 = 0")
    case True
    then have "n = 1" using 1(2) by auto
    then show ?thesis by (simp add: nbits.simps)
  next
    case False
    then have IH: "2 ^ nbits (n div 2) \<le> 2 * (n div 2)" "n div 2 < 2 ^ nbits (n div 2)" using 1 by auto
    have "nbits n = Suc (nbits (n div 2))" using 1(2) by (subst nbits.simps) simp
    then show ?thesis using IH by simp linarith
  qed
qed

lemma expo_lower:
  assumes "1 \<le> q"
  shows "pow2 (expo q) \<le> q" "- 1 \<le> expo q"
proof -
  obtain a b where ab: "quotient_of q = (a, b)" by (cases "quotient_of q")
  have b: "0 < b" using quotient_of_denom_pos[OF ab] .
  have q: "q = of_int a / of_int b" using quotient_of_div[OF ab] .
  have "b \<le> a" using assms b unfolding q by (simp add: pos_le_divide_eq)
  then have n: "nbits (nat b) \<le> nbits (nat a)" "0 < nat a" "0 < nat b" using b by (auto intro: nbits_mono)
  define e where "e = int (nbits (nat a)) - int (nbits (nat b))"
  have pow_nat: "pow2 (int k) = 2 ^ k" for k by (simp add: pow2_def)
  have "pow2 e * pow2 (int (nbits (nat b))) = 2 ^ nbits (nat a)"
    unfolding pow2_add[symmetric] e_def by (simp add: pow_nat)
  also have "\<dots> \<le> rat_of_nat (2 * nat a)"
    using nbits_bounds[OF n(2)] by (metis of_nat_le_iff of_nat_numeral of_nat_power)
  finally have *: "pow2 e * 2 ^ nbits (nat b) \<le> 2 * of_int a" using n(2) by (simp add: pow_nat)
  have "rat_of_nat (nat b) < 2 ^ nbits (nat b)"
    using nbits_bounds[OF n(3)] by (metis of_nat_less_iff of_nat_numeral of_nat_power)
  then have "pow2 e * of_int b \<le> pow2 e * 2 ^ nbits (nat b)" using b pow2_pos[of e] by simp
  with * have "pow2 e * of_int b \<le> 2 * of_int a" by linarith
  then have "pow2 (e - 1) * of_int b \<le> of_int a"
    using pow2_add[of "e - 1" 1] by (simp add: pow2_def[of 1])
  then have "pow2 (e - 1) \<le> q" unfolding q using b by (simp add: pos_le_divide_eq)
  then show "pow2 (expo q) \<le> q" using assms by (simp add: expo_def ab Let_def e_def)
  show "- 1 \<le> expo q" using assms n(1) by (simp add: expo_def ab Let_def)
qed

lemma rounded_pos:
  assumes "1 \<le> q"
  shows "0 < rounded q"
proof -
  have e: "ulp q = pow2 (expo q - 52)" using expo_lower(2)[OF assms] by (simp add: ulp_def)
  have "pow2 (expo q) = pow2 52 * ulp q" by (simp add: e pow2_add[symmetric])
  then have "4503599627370496 * ulp q \<le> q"
    using expo_lower(1)[OF assms] by (simp add: pow2_def[of 52])
  then have "1 * ulp q \<le> q" using ulp_pos[of q] by linarith
  then have "of_int 1 \<le> q / ulp q" by (simp add: pos_le_divide_eq)
  from round_even_ge[OF this] show ?thesis using assms by (simp add: rounded_def)
qed

lemma fl_pos: "1 \<le> q \<Longrightarrow> fl q = Inf False \<or> (\<exists>x > 0. fl q = Fin x)"
  using rounded_pos[of q] by (auto simp: fl_def Let_def)

lemma fl_nonneg: "0 \<le> q \<Longrightarrow> fl q = Inf False \<or> (\<exists>x \<ge> 0. fl q = Fin x)"
  using rounded_nonneg[of q] by (auto simp: fl_def Let_def)

lemma fl_0 [simp]: "fl 0 = Fin 0"
  by (simp add: fl_def rounded_def)

lemma fadd_NaN [simp]: "fadd x NaN = NaN" "fadd NaN x = NaN"
  by (cases x; simp)+

lemma fmul_NaN [simp]: "fmul x NaN = NaN" "fmul NaN x = NaN"
  by (cases x; simp)+

lemma fle_NaN [simp]: "\<not> fle x NaN" "\<not> fle NaN x"
  by (cases x; simp)+

lemma fl_le_power:
  assumes "0 \<le> q" "q \<le> 2 ^ n" "n < 1024"
  shows "fl q = Fin (rounded q)" "0 \<le> rounded q" "rounded q \<le> 2 ^ n"
proof -
  show *: "0 \<le> rounded q" "rounded q \<le> 2 ^ n" using rounded_nonneg rounded_le_power assms by auto
  have "rounded q < 2 ^ 1024"
    using *(2) power_strict_increasing[of n 1024 "2::rat"] assms(3) by linarith
  then show "fl q = Fin (rounded q)" using *(1) by (simp add: fl_def)
qed

text \<open>The largest \<^verbatim>\<open>uint64\<close> becomes \<open>2 ^ 64\<close>.\<close>

lemma f_of_u64_max: "f_of_u64 (- 1 :: u64) = Fin (2 ^ 64)"
proof -
  have n: "nbits 18446744073709551615 = 64" "nbits 1 = 1" by (simp_all add: nbits.simps)
  have "expo (18446744073709551615 :: rat) = 63"
    using quotient_of_int[of 18446744073709551615] n by (simp add: expo_def pow2_def)
  then have u: "ulp 18446744073709551615 = 2048" by (simp add: ulp_def pow2_def)
  have "\<lfloor>18446744073709551615 / 2048 :: rat\<rfloor> = 9007199254740991" by (rule floor_unique) simp_all
  then have "round_even (18446744073709551615 / 2048) = 9007199254740992"
    by (simp add: round_even_def Let_def)
  then have "rounded (18446744073709551615 :: rat) = 18446744073709551616"
    by (simp add: rounded_def u)
  moreover have "unat (- 1 :: u64) = 18446744073709551615"
    by (simp add: unsigned_minus_1_eq_mask mask_eq_exp_minus_1)
  ultimately show ?thesis unfolding f_of_u64_def by (simp add: fl_def)
qed

text \<open>A fraction of the largest \<^verbatim>\<open>uint64\<close> is between 0 and 1.\<close>

lemma fraction_bounds:
  obtains p where "fdiv (f_of_u64 (n :: u64)) (f_of_u64 (- 1 :: u64)) = Fin p" "0 \<le> p" "p \<le> 1"
proof -
  let ?q = "rat_of_nat (unat n)"
  have "unat n \<le> 2 ^ 64" using unsigned_less[of n, where ?'a = nat] by simp
  then have q: "0 \<le> ?q" "?q \<le> 2 ^ 64" by (metis of_nat_0_le_iff, metis of_nat_le_iff of_nat_numeral of_nat_power)
  note r = fl_le_power[OF q, simplified]
  have "rounded ?q / 2 ^ 64 \<le> 2 ^ 0" "0 \<le> rounded ?q / 2 ^ 64" using r(2,3) by simp_all
  note p = fl_le_power[OF this(2,1)]
  show ?thesis
    by (rule that[of "rounded (rounded ?q / 2 ^ 64)"])
      (use r(1) p f_of_u64_max in \<open>simp_all add: f_of_u64_def\<close>)
qed

end
