(* ===== verification/GoSort.thy ===== *)
theory GoSort
  imports Prelude "HOL-Library.Multiset"
begin

text \<open>
  The package \<^verbatim>\<open>sort\<close> of Go as the statistics use it. A type implements \<^verbatim>\<open>sort.Interface\<close> with
  \<^verbatim>\<open>Len\<close>, \<^verbatim>\<open>Less\<close> and \<^verbatim>\<open>Swap\<close>; \<^verbatim>\<open>sort.Sort\<close> knows nothing else of it. Its documentation promises
  an ascending order and nothing about the algorithm, which changed between versions of Go.
  The locale shows that this is enough: whatever exchanges are made, once no neighbours
  are out of order the result is the sorted list, so a model may write \<open>sort\<close> for the call.
\<close>

section \<open>Definitions\<close>

text \<open>What can become of a value by calls of its \<^verbatim>\<open>Swap\<close> with indices below its \<^verbatim>\<open>Len\<close>.\<close>

inductive swapping :: "('s \<Rightarrow> nat) \<Rightarrow> (nat \<Rightarrow> nat \<Rightarrow> 's \<Rightarrow> 's outcome) \<Rightarrow> 's \<Rightarrow> 's \<Rightarrow> bool"
  for len swap where
  swapping_refl: "swapping len swap s s"
| swapping_step:
    "swapping len swap s t \<Longrightarrow> i < len t \<Longrightarrow> j < len t \<Longrightarrow> swap i j t = Done u \<Longrightarrow> swapping len swap s u"

text \<open>\<^verbatim>\<open>sort.IsSorted\<close>: no element is less than the one before it.\<close>

definition in_order :: "('s \<Rightarrow> nat) \<Rightarrow> (nat \<Rightarrow> nat \<Rightarrow> 's \<Rightarrow> bool outcome) \<Rightarrow> 's \<Rightarrow> bool" where
  "in_order len lt s \<longleftrightarrow> (\<forall>i \<in> {0 ..< len s - 1}. lt (Suc i) i s = Done False)"

text \<open>
  The insertion sort of the package, which \<^verbatim>\<open>sort.Sort\<close> uses for short slices: every element
  is moved down by exchanges with its predecessor while it is less than that.
\<close>

fun move_down ::
    "(nat \<Rightarrow> nat \<Rightarrow> 's \<Rightarrow> bool outcome) \<Rightarrow> (nat \<Rightarrow> nat \<Rightarrow> 's \<Rightarrow> 's outcome) \<Rightarrow> nat \<Rightarrow> 's \<Rightarrow> 's outcome" where
  "move_down lt swap 0 s = Done s"
| "move_down lt swap (Suc j) s =
     bindO (lt (Suc j) j s) (\<lambda>b.
       if b then bindO (swap (Suc j) j s) (move_down lt swap j) else Done s)"

definition insertionSort ::
    "('s \<Rightarrow> nat) \<Rightarrow> (nat \<Rightarrow> nat \<Rightarrow> 's \<Rightarrow> bool outcome) \<Rightarrow> (nat \<Rightarrow> nat \<Rightarrow> 's \<Rightarrow> 's outcome) \<Rightarrow> 's \<Rightarrow> 's outcome" where
  "insertionSort len lt swap s = steps (map (move_down lt swap) [1 ..< len s]) s"

section \<open>Exchanges in a list\<close>

abbreviation exchange :: "nat \<Rightarrow> nat \<Rightarrow> 'a list \<Rightarrow> 'a list" where
  "exchange i j xs \<equiv> xs[i := xs ! j, j := xs ! i]"

lemma mset_exchange [simp]: "i < length xs \<Longrightarrow> j < length xs \<Longrightarrow> mset (exchange i j xs) = mset xs"
  by (rule mset_swap)

text \<open>Moving the element at \<open>j\<close> down into the sorted elements before it.\<close>

fun insert_at :: "nat \<Rightarrow> 'a::linorder list \<Rightarrow> 'a list" where
  "insert_at 0 xs = xs"
| "insert_at (Suc j) xs = (if xs ! Suc j < xs ! j then insert_at j (exchange (Suc j) j xs) else xs)"

lemma length_insert_at [simp]: "length (insert_at j xs) = length xs"
  by (induction j xs rule: insert_at.induct) auto

lemma mset_insert_at: "j < length xs \<Longrightarrow> mset (insert_at j xs) = mset xs"
  by (induction j xs rule: insert_at.induct) auto

text \<open>
  Invariant of the movement: the first \<open>n\<close> elements are in order, up to the one at \<open>j\<close>
  that is still to be moved.
\<close>

definition sorted_but :: "nat \<Rightarrow> nat \<Rightarrow> 'a::linorder list \<Rightarrow> bool" where
  "sorted_but j n xs \<longleftrightarrow>
     (\<forall>a b. a < b \<longrightarrow> b < n \<longrightarrow> b \<noteq> j \<longrightarrow> xs ! a \<le> xs ! b)"

lemma sorted_but_exchange:
  assumes "sorted_but (Suc j) n xs" "Suc j < n" "n \<le> length xs" "xs ! Suc j < xs ! j"
  shows "sorted_but j n (exchange (Suc j) j xs)"
  unfolding sorted_but_def
proof (intro allI impI)
  fix a b assume ab: "a < b" "b < n" "b \<noteq> j"
  have le: "a < b \<Longrightarrow> b < n \<Longrightarrow> b \<noteq> Suc j \<Longrightarrow> xs ! a \<le> xs ! b" for a b
    using assms(1) by (simp add: sorted_but_def)
  show "exchange (Suc j) j xs ! a \<le> exchange (Suc j) j xs ! b"
    using ab assms(2-4) le[of a b] le[of a j] le[of j b]
    by (cases "a = j"; cases "a = Suc j"; cases "b = Suc j") (simp_all add: nth_list_update)
qed

lemma sorted_but_done:
  assumes "sorted_but (Suc j) n xs" "\<not> xs ! Suc j < xs ! j"
  shows "sorted_but 0 n xs"
  unfolding sorted_but_def
proof (intro allI impI)
  fix a b assume ab: "a < b" "b < n"
  have le: "a < b \<Longrightarrow> b < n \<Longrightarrow> b \<noteq> Suc j \<Longrightarrow> xs ! a \<le> xs ! b" for a b
    using assms(1) by (simp add: sorted_but_def)
  show "xs ! a \<le> xs ! b"
    using ab assms(2) le[of a b] le[of a j] by (cases "b = Suc j"; cases "a = j") auto
qed

lemma insert_at_sorted:
  "sorted_but j n xs \<Longrightarrow> j < n \<Longrightarrow> n \<le> length xs \<Longrightarrow> sorted_but 0 n (insert_at j xs)"
  by (induction j xs rule: insert_at.induct) (auto simp: sorted_but_exchange sorted_but_done)

lemma sorted_but_Suc: "sorted_but 0 n xs \<Longrightarrow> sorted_but n (Suc n) xs"
  by (auto simp: sorted_but_def less_Suc_eq)

lemma insert_all:
  assumes "k \<le> length xs"
  shows "length (foldl (\<lambda>xs j. insert_at j xs) xs [1 ..< k]) = length xs \<and>
    mset (foldl (\<lambda>xs j. insert_at j xs) xs [1 ..< k]) = mset xs \<and>
    sorted_but 0 k (foldl (\<lambda>xs j. insert_at j xs) xs [1 ..< k])"
  using assms
proof (induction k)
  case 0 then show ?case by (simp add: sorted_but_def)
next
  case (Suc k)
  show ?case
  proof (cases "k = 0")
    case True then show ?thesis by (simp add: sorted_but_def)
  next
    case False
    let ?ys = "foldl (\<lambda>xs j. insert_at j xs) xs [1 ..< k]"
    have "sorted_but 0 (Suc k) (insert_at k ?ys)"
      using Suc False by (intro insert_at_sorted sorted_but_Suc) simp_all
    then show ?thesis using Suc False by (simp add: mset_insert_at)
  qed
qed

lemma insert_all_sort: "foldl (\<lambda>xs j. insert_at j xs) xs [1 ..< length xs] = sort xs"
proof (rule sym, rule properties_for_sort)
  let ?ys = "foldl (\<lambda>xs j. insert_at j xs) xs [1 ..< length xs]"
  have all: "length ?ys = length xs \<and> mset ?ys = mset xs \<and> sorted_but 0 (length xs) ?ys"
    by (rule insert_all) simp
  then show "mset ?ys = mset xs" by simp
  show "sorted ?ys"
    using all by (auto simp: sorted_iff_nth_mono_less sorted_but_def)
qed

section \<open>The interface\<close>

text \<open>
  A value with a list of elements: \<open>Less\<close> compares two of them, \<open>Swap\<close> exchanges two and
  leaves the rest of the value alone.
\<close>

locale sort_interface =
  fixes len :: "'s \<Rightarrow> nat"
    and lt :: "nat \<Rightarrow> nat \<Rightarrow> 's \<Rightarrow> bool outcome"
    and swap :: "nat \<Rightarrow> nat \<Rightarrow> 's \<Rightarrow> 's outcome"
    and elements :: "'s \<Rightarrow> 'a::linorder list"
    and put :: "'a list \<Rightarrow> 's \<Rightarrow> 's"
  assumes len_elements: "len s = length (elements s)"
    and lt_elements: "i < len s \<Longrightarrow> j < len s \<Longrightarrow> lt i j s = Done (elements s ! i < elements s ! j)"
    and swap_elements: "i < len s \<Longrightarrow> j < len s \<Longrightarrow> swap i j s = Done (put (exchange i j (elements s)) s)"
    and elements_put: "elements (put xs s) = xs"
    and put_elements: "put (elements s) s = s"
    and put_put: "put xs (put ys s) = put xs s"
begin

lemmas interface_simps = len_elements lt_elements swap_elements elements_put put_put

lemma swapping_put: "swapping len swap s t \<Longrightarrow> t = put (elements t) s \<and> mset (elements t) = mset (elements s)"
proof (induction rule: swapping.induct)
  case (swapping_refl s) then show ?case by (simp add: put_elements)
next
  case (swapping_step s t i j u)
  then have u: "u = put (exchange i j (elements t)) t" by (simp add: swap_elements)
  then have "u = put (exchange i j (elements t)) s" by (metis swapping_step.IH put_put)
  then show ?case using swapping_step u by (simp add: elements_put len_elements)
qed

lemma in_order_sorted: "in_order len lt s \<longleftrightarrow> sorted (elements s)"
  by (auto simp: in_order_def interface_simps sorted_iff_nth_Suc not_less)

text \<open>The promise of \<^verbatim>\<open>sort.Sort\<close> determines its result.\<close>

lemma sort_unique:
  assumes "swapping len swap s t" "in_order len lt t"
  shows "t = put (sort (elements s)) s"
proof -
  have "elements t = sort (elements s)"
    using assms swapping_put[OF assms(1)] by (metis in_order_sorted properties_for_sort)
  then show ?thesis using swapping_put[OF assms(1)] by simp
qed

lemma move_down_put: "j < len s \<Longrightarrow> move_down lt swap j s = Done (put (insert_at j (elements s)) s)"
proof (induction j arbitrary: s)
  case 0 then show ?case by (simp add: put_elements)
next
  case (Suc j)
  show ?case
  proof (cases "elements s ! Suc j < elements s ! j")
    case True
    have "move_down lt swap (Suc j) s = move_down lt swap j (put (exchange (Suc j) j (elements s)) s)"
      using Suc.prems True by (simp add: lt_elements swap_elements)
    also have "\<dots> = Done (put (insert_at j (exchange (Suc j) j (elements s))) s)"
      using Suc.prems by (subst Suc.IH) (simp_all add: interface_simps)
    finally show ?thesis using True by simp
  next
    case False
    then show ?thesis using Suc.prems by (simp add: lt_elements put_elements)
  qed
qed

lemma move_downs_put:
  "\<forall>j \<in> set js. j < len s \<Longrightarrow>
     steps (map (move_down lt swap) js) s = Done (put (foldl (\<lambda>xs j. insert_at j xs) (elements s) js) s)"
proof (induction js arbitrary: s)
  case Nil then show ?case by (simp add: put_elements)
next
  case (Cons j js)
  then show ?case by (simp add: move_down_put interface_simps)
qed

text \<open>The insertion sort keeps the promise.\<close>

lemma insertionSort_sorts: "insertionSort len lt swap s = Done (put (sort (elements s)) s)"
  by (simp add: insertionSort_def move_downs_put len_elements insert_all_sort del: One_nat_def)

end

end
