(* ===== verification/Stat.thy ===== *)
theory Stat
  imports StatJson Floats GoSort "HOL-Library.AList" "HOL-Library.Signed_Division"
begin

text \<open>
  \<^verbatim>\<open>elliptics/stat.go\<close> (without the request itself) and the route entries of
  \<^verbatim>\<open>elliptics/route.go\<close>: the statistics of a cluster by group, and within a group by server
  address and backend. Go maps are association lists with distinct keys, whose order is the
  arbitrary order of iteration. The objects behind the map values are kept by value; the theory
  StatStore shows that nothing is lost as long as no two statistics share a group.
  \<^verbatim>\<open>json.Unmarshal\<close> is a parameter: a function from the bytes to what it leaves in the
  \<^verbatim>\<open>Response\<close> and its error; nothing is assumed about it.
\<close>

unbundle bit_operations_syntax

section \<open>Definitions\<close>

definition StatCategoryCache :: i64 where "StatCategoryCache = push_bit 0 1"
definition StatCategoryIO :: i64 where "StatCategoryIO = push_bit 1 1"
definition StatCategoryCommands :: i64 where "StatCategoryCommands = push_bit 2 1"
definition StatCategoryBackend :: i64 where "StatCategoryBackend = push_bit 4 1"
definition StatCategoryProcFS :: i64 where "StatCategoryProcFS = push_bit 6 1"
definition StatSectorSize :: u64 where "StatSectorSize = 512"
definition BackendStateDisabled :: i32 where "BackendStateDisabled = 0"
definition BackendStateEnabled :: i32 where "BackendStateEnabled = 1"
definition BackendStateActivating :: i32 where "BackendStateActivating = 2"
definition BackendStateDeactivating :: i32 where "BackendStateDeactivating = 3"
definition DefragStateNotStarted :: i32 where "DefragStateNotStarted = 0"
definition DefragStateInProgress :: i32 where "DefragStateInProgress = 1"

text \<open>A missing key of a \<^verbatim>\<open>map[int32]string\<close> gives the empty string.\<close>

definition backend_state :: "i32 \<Rightarrow> string" where
  "backend_state s =
     (case map_of [(BackendStateDisabled, ''disabled''), (BackendStateEnabled, ''enabled''),
        (BackendStateActivating, ''activating''), (BackendStateDeactivating, ''deactivating'')] s of
      None \<Rightarrow> '''' | Some x \<Rightarrow> x)"

definition defrag_state :: "i32 \<Rightarrow> string" where
  "defrag_state s =
     (case map_of [(DefragStateNotStarted, ''not-started''), (DefragStateInProgress, ''in-progress'')] s of
      None \<Rightarrow> '''' | Some x \<Rightarrow> x)"

subsection \<open>Addresses with backends\<close>

record RawAddr =
  RA_Addr :: bytes   \<comment> \<open>\<^verbatim>\<open>[32]byte\<close>\<close>
  RA_Len :: int
  RA_Family :: u16

record AddressBackend =
  AB_Addr :: RawAddr
  AB_Backend :: i32

definition RawAddr_DnetAddr :: "RawAddr \<Rightarrow> DnetAddr outcome" where
  "RawAddr_DnetAddr a =
     (if RA_Len a < 0 \<or> int (length (RA_Addr a)) < RA_Len a then Panic IndexOutOfRange
      else Done \<lparr>Addr = take (nat (RA_Len a)) (RA_Addr a), Family = RA_Family a\<rparr>)"

definition RawAddr_String :: "ell_lib \<Rightarrow> RawAddr \<Rightarrow> string outcome" where
  "RawAddr_String L a = mapO (DnetAddr_String L) (RawAddr_DnetAddr a)"

definition AddressBackend_String :: "ell_lib \<Rightarrow> AddressBackend \<Rightarrow> string outcome" where
  "AddressBackend_String L ab =
     mapO (\<lambda>a. ''ab: address: '' @ a @ '', backend: '' @ dec_i32 (AB_Backend ab))
       (RawAddr_String L (AB_Addr ab))"

text \<open>\<^verbatim>\<open>log.Fatalf\<close> ends the process; otherwise the address is copied into the zeroed array.\<close>

definition NewAddressBackend :: "ell_lib \<Rightarrow> DnetAddr \<Rightarrow> i32 \<Rightarrow> AddressBackend outcome" where
  "NewAddressBackend L addr backend =
     (if length (Addr addr) > 32
      then Panic (Fatal (''can not create new address+backend: addr: '' @ DnetAddr_String L addr @
             '', backend: '' @ dec_i32 backend @ '', addr.len: '' @ dec_nat (length (Addr addr)) @
             '', raw.len: 32''))
      else Done \<lparr>AB_Addr = \<lparr>RA_Addr = Addr addr @ replicate (32 - length (Addr addr)) 0,
             RA_Len = int (length (Addr addr)), RA_Family = Family addr\<rparr>, AB_Backend = backend\<rparr>)"

subsection \<open>Statistics of a backend\<close>

record VFS =
  VFS_Total :: u64
  VFS_Avail :: u64
  VFS_TotalSizeLimit :: u64
  VFS_BackendRemovedSize :: u64
  VFS_BackendUsedSize :: u64
  VFS_RecordsTotal :: u64
  VFS_RecordsRemoved :: u64
  VFS_RecordsCorrupted :: u64

record CStat =
  RequestsSuccess :: u64
  RequestsFailures :: u64
  Bytes :: u64
  RPSFailures :: float64
  RPSSuccess :: float64
  BPS :: float64

record DStat =
  WSectors :: u64
  RSectors :: u64
  IOTicks :: u64
  WBS :: float64
  RBS :: float64
  Util :: float64

record PID =
  PID_Error :: float64
  IntegralError :: float64
  ErrorTime :: go_time
  Pain :: float64

text \<open>The current time is an argument of what calls \<^verbatim>\<open>time.Now\<close>.\<close>

definition NewPIDController :: "go_time \<Rightarrow> PID" where
  "NewPIDController now = \<lparr>PID_Error = Fin 0, IntegralError = Fin 0, ErrorTime = now, Pain = Fin 0\<rparr>"

text \<open>\<open>0.3\<close> is the nearest \<^verbatim>\<open>float64\<close>.\<close>

definition PIDKe :: float64 where "PIDKe = Fin 1"
definition PIDKi :: float64 where "PIDKi = Fin 0"
definition PIDKd :: float64 where "PIDKd = fl (3 / 10)"

text \<open>
  \<^verbatim>\<open>Time.Sub\<close>: the nanoseconds between two instants, saturated to an \<^verbatim>\<open>int64\<close>, and
  \<^verbatim>\<open>Duration.Seconds\<close>: whole seconds and fraction are converted apart (both truncate).
\<close>

definition time_Sub :: "go_time \<Rightarrow> go_time \<Rightarrow> int" where
  "time_Sub t u =
     (let d = (t_sec t - t_sec u) * 1000000000 + (t_nsec t - t_nsec u)
      in max (- 9223372036854775808) (min 9223372036854775807 d))"

definition Seconds :: "int \<Rightarrow> float64" where
  "Seconds d = fadd (f_of_int (d sdiv 1000000000)) (fdiv (f_of_int (d smod 1000000000)) (Fin 1000000000))"

record StatBackend =
  SB_Error :: BackendError
  SB_ID :: "DnetRawID list"
  sb_sum :: u64
  Percentage :: float64
  DefragState :: i32
  DefragStateStr :: string
  DefragStartTime :: go_time
  DefragCompletionTime :: go_time
  DefragCompletionStatus :: i32
  RO :: bool
  Delay :: u32
  SB_VFS :: VFS
  SB_DStat :: DStat
  SB_PID :: PID
  SB_Commands :: "(string \<times> CStat) list"

definition NewStatBackend :: "go_time \<Rightarrow> StatBackend" where
  "NewStatBackend now =
     \<lparr>SB_Error = \<lparr>BE_Code = 0\<rparr>, SB_ID = [], sb_sum = 0, Percentage = Fin 0, DefragState = 0,
      DefragStateStr = '''', DefragStartTime = go_time_zero, DefragCompletionTime = go_time_zero,
      DefragCompletionStatus = 0, RO = False, Delay = 0,
      SB_VFS = \<lparr>VFS_Total = 0, VFS_Avail = 0, VFS_TotalSizeLimit = 0, VFS_BackendRemovedSize = 0,
        VFS_BackendUsedSize = 0, VFS_RecordsTotal = 0, VFS_RecordsRemoved = 0, VFS_RecordsCorrupted = 0\<rparr>,
      SB_DStat = \<lparr>WSectors = 0, RSectors = 0, IOTicks = 0, WBS = Fin 0, RBS = Fin 0, Util = Fin 0\<rparr>,
      SB_PID = NewPIDController now, SB_Commands = []\<rparr>"

definition PIDPain :: "StatBackend \<Rightarrow> float64" where
  "PIDPain backend = Pain (SB_PID backend)"

text \<open>\<open>since\<close> and \<open>now\<close> are the two readings of the clock.\<close>

definition PIDUpdate :: "float64 \<Rightarrow> go_time \<Rightarrow> go_time \<Rightarrow> StatBackend \<Rightarrow> StatBackend" where
  "PIDUpdate e since now backend =
     (let p = SB_PID backend;
          delta_T = Seconds (time_Sub since (ErrorTime p));
          integral_new = fadd (fmul e delta_T) (IntegralError p);
          diff = fdiv (fsub e (PID_Error p)) delta_T;
          u = fadd (fadd (fmul e PIDKe) (fmul integral_new PIDKi)) (fmul diff PIDKd);
          u = (if fle u (Fin 0) then fadd (fdiv (Pain p) (Fin 2)) (Fin 1) else u)
      in backend\<lparr>SB_PID := \<lparr>PID_Error = e, IntegralError = integral_new, ErrorTime = now, Pain = u\<rparr>\<rparr>)"

subsection \<open>Identifiers of a backend\<close>

text \<open>\<^verbatim>\<open>bytes.Compare\<close>.\<close>

definition bytes_Compare :: "bytes \<Rightarrow> bytes \<Rightarrow> int" where
  "bytes_Compare a b = (if a = b then 0 else if a < b then - 1 else 1)"

text \<open>A backend implements \<^verbatim>\<open>sort.Interface\<close> by its identifiers.\<close>

definition StatBackend_Len :: "StatBackend \<Rightarrow> nat" where
  "StatBackend_Len sb = length (SB_ID sb)"

definition StatBackend_Swap :: "nat \<Rightarrow> nat \<Rightarrow> StatBackend \<Rightarrow> StatBackend outcome" where
  "StatBackend_Swap i j sb =
     (if i < length (SB_ID sb) \<and> j < length (SB_ID sb)
      then Done (sb\<lparr>SB_ID := (SB_ID sb)[i := SB_ID sb ! j, j := SB_ID sb ! i]\<rparr>)
      else Panic IndexOutOfRange)"

definition StatBackend_Less :: "nat \<Rightarrow> nat \<Rightarrow> StatBackend \<Rightarrow> bool outcome" where
  "StatBackend_Less i j sb =
     (if i < length (SB_ID sb) \<and> j < length (SB_ID sb)
      then Done (bytes_Compare (RawID (SB_ID sb ! i)) (RawID (SB_ID sb ! j)) < 0)
      else Panic IndexOutOfRange)"

text \<open>The order of identifiers that \<open>sort\<close> refers to is the one of \<^verbatim>\<open>Less\<close>.\<close>

instantiation DnetRawID :: linorder
begin

definition less_eq_DnetRawID :: "DnetRawID \<Rightarrow> DnetRawID \<Rightarrow> bool" where
  "less_eq_DnetRawID a b \<longleftrightarrow> bytes_Compare (RawID a) (RawID b) \<le> 0"

definition less_DnetRawID :: "DnetRawID \<Rightarrow> DnetRawID \<Rightarrow> bool" where
  "less_DnetRawID a b \<longleftrightarrow> bytes_Compare (RawID a) (RawID b) < 0"

instance
  by standard
    (auto simp: less_eq_DnetRawID_def less_DnetRawID_def bytes_Compare_def split: if_splits
      intro: DnetRawID.expand)

end

interpretation backend_sort: sort_interface StatBackend_Len StatBackend_Less StatBackend_Swap
    SB_ID "\<lambda>xs sb. sb\<lparr>SB_ID := xs\<rparr>"
  by unfold_locales
    (simp_all add: StatBackend_Len_def StatBackend_Less_def StatBackend_Swap_def less_DnetRawID_def)

text \<open>\<^verbatim>\<open>hex.EncodeToString\<close>.\<close>

definition hex_digit :: "nat \<Rightarrow> char" where
  "hex_digit d = char_of (if d < 10 then 48 + d else 87 + d)"

definition hex_string :: "bytes \<Rightarrow> string" where
  "hex_string bs = concat (map (\<lambda>b. [hex_digit (unat b div 16), hex_digit (unat b mod 16)]) bs)"

text \<open>\<^verbatim>\<open>strings.Join(tmp, " ")\<close> of the first twelve digits of each identifier.\<close>

fun join_space :: "string list \<Rightarrow> string" where
  "join_space [] = ''''"
| "join_space [s] = s"
| "join_space (s # ss) = s @ '' '' @ join_space ss"

definition IDString :: "StatBackend \<Rightarrow> string outcome" where
  "IDString sb =
     mapO join_space
       (mapM (\<lambda>i. if length (hex_string (RawID i)) < 12 then Panic IndexOutOfRange
                  else Done (take 12 (hex_string (RawID i)))) (SB_ID sb))"

subsection \<open>Groups\<close>

record StatGroup =
  Ab :: "(AddressBackend \<times> StatBackend) list"

definition NewStatGroup :: StatGroup where
  "NewStatGroup = \<lparr>Ab = []\<rparr>"

definition FindStatBackend :: "ell_lib \<Rightarrow> DnetAddr \<Rightarrow> i32 \<Rightarrow> StatGroup \<Rightarrow> (error + StatBackend) outcome" where
  "FindStatBackend L addr backend_id sg =
     mapO (\<lambda>ab. case map_of (Ab sg) ab of
         None \<Rightarrow> Inl (EDnet \<lparr>Code = - 2, Flags = 0,
             Message = ''could not find statistics for addr: '' @ DnetAddr_String L addr @
               '', backend: '' @ dec_i32 backend_id\<rparr>)
       | Some st \<Rightarrow> Inr st)
       (NewAddressBackend L addr backend_id)"

record StatBackendData =
  SBD_Address :: string
  SBD_Backend :: i32
  SBD_Stat :: StatBackend

record StatGroupData =
  SGD_Backends :: "StatBackendData list"
  SGD_RecordsTotal :: u64
  SGD_RecordsRemoved :: u64
  SGD_RecordsCorrupted :: u64

fun group_data :: "ell_lib \<Rightarrow> (AddressBackend \<times> StatBackend) list \<Rightarrow> StatGroupData \<Rightarrow> StatGroupData outcome" where
  "group_data L [] reply = Done reply"
| "group_data L ((ab, backend) # rest) reply =
     bindO (RawAddr_String L (AB_Addr ab)) (\<lambda>a.
       group_data L rest (reply\<lparr>
         SGD_Backends := SGD_Backends reply @
           [\<lparr>SBD_Address = a, SBD_Backend = AB_Backend ab, SBD_Stat = backend\<rparr>],
         SGD_RecordsTotal := SGD_RecordsTotal reply + VFS_RecordsTotal (SB_VFS backend),
         SGD_RecordsRemoved := SGD_RecordsRemoved reply + VFS_RecordsRemoved (SB_VFS backend),
         SGD_RecordsCorrupted := SGD_RecordsCorrupted reply + VFS_RecordsCorrupted (SB_VFS backend)\<rparr>))"

definition StatGroup_StatGroupData :: "ell_lib \<Rightarrow> StatGroup \<Rightarrow> StatGroupData outcome" where
  "StatGroup_StatGroupData L sg =
     group_data L (Ab sg)
       \<lparr>SGD_Backends = [], SGD_RecordsTotal = 0, SGD_RecordsRemoved = 0, SGD_RecordsCorrupted = 0\<rparr>"

subsection \<open>Shares of the identifier ring\<close>

text \<open>\<^verbatim>\<open>slice_uint64\<close>, the values of the ring, implements \<^verbatim>\<open>sort.Interface\<close> too.\<close>

definition slice_uint64_Len :: "u64 list \<Rightarrow> nat" where
  "slice_uint64_Len ids = length ids"

definition slice_uint64_Swap :: "nat \<Rightarrow> nat \<Rightarrow> u64 list \<Rightarrow> u64 list outcome" where
  "slice_uint64_Swap i j ids =
     (if i < length ids \<and> j < length ids then Done (ids[i := ids ! j, j := ids ! i])
      else Panic IndexOutOfRange)"

definition slice_uint64_Less :: "nat \<Rightarrow> nat \<Rightarrow> u64 list \<Rightarrow> bool outcome" where
  "slice_uint64_Less i j ids =
     (if i < length ids \<and> j < length ids then Done (ids ! i < ids ! j) else Panic IndexOutOfRange)"

interpretation slice_sort: sort_interface slice_uint64_Len slice_uint64_Less slice_uint64_Swap
    "\<lambda>ids. ids" "\<lambda>xs _. xs"
  by unfold_locales (simp_all add: slice_uint64_Len_def slice_uint64_Less_def slice_uint64_Swap_def)

text \<open>The first eight bytes, most significant first.\<close>

definition id_val :: "bytes \<Rightarrow> u64 outcome" where
  "id_val i =
     (if length i < 8 then Panic IndexOutOfRange
      else Done (push_bit (7*8) (ucast (i ! 0)) OR push_bit (6*8) (ucast (i ! 1)) OR
                 push_bit (5*8) (ucast (i ! 2)) OR push_bit (4*8) (ucast (i ! 3)) OR
                 push_bit (3*8) (ucast (i ! 4)) OR push_bit (2*8) (ucast (i ! 5)) OR
                 push_bit (1*8) (ucast (i ! 6)) OR push_bit (0*8) (ucast (i ! 7))))"

text \<open>The owners found so far (by the key of the backend) and their values, in order.\<close>

type_synonym ring = "(u64 \<rightharpoonup> AddressBackend) \<times> u64 list"

fun add_ids :: "AddressBackend \<Rightarrow> DnetRawID list \<Rightarrow> ring \<Rightarrow> ring outcome" where
  "add_ids backend [] r = Done r"
| "add_ids backend (i # is) (ids2backend, ids) =
     bindO (id_val (RawID i)) (\<lambda>val.
       add_ids backend is
         (if ids2backend val = None then (ids2backend(val \<mapsto> backend), ids @ [val])
          else (ids2backend, ids)))"

fun collect_ids :: "(AddressBackend \<times> StatBackend) list \<Rightarrow> ring \<Rightarrow> ring outcome" where
  "collect_ids [] r = Done r"
| "collect_ids ((ab, backend) # rest) r = bindO (add_ids ab (SB_ID backend) r) (collect_ids rest)"

definition add_sum :: "(u64 \<rightharpoonup> AddressBackend) \<Rightarrow> u64 \<Rightarrow> u64 \<Rightarrow> StatGroup \<Rightarrow> StatGroup outcome" where
  "add_sum ids2backend v diff rg =
     (case ids2backend v of None \<Rightarrow> Panic NilPointer
      | Some ab \<Rightarrow> Done (rg\<lparr>Ab := AList.map_entry ab (\<lambda>b. b\<lparr>sb_sum := sb_sum b + diff\<rparr>) (Ab rg)\<rparr>))"

definition ring_step :: "ring \<Rightarrow> nat \<Rightarrow> StatGroup \<Rightarrow> StatGroup outcome" where
  "ring_step r i rg =
     (let (ids2backend, ids) = r;
          (prev_idx, prev_val) = (if i = 0 then (length ids - 1, 0) else (i - 1, ids ! (i - 1)));
          diff = ids ! i - prev_val
      in add_sum ids2backend (ids ! prev_idx) diff rg)"

definition ring_last :: "ring \<Rightarrow> StatGroup \<Rightarrow> StatGroup outcome" where
  "ring_last r rg =
     (let (ids2backend, ids) = r
      in if length ids > 0
         then let last_id = ids ! (length ids - 1) in add_sum ids2backend last_id (- 1 - last_id) rg
         else Done rg)"

definition StatGroup_Finalize :: "StatGroup \<Rightarrow> StatGroup outcome" where
  "StatGroup_Finalize rg =
     (let rg = rg\<lparr>Ab := map (\<lambda>(ab, b). (ab, b\<lparr>SB_ID := sort (SB_ID b)\<rparr>)) (Ab rg)\<rparr>
      in bindO (collect_ids (Ab rg) (Map.empty, [])) (\<lambda>(ids2backend, ids).
           let ids = sort ids; r = (ids2backend, ids)
           in bindO (steps (map (ring_step r) [0 ..< length ids]) rg) (\<lambda>rg.
                mapO (\<lambda>rg. rg\<lparr>Ab := map (\<lambda>(ab, b).
                    (ab, b\<lparr>Percentage := fdiv (f_of_u64 (sb_sum b)) (f_of_u64 (- 1 :: u64))\<rparr>)) (Ab rg)\<rparr>)
                  (ring_last r rg))))"

subsection \<open>Statistics of a cluster\<close>

record DnetStat =
  DS_Time :: go_time
  Group :: "(u32 \<times> StatGroup) list"

definition DnetStat_new :: DnetStat where
  "DnetStat_new = \<lparr>DS_Time = go_time_zero, Group = []\<rparr>"

record StatEntry =
  se_cmd :: DnetCmd
  se_addr :: DnetAddr
  se_stat :: bytes
  se_err :: "error option"

definition StatEntry_Group :: "StatEntry \<Rightarrow> u32" where
  "StatEntry_Group entry = ID_Group (Cmd_ID (se_cmd entry))"

definition StatEntry_AddressBackend :: "ell_lib \<Rightarrow> StatEntry \<Rightarrow> AddressBackend outcome" where
  "StatEntry_AddressBackend L entry = NewAddressBackend L (se_addr entry) (Cmd_Backend (se_cmd entry))"

text \<open>
  \<^verbatim>\<open>FindBackend\<close> returns a pointer into the statistics: here the key of the backend, with
  the statistics in which its entry exists. \<open>update_backend\<close> writes through that pointer.
\<close>

definition FindBackend :: "ell_lib \<Rightarrow> go_time \<Rightarrow> u32 \<Rightarrow> DnetAddr \<Rightarrow> i32 \<Rightarrow> DnetStat \<Rightarrow>
    (AddressBackend \<times> DnetStat) outcome" where
  "FindBackend L now grp addr backend_id stat =
     (let (sg, stat) = (case map_of (Group stat) grp of
            Some sg \<Rightarrow> (sg, stat)
          | None \<Rightarrow> (NewStatGroup, stat\<lparr>Group := AList.update grp NewStatGroup (Group stat)\<rparr>))
      in bindO (NewAddressBackend L addr backend_id) (\<lambda>ab.
           case map_of (Ab sg) ab of
             Some backend \<Rightarrow> Done (ab, stat)
           | None \<Rightarrow> Done (ab, stat\<lparr>Group :=
               AList.update grp (sg\<lparr>Ab := AList.update ab (NewStatBackend now) (Ab sg)\<rparr>) (Group stat)\<rparr>)))"

definition update_backend ::
    "u32 \<Rightarrow> AddressBackend \<Rightarrow> (StatBackend \<Rightarrow> StatBackend) \<Rightarrow> DnetStat \<Rightarrow> DnetStat" where
  "update_backend grp ab f stat =
     stat\<lparr>Group := AList.map_entry grp (\<lambda>sg. sg\<lparr>Ab := AList.map_entry ab f (Ab sg)\<rparr>) (Group stat)\<rparr>"

definition backend_of :: "u32 \<Rightarrow> AddressBackend \<Rightarrow> DnetStat \<Rightarrow> StatBackend option" where
  "backend_of grp ab stat = (case map_of (Group stat) grp of None \<Rightarrow> None | Some sg \<Rightarrow> map_of (Ab sg) ab)"

text \<open>What \<^verbatim>\<open>AddStatEntry\<close> takes over from the decoded reply, when the backend has no error.\<close>

definition new_VFS :: "VNode \<Rightarrow> VFS" where
  "new_VFS vnode =
     (let b = VN_Backend vnode; total = FrSize (Be_VFS b) * Blocks (Be_VFS b)
      in \<lparr>VFS_Total = total, VFS_Avail = BFree (Be_VFS b) * BSize (Be_VFS b),
          VFS_TotalSizeLimit =
            (if BlobSizeLimit (Be_Config b) \<noteq> 0 \<and> BlobFlags (Be_Config b) AND push_bit 4 1 = 0
             then BlobSizeLimit (Be_Config b) else total),
          VFS_BackendRemovedSize = Bl_RecordsRemovedSize (Be_SummaryStats b),
          VFS_BackendUsedSize = BaseSize (Be_SummaryStats b),
          VFS_RecordsTotal = Bl_RecordsTotal (Be_SummaryStats b),
          VFS_RecordsRemoved = Bl_RecordsRemoved (Be_SummaryStats b),
          VFS_RecordsCorrupted = Bl_RecordsCorrupted (Be_SummaryStats b)\<rparr>)"

definition new_CStat :: "Command \<Rightarrow> CStat" where
  "new_CStat c =
     \<lparr>RequestsSuccess = Command_RequestsSuccess c, RequestsFailures = Command_RequestsFailures c,
      Bytes = Command_Bytes c, RPSFailures = Fin 0, RPSSuccess = Fin 0, BPS = Fin 0\<rparr>"

definition take_vnode :: "VNode \<Rightarrow> StatBackend \<Rightarrow> StatBackend" where
  "take_vnode vnode backend =
     (let g = Be_GlobalStats (VN_Backend vnode); d = Be_DStat (VN_Backend vnode)
      in backend\<lparr>SB_VFS := new_VFS vnode,
          DefragStartTime := time_Unix (sint (DataSortStartTime g)) 0,
          DefragCompletionTime := time_Unix (sint (DataSortCompletionTime g)) 0,
          DefragCompletionStatus := DataSortCompletionStatus g,
          DefragState := St_DefragState (VN_Status vnode),
          DefragStateStr := defrag_state (St_DefragState (VN_Status vnode)),
          RO := St_RO (VN_Status vnode),
          Delay := St_Delay (VN_Status vnode),
          SB_DStat := (SB_DStat backend)\<lparr>RSectors := ReadSectors d, WSectors := WriteSectors d,
            IOTicks := Raw_IOTicks d\<rparr>,
          SB_Commands := fold (\<lambda>(cname, cstat). AList.update cname (new_CStat cstat))
            (VN_Commands vnode) (SB_Commands backend)\<rparr>)"

definition add_vnode :: "ell_lib \<Rightarrow> go_time \<Rightarrow> DnetAddr \<Rightarrow> VNode \<Rightarrow> DnetStat \<Rightarrow> DnetStat outcome" where
  "add_vnode L now addr vnode stat =
     (if State (VN_Status vnode) = BackendStateEnabled
      then let grp = Cf_Group (Be_Config (VN_Backend vnode)); err = Be_Error (VN_Backend vnode)
           in mapO (\<lambda>(ab, stat). update_backend grp ab (\<lambda>backend.
                  let backend = backend\<lparr>SB_Error := err\<rparr>
                  in if BE_Code err \<noteq> 0 then backend else take_vnode vnode backend) stat)
                (FindBackend L now grp addr (ucast (BackendID vnode)) stat)
      else Done stat)"

text \<open>
  The decoder gives the response, possibly filled only in part, and its error, which is only
  logged. The deferred \<^verbatim>\<open>recover\<close> has nothing to catch: the only failure is \<^verbatim>\<open>log.Fatalf\<close>.
\<close>

type_synonym json_decoder = "bytes \<Rightarrow> Response \<times> error option"

definition AddStatEntry ::
    "ell_lib \<Rightarrow> json_decoder \<Rightarrow> go_time \<Rightarrow> StatEntry \<Rightarrow> DnetStat \<Rightarrow> DnetStat outcome" where
  "AddStatEntry L unmarshal now entry stat =
     (let (r, err) = unmarshal (se_stat entry);
          stat = stat\<lparr>DS_Time := time_Unix (sint (Sec (Timestamp r))) (sint (USec (Timestamp r) * 1000))\<rparr>
      in if MonitorStatus r \<noteq> ''enabled'' then Done stat
         else steps (map (\<lambda>(_, vnode). add_vnode L now (se_addr entry) vnode) (Backends r)) stat)"

fun finalize_groups :: "(u32 \<times> StatGroup) list \<Rightarrow> (u32 \<times> StatGroup) list outcome" where
  "finalize_groups [] = Done []"
| "finalize_groups ((g, sg) # rest) =
     bindO (StatGroup_Finalize sg) (\<lambda>sg. mapO (Cons (g, sg)) (finalize_groups rest))"

definition DnetStat_Finalize :: "DnetStat \<Rightarrow> DnetStat outcome" where
  "DnetStat_Finalize stat = mapO (\<lambda>gs. stat\<lparr>Group := gs\<rparr>) (finalize_groups (Group stat))"

fun stat_data :: "ell_lib \<Rightarrow> (u32 \<times> StatGroup) list \<Rightarrow> (string \<times> StatGroupData) list \<Rightarrow>
    (string \<times> StatGroupData) list outcome" where
  "stat_data L [] reply = Done reply"
| "stat_data L ((grp, sg) # rest) reply =
     bindO (StatGroup_StatGroupData L sg) (\<lambda>d. stat_data L rest (AList.update (dec_u64 grp) d reply))"

definition StatData :: "ell_lib \<Rightarrow> DnetStat \<Rightarrow> (string \<times> StatGroupData) list outcome" where
  "StatData L stat = stat_data L (Group stat) []"

subsection \<open>Differences\<close>

definition diff_CStat :: "float64 \<Rightarrow> CStat \<Rightarrow> CStat \<Rightarrow> CStat" where
  "diff_CStat duration p c =
     c\<lparr>RPSSuccess := fdiv (f_of_u64 (RequestsSuccess c - RequestsSuccess p)) duration,
       RPSFailures := fdiv (f_of_u64 (RequestsFailures c - RequestsFailures p)) duration,
       BPS := fdiv (f_of_u64 (Bytes c - Bytes p)) duration\<rparr>"

definition diff_DStat :: "float64 \<Rightarrow> DStat \<Rightarrow> DStat \<Rightarrow> DStat" where
  "diff_DStat duration p d =
     d\<lparr>WBS := fdiv (f_of_u64 ((WSectors d - WSectors p) * StatSectorSize)) duration,
       RBS := fdiv (f_of_u64 ((RSectors d - RSectors p) * StatSectorSize)) duration,
       Util := fdiv (fdiv (f_of_u64 (IOTicks d - IOTicks p)) (Fin 1000)) duration\<rparr>"

definition diff_backend :: "float64 \<Rightarrow> StatBackend \<Rightarrow> StatBackend \<Rightarrow> StatBackend" where
  "diff_backend duration psb sb =
     sb\<lparr>SB_PID := SB_PID psb, SB_DStat := diff_DStat duration (SB_DStat psb) (SB_DStat sb),
        SB_Commands := map (\<lambda>(cmd, cstat). (cmd,
          case map_of (SB_Commands psb) cmd of None \<Rightarrow> cstat | Some pcstat \<Rightarrow> diff_CStat duration pcstat cstat))
          (SB_Commands sb)\<rparr>"

definition diff_group :: "float64 \<Rightarrow> StatGroup \<Rightarrow> StatGroup \<Rightarrow> StatGroup" where
  "diff_group duration psg sg =
     sg\<lparr>Ab := map (\<lambda>(ab, sb). (ab,
       case map_of (Ab psg) ab of None \<Rightarrow> sb | Some psb \<Rightarrow> diff_backend duration psb sb)) (Ab sg)\<rparr>"

text \<open>The argument of \<^verbatim>\<open>Diff\<close>: \<open>nil\<close>, the receiver itself, or other statistics.\<close>

datatype 's diff_arg = PrevNil | PrevSelf | Prev 's

text \<open>The last loop of \<^verbatim>\<open>Diff\<close>; what the map holds of a group does not matter to it.\<close>

definition keep_old_groups :: "(u32 \<times> 'g) list \<Rightarrow> (u32 \<times> 'g) list \<Rightarrow> (u32 \<times> 'g) list" where
  "keep_old_groups old new =
     fold (\<lambda>(grp, prev_sg) gs. case map_of gs grp of
         None \<Rightarrow> AList.update grp prev_sg gs | Some _ \<Rightarrow> gs) old new"

fun Diff :: "DnetStat diff_arg \<Rightarrow> DnetStat \<Rightarrow> DnetStat" where
  "Diff PrevNil stat = stat"
| "Diff PrevSelf stat = stat"
| "Diff (Prev prev) stat =
     (let duration = Seconds (time_Sub (DS_Time stat) (DS_Time prev));
          gs = map (\<lambda>(grp, sg). (grp,
            case map_of (Group prev) grp of None \<Rightarrow> sg | Some psg \<Rightarrow> diff_group duration psg sg)) (Group stat)
      in stat\<lparr>Group := keep_old_groups (Group prev) gs\<rparr>)"

subsection \<open>Route entries: \<^verbatim>\<open>route.go\<close>\<close>

record c_route_entry =
  cre_id :: bytes
  cre_addr :: c_dnet_addr
  cre_group :: u32
  cre_backend :: u32

record RouteEntry =
  re_id :: bytes
  re_addr :: DnetAddr
  re_group :: u32
  re_backend :: i32

definition RouteEntry_ID :: "RouteEntry \<Rightarrow> bytes" where
  "RouteEntry_ID entry = re_id entry"

definition RouteEntry_String :: "ell_lib \<Rightarrow> RouteEntry \<Rightarrow> string" where
  "RouteEntry_String L r =
     ''route entry: '' @ hex_string (re_id r) @ '': group: '' @ dec_u64 (re_group r) @ '', addr: '' @
     DnetAddr_String L (re_addr r) @ '': backend: '' @ dec_i32 (re_backend r)"

definition NewRouteEntry :: "ell_lib \<Rightarrow> c_route_entry \<Rightarrow> RouteEntry outcome" where
  "NewRouteEntry L entry =
     mapO (\<lambda>addr. \<lparr>re_id = GoBytes_array (DNET_ID_SIZE L) (cre_id entry), re_addr = addr,
         re_group = cre_group entry, re_backend = cre_backend entry\<rparr>) (NewDnetAddr (cre_addr entry))"

definition AddRouteEntry :: "ell_lib \<Rightarrow> go_time \<Rightarrow> RouteEntry \<Rightarrow> DnetStat \<Rightarrow> DnetStat outcome" where
  "AddRouteEntry L now entry stat =
     mapO (\<lambda>(ab, stat). update_backend (re_group entry) ab
         (\<lambda>backend. backend\<lparr>SB_ID := SB_ID backend @ [DnetRawID (RouteEntry_ID entry)]\<rparr>) stat)
       (FindBackend L now (re_group entry) (re_addr entry) (re_backend entry) stat)"

end
