(* ===== verification/World.thy ===== *)
theory World
  imports Pool Channels Keys Stat
begin

text \<open>
  The state the binding works on. Go closures that the source stores in the pool are
  represented by the variables they capture: one constructor per closure of the source,
  grouped by the Go type the closure has, because the callbacks assert that type. The
  world holds the pool and its counter, the channels, the C++ objects the binding
  allocates (keys, key arrays, sessions), the variables that chunked writes share between
  their callbacks, the statistics being built, and the requests handed to the elliptics client and not finished yet.
\<close>

section \<open>Definitions\<close>

subsection \<open>Results\<close>

record readResult =
  rr_cmd :: DnetCmd
  rr_addr :: DnetAddr
  rr_ioattr :: DnetIOAttr
  rr_data :: bytes
  rr_err :: "error option"
  rr_key :: string

record lookupResult =
  lr_cmd :: DnetCmd
  lr_addr :: DnetAddr
  lr_info :: DnetFileInfo
  lr_storage_addr :: DnetAddr
  lr_path :: string
  lr_err :: "error option"
  lr_key :: string

record removeResult =
  rm_cmd :: DnetCmd
  rm_key :: string
  rm_err :: "error option"

record IndexEntry =
  ie_Data :: string
  ie_err :: "error option"

record findResult =
  fr_id :: bytes
  fr_data :: "IndexEntry list"
  fr_err :: "error option"

record indexResult =
  ir_err :: "error option"

record DnetBackendStatus =
  bs_Backend :: i32
  bs_State :: i32
  bs_DefragState :: i32
  bs_LastStart :: go_time
  bs_LastStartErr :: i32
  bs_RO :: bool
  bs_Delay :: u32

record DnetBackendsStatus =
  bss_Backends :: "DnetBackendStatus list"
  bss_Error :: "error option"

text \<open>\<^verbatim>\<open>&readResult{err: err}\<close> and its siblings: all other fields are zero.\<close>

definition readResult_err :: "error \<Rightarrow> readResult" where
  "readResult_err e =
     \<lparr>rr_cmd = DnetCmd_zero, rr_addr = DnetAddr_zero, rr_ioattr = DnetIOAttr_zero, rr_data = [],
      rr_err = Some e, rr_key = []\<rparr>"

definition lookupResult_err :: "error \<Rightarrow> lookupResult" where
  "lookupResult_err e =
     \<lparr>lr_cmd = DnetCmd_zero, lr_addr = DnetAddr_zero, lr_info = DnetFileInfo_zero,
      lr_storage_addr = DnetAddr_zero, lr_path = [], lr_err = Some e, lr_key = []\<rparr>"

definition removeResult_err :: "string \<Rightarrow> error \<Rightarrow> removeResult" where
  "removeResult_err key e = \<lparr>rm_cmd = DnetCmd_zero, rm_key = key, rm_err = Some e\<rparr>"

definition findResult_err :: "error \<Rightarrow> findResult" where
  "findResult_err e = \<lparr>fr_id = [], fr_data = [], fr_err = Some e\<rparr>"

definition StatEntry_err :: "error \<Rightarrow> StatEntry" where
  "StatEntry_err e = \<lparr>se_cmd = DnetCmd_zero, se_addr = DnetAddr_zero, se_stat = [], se_err = Some e\<rparr>"

definition IndexEntry_err :: "error \<Rightarrow> IndexEntry" where
  "IndexEntry_err e = \<lparr>ie_Data = [], ie_err = Some e\<rparr>"

text \<open>What travels through the channels the operations return.\<close>

datatype elem =
    ReadE readResult
  | LookupE lookupResult
  | RemoveE removeResult
  | FindE findResult
  | IndexE indexResult
  | EntryE IndexEntry
  | BackendsE DnetBackendsStatus
  | StatE StatEntry

subsection \<open>Closures and pool values\<close>

type_synonym ptr = nat

text \<open>\<^verbatim>\<open>func(*readResult)\<close>.\<close>

datatype read_fn =
    ReadKeyRes ptr            \<comment> \<open>response channel\<close>
  | BulkReadRes ptr ptr       \<comment> \<open>response channel, key array\<close>

text \<open>\<^verbatim>\<open>func(*lookupResult)\<close>.\<close>

datatype lookup_fn =
    WriteChunkRes ptr         \<comment> \<open>shared variables of the chunked write\<close>
  | LookupRes ptr
  | ParallelLookupRes ptr
  | BulkWriteRes ptr ptr

text \<open>
  The defined types \<^verbatim>\<open>onLookupCallback\<close> and \<^verbatim>\<open>onResultCallback\<close>: what \<^verbatim>\<open>write\<close> and \<^verbatim>\<open>cache\<close>
  take, either from the channel-based wrappers or from the user.
\<close>

datatype onLookupCallback =
    WriteKeyLookup ptr
  | WriteCacheLookup ptr
  | EmptyLookup               \<comment> \<open>put in for a nil argument\<close>
  | UserLookup nat

datatype onResultCallback =
    WriteKeyFinish ptr
  | WriteCacheFinish ptr
  | UserResult nat

text \<open>\<^verbatim>\<open>func(*removeResult)\<close>.\<close>

datatype remove_fn =
    RemoveKeyRes ptr
  | BulkRemoveRes ptr ptr

text \<open>\<^verbatim>\<open>func(error)\<close>: channel (and key array), then the contexts to delete.\<close>

datatype final_fn =
    ReadKeyFin ptr u64 u64
  | BulkReadFin ptr ptr u64 u64
  | WriteFin "onResultCallback option" u64 u64 u64
  | CacheFin "onResultCallback option" u64 u64 u64
  | WriteChunkFin ptr
  | LookupFin ptr u64 u64
  | ParallelLookupFin ptr u64 u64
  | RemoveKeyFin ptr u64 u64
  | BulkWriteFin ptr ptr u64 u64
  | BulkRemoveFin ptr u64 u64
  | FindIndexesFin ptr u64 u64
  | SetIndexesFin ptr u64 u64
  | ListIndexesFin ptr u64 u64
  | RemoveIndexesFin ptr u64 u64
  | StatFin ptr u64 u64

text \<open>The \<^verbatim>\<open>interface{}\<close> values in the pool; the constructor is the dynamic type.\<close>

datatype goval =
    FnRead read_fn                \<comment> \<open>\<^verbatim>\<open>func(*readResult)\<close>\<close>
  | FnLookup lookup_fn            \<comment> \<open>\<^verbatim>\<open>func(*lookupResult)\<close>\<close>
  | NamedLookup onLookupCallback  \<comment> \<open>\<^verbatim>\<open>onLookupCallback\<close>, a type of its own\<close>
  | FnRemove remove_fn            \<comment> \<open>\<^verbatim>\<open>func(*removeResult)\<close>\<close>
  | FnFind ptr                    \<comment> \<open>\<^verbatim>\<open>func(*findResult)\<close>\<close>
  | FnEntry ptr                   \<comment> \<open>\<^verbatim>\<open>func(*IndexEntry)\<close>\<close>
  | FnStat ptr                    \<comment> \<open>\<^verbatim>\<open>func(*StatEntry)\<close>\<close>
  | FnNullary                     \<comment> \<open>\<^verbatim>\<open>func()\<close>\<close>
  | FnFinal final_fn              \<comment> \<open>\<^verbatim>\<open>func(error)\<close>\<close>
  | FnBackends ptr u64            \<comment> \<open>\<^verbatim>\<open>func(*DnetBackendsStatus)\<close>\<close>
  | StatObj ptr                   \<comment> \<open>\<^verbatim>\<open>*DnetStat\<close>, while the routes are read\<close>
  | Chunk bytes                   \<comment> \<open>\<^verbatim>\<open>[]byte\<close>: the data of a write\<close>
  | ChunkBuf ptr                  \<comment> \<open>\<^verbatim>\<open>[]byte\<close>: the buffer a chunked write reads into\<close>

subsection \<open>The C++ side\<close>

text \<open>A key object: default, or made from a (NUL-terminated) name.\<close>

datatype ell_key = KeyDefault | KeyRemote string

text \<open>
  What a session object was asked to do; its getters are functions of this history, given
  by the library.
\<close>

datatype sess_call =
    Set_groups "u32 list"
  | Set_namespace string
  | Set_timeout i32
  | Set_cflags u64
  | Set_ioflags u32
  | Set_trace_id u64
  | Set_filter_all
  | Set_filter_positive
  | Set_filter_all_with_ack

text \<open>
  The fields of \<^verbatim>\<open>dnet_io_attr\<close> that \<^verbatim>\<open>session_bulk_write\<close> sets (the others have no value); \<open>None\<close> for
  an identifier that is not set either.
\<close>

record bulk_io_attr =
  bio_start :: u64
  bio_num :: u64
  bio_user_flags :: u64
  bio_flags :: u32
  bio_offset :: u64
  bio_size :: u64
  bio_id :: "bytes option"

text \<open>The functions of \<^verbatim>\<open>session.h\<close> that start a request, with the values handed over.\<close>

datatype c_fn =
    C_read_data ell_key u64 u64
  | C_bulk_read "string list"
  | C_write_data ell_key u64 bytes
  | C_write_cache ell_key bytes i64
  | C_write_prepare ell_key u64 u64 bytes   \<comment> \<open>offset, total size\<close>
  | C_write_plain ell_key u64 bytes         \<comment> \<open>offset\<close>
  | C_write_commit ell_key u64 u64 bytes    \<comment> \<open>offset, commit size\<close>
  | C_lookup ell_key
  | C_parallel_lookup ell_key
  | C_remove ell_key
  | C_bulk_write "bulk_io_attr list" "bytes list"
  | C_bulk_remove "string list"
  | C_find_all_indexes "string list"
  | C_find_any_indexes "string list"
  | C_set_indexes ell_key "(string \<times> string) list"
  | C_update_indexes ell_key "(string \<times> string) list"
  | C_list_indexes ell_key
  | C_remove_indexes ell_key "string list"
  | C_get_stats u64                         \<comment> \<open>categories\<close>
  | C_backends_status c_dnet_addr
  | C_backend_start_defrag c_dnet_addr u32
  | C_backend_enable c_dnet_addr u32
  | C_backend_disable c_dnet_addr u32
  | C_backend_make_writable c_dnet_addr u32
  | C_backend_make_readonly c_dnet_addr u32
  | C_backend_set_delay c_dnet_addr u32 u32

text \<open>A request in flight; the backend requests use one context for both answers.\<close>

record ccall =
  call_session :: ptr
  call_fn :: c_fn
  call_result :: u64
  call_final :: u64

subsection \<open>Readers and chunked writes\<close>

text \<open>
  An \<^verbatim>\<open>io.Reader\<close> is the list of what its successive \<^verbatim>\<open>Read\<close> calls return: the bytes put
  into the buffer and the error. When the list is exhausted it is at the end of the input.
\<close>

type_synonym reader = "(bytes \<times> error option) list"

fun Read :: "reader \<Rightarrow> (bytes \<times> error option) \<times> reader" where
  "Read [] = (([], Some EEOF), [])"
| "Read (r # rs) = (r, rs)"

text \<open>\<^verbatim>\<open>ioutil.ReadAll\<close>: everything up to the first error; \<^verbatim>\<open>io.EOF\<close> is not an error here.\<close>

fun ReadAll :: "reader \<Rightarrow> bytes \<times> error option" where
  "ReadAll [] = ([], None)"
| "ReadAll ((bs, None) # rs) = (let (rest, e) = ReadAll rs in (bs @ rest, e))"
| "ReadAll ((bs, Some e) # rs) = (bs, if e = EEOF then None else Some e)"

text \<open>The variables of one \<^verbatim>\<open>WriteChunk\<close> call that its two closures share.\<close>

record wchunk =
  wc_session :: ptr
  wc_key :: string
  wc_input :: reader
  wc_total :: u64       \<comment> \<open>\<^verbatim>\<open>total_size\<close>\<close>
  wc_offset :: u64      \<comment> \<open>\<^verbatim>\<open>offset\<close>\<close>
  wc_n64 :: u64
  wc_chan :: ptr
  wc_onChunk :: u64
  wc_onFinish :: u64
  wc_chunkctx :: u64

subsection \<open>The world\<close>

datatype user_event =
    LookupEvent nat lookupResult
  | ResultEvent nat "error option"

record world = "goval pool_state" +
  chans :: "ptr \<rightharpoonup> elem chan"
  ckeys :: "ptr \<rightharpoonup> ell_key"
  ckeyss :: "ptr \<rightharpoonup> ell_keys"
  sessions :: "ptr \<rightharpoonup> sess_call list"
  wchunks :: "ptr \<rightharpoonup> wchunk"
  next_ptr :: ptr
  inflight :: "ccall list"
  alloc_fails :: "bool list"   \<comment> \<open>which of the next C++ allocations fail; none after the end\<close>
  user_log :: "user_event list"
  stats :: "ptr \<rightharpoonup> DnetStat"

definition new_ptr :: "world \<Rightarrow> ptr \<times> world" where
  "new_ptr w = (next_ptr w, w\<lparr>next_ptr := Suc (next_ptr w)\<rparr>)"

definition c_alloc :: "world \<Rightarrow> bool \<times> world" where
  "c_alloc w = (case alloc_fails w of [] \<Rightarrow> (True, w) | b # bs \<Rightarrow> (\<not> b, w\<lparr>alloc_fails := bs\<rparr>))"

subsection \<open>Channel operations on the world\<close>

definition make_chan :: "nat \<Rightarrow> world \<Rightarrow> ptr \<times> world" where
  "make_chan n w = (let (p, w) = new_ptr w in (p, w\<lparr>chans := (chans w)(p \<mapsto> chan_make n)\<rparr>))"

definition on_chan :: "(elem chan \<Rightarrow> elem chan outcome) \<Rightarrow> ptr \<Rightarrow> world \<Rightarrow> world outcome" where
  "on_chan f ch w =
     (case chans w ch of None \<Rightarrow> Panic NilChannel
      | Some c \<Rightarrow> mapO (\<lambda>c'. w\<lparr>chans := (chans w)(ch \<mapsto> c')\<rparr>) (f c))"

definition send :: "ptr \<Rightarrow> elem \<Rightarrow> world \<Rightarrow> world outcome" where
  "send ch e = on_chan (chan_send e) ch"

definition close_chan :: "ptr \<Rightarrow> world \<Rightarrow> world outcome" where
  "close_chan = on_chan chan_close"

text \<open>The consumer takes one value; nothing happens when there is none.\<close>

definition receive :: "ptr \<Rightarrow> world \<Rightarrow> world" where
  "receive ch w =
     (case chans w ch of None \<Rightarrow> w
      | Some c \<Rightarrow> (case chan_recv c of Got v c' \<Rightarrow> w\<lparr>chans := (chans w)(ch \<mapsto> c')\<rparr> | _ \<Rightarrow> w))"

definition delete_ctx :: "u64 \<Rightarrow> world \<Rightarrow> world outcome" where
  "delete_ctx k w = Done (Delete k w)"

subsection \<open>Keys: \<^verbatim>\<open>key.go\<close>\<close>

text \<open>One argument of \<^verbatim>\<open>NewKey(args ...interface{})\<close>.\<close>

datatype go_arg = ArgString string | ArgOther

definition InvalidKeyArgument :: error where
  "InvalidKeyArgument = EText ''InvalidKeyArgument''"

definition new_ckey :: "ell_key \<Rightarrow> world \<Rightarrow> (error + ptr) \<times> world" where
  "new_ckey k w =
     (let (ok, w) = c_alloc w
      in if \<not> ok then (Inl (EText ''could not create new key''), w)
         else let (p, w) = new_ptr w in (Inr p, w\<lparr>ckeys := (ckeys w)(p \<mapsto> k)\<rparr>))"

definition NewKey :: "go_arg list \<Rightarrow> world \<Rightarrow> (error + ptr) \<times> world" where
  "NewKey args w =
     (if length args = 1
      then (case hd args of
              ArgString remote \<Rightarrow> new_ckey (KeyRemote (c_string remote)) w
            | ArgOther \<Rightarrow> (Inl InvalidKeyArgument, w))
      else new_ckey KeyDefault w)"

text \<open>\<^verbatim>\<open>delete\<close> of a key object that is gone is undefined.\<close>

definition Key_Free :: "ptr \<Rightarrow> world \<Rightarrow> world outcome" where
  "Key_Free k w =
     (if ckeys w k = None then Panic CUndefined else Done (w\<lparr>ckeys := (ckeys w)(k := None)\<rparr>))"

text \<open>\<^verbatim>\<open>defer ekey.Free()\<close> around a body that returns a value.\<close>

definition defer_Free :: "ptr \<Rightarrow> ('a \<times> world) outcome \<Rightarrow> ('a \<times> world) outcome" where
  "defer_Free ekey body = bindO body (\<lambda>(r, w). mapO (Pair r) (Key_Free ekey w))"

text \<open>The key object a C function is given.\<close>

definition deref_key :: "ptr \<Rightarrow> world \<Rightarrow> ell_key outcome" where
  "deref_key k w = (case ckeys w k of None \<Rightarrow> Panic CUndefined | Some key \<Rightarrow> Done key)"

fun insert_keys :: "string list \<Rightarrow> ell_keys \<Rightarrow> world \<Rightarrow> ell_keys \<times> world" where
  "insert_keys [] keys w = (keys, w)"
| "insert_keys (k # ks) keys w =
     (let (ok, w) = c_alloc w; (_, keys) = ell_keys_insert ok k keys in insert_keys ks keys w)"

text \<open>
  \<^verbatim>\<open>NewKeys\<close>: sorts the names (in the caller's slice, in place), then inserts them; the
  result of an insertion is ignored.
\<close>

definition NewKeys :: "string list \<Rightarrow> world \<Rightarrow> (error + ptr) \<times> world" where
  "NewKeys keys w =
     (let (ok, w) = c_alloc w
      in if \<not> ok then (Inl (EText ''could not create key array''), w)
         else
           let (p, w) = new_ptr w;
               (ckeys', w) = insert_keys (sort keys) ell_keys_empty w
           in (Inr p, w\<lparr>ckeyss := (ckeyss w)(p \<mapsto> ckeys')\<rparr>))"

definition Keys_Free :: "ptr \<Rightarrow> world \<Rightarrow> world outcome" where
  "Keys_Free k w =
     (if ckeyss w k = None then Panic CUndefined else Done (w\<lparr>ckeyss := (ckeyss w)(k := None)\<rparr>))"

definition find_in :: "ell_lib \<Rightarrow> ptr \<Rightarrow> bytes \<Rightarrow> world \<Rightarrow> (error + string) outcome" where
  "find_in L kp i w =
     (case ckeyss w kp of None \<Rightarrow> Panic CUndefined | Some keys \<Rightarrow> Keys_Find L keys i)"

subsection \<open>Handing a request to the client library\<close>

definition c_request :: "ptr \<Rightarrow> c_fn \<Rightarrow> u64 \<Rightarrow> u64 \<Rightarrow> world \<Rightarrow> world outcome" where
  "c_request s fn onResult onFinish w =
     (if sessions w s = None then Panic CUndefined
      else Done (w\<lparr>inflight := inflight w @
        [\<lparr>call_session = s, call_fn = fn, call_result = onResult, call_final = onFinish\<rparr>]\<rparr>))"

text \<open>The same for a function that takes a key object.\<close>

definition c_key_request ::
    "ptr \<Rightarrow> (ell_key \<Rightarrow> c_fn) \<Rightarrow> ptr \<Rightarrow> u64 \<Rightarrow> u64 \<Rightarrow> world \<Rightarrow> world outcome" where
  "c_key_request s fn key onResult onFinish w =
     bindO (deref_key key w) (\<lambda>k. c_request s (fn k) onResult onFinish w)"

text \<open>\<^verbatim>\<open>session_bulk_read\<close> and \<^verbatim>\<open>session_bulk_remove\<close> transform the array they are given.\<close>

definition transform_keys :: "ptr \<Rightarrow> world \<Rightarrow> world outcome" where
  "transform_keys kp w =
     (case ckeyss w kp of None \<Rightarrow> Panic CUndefined
      | Some keys \<Rightarrow> Done (w\<lparr>ckeyss := (ckeyss w)(kp \<mapsto> keys\<lparr>kk_transformed := True\<rparr>)\<rparr>))"

definition sess_do :: "ptr \<Rightarrow> sess_call \<Rightarrow> world \<Rightarrow> world outcome" where
  "sess_do s c w =
     (case sessions w s of None \<Rightarrow> Panic CUndefined
      | Some h \<Rightarrow> Done (w\<lparr>sessions := (sessions w)(s \<mapsto> h @ [c])\<rparr>))"

definition names_of :: "ptr \<Rightarrow> world \<Rightarrow> string list" where
  "names_of kp w = (case ckeyss w kp of None \<Rightarrow> [] | Some keys \<Rightarrow> kk keys)"

end
