(* ===== verification/Closures.thy ===== *)
theory Closures
  imports World
begin

text \<open>
  The bodies of the closures that \<^verbatim>\<open>session.go\<close> and \<^verbatim>\<open>backend.go\<close> store in the pool, one
  definition per closure, and their dispatch by Go type. A closure either runs to its end
  or, when it has to wait on its response channel, is taken to run once the consumer has
  made room (\<open>Block\<close>): what the source does before such a send touches only the request's
  own contexts and its own input, so no other request can tell the difference.
\<close>

section \<open>Definitions\<close>

subsection \<open>Reading\<close>

definition ReadKey_onResult :: "ptr \<Rightarrow> readResult \<Rightarrow> world \<Rightarrow> world outcome" where
  "ReadKey_onResult responseCh result = send responseCh (ReadE result)"

definition ReadKey_onFinish :: "ptr \<Rightarrow> u64 \<Rightarrow> u64 \<Rightarrow> error option \<Rightarrow> world \<Rightarrow> world outcome" where
  "ReadKey_onFinish responseCh onResultContext onFinishContext err =
     steps [case err of Some e \<Rightarrow> send responseCh (ReadE (readResult_err e)) | None \<Rightarrow> skip,
            close_chan responseCh,
            delete_ctx onResultContext,
            delete_ctx onFinishContext]"

definition BulkRead_onResult ::
    "ell_lib \<Rightarrow> ptr \<Rightarrow> ptr \<Rightarrow> readResult \<Rightarrow> world \<Rightarrow> world outcome" where
  "BulkRead_onResult L responseCh ekeys result w =
     bindO (find_in L ekeys (ID (Cmd_ID (rr_cmd result))) w)
       (\<lambda>r. case r of
          Inl err \<Rightarrow> Done w
        | Inr key \<Rightarrow> send responseCh (ReadE (result\<lparr>rr_key := key\<rparr>)) w)"

definition BulkRead_onFinish ::
    "ptr \<Rightarrow> ptr \<Rightarrow> u64 \<Rightarrow> u64 \<Rightarrow> error option \<Rightarrow> world \<Rightarrow> world outcome" where
  "BulkRead_onFinish responseCh ekeys onResultContext onFinishContext err =
     steps [case err of Some e \<Rightarrow> send responseCh (ReadE (readResult_err e)) | None \<Rightarrow> skip,
            close_chan responseCh,
            Keys_Free ekeys,
            delete_ctx onResultContext,
            delete_ctx onFinishContext]"

subsection \<open>Writing\<close>

definition call_onLookup :: "onLookupCallback \<Rightarrow> lookupResult \<Rightarrow> world \<Rightarrow> world outcome" where
  "call_onLookup f lookup w =
     (case f of
        WriteKeyLookup responseCh \<Rightarrow> send responseCh (LookupE lookup) w
      | WriteCacheLookup responseCh \<Rightarrow> send responseCh (LookupE lookup) w
      | EmptyLookup \<Rightarrow> Done w
      | UserLookup u \<Rightarrow> Done (w\<lparr>user_log := user_log w @ [LookupEvent u lookup]\<rparr>))"

definition WriteKey_onWriteFinish :: "ptr \<Rightarrow> error option \<Rightarrow> world \<Rightarrow> world outcome" where
  "WriteKey_onWriteFinish responseCh err =
     steps [case err of Some e \<Rightarrow> send responseCh (LookupE (lookupResult_err e)) | None \<Rightarrow> skip,
            close_chan responseCh]"

definition WriteCache_onWriteFinish :: "ptr \<Rightarrow> error option \<Rightarrow> world \<Rightarrow> world outcome" where
  "WriteCache_onWriteFinish responseCh err =
     steps [case err of Some e \<Rightarrow> send responseCh (LookupE (lookupResult_err e)) | None \<Rightarrow> skip,
            close_chan responseCh]"

definition call_onResult :: "onResultCallback \<Rightarrow> error option \<Rightarrow> world \<Rightarrow> world outcome" where
  "call_onResult f err w =
     (case f of
        WriteKeyFinish responseCh \<Rightarrow> WriteKey_onWriteFinish responseCh err w
      | WriteCacheFinish responseCh \<Rightarrow> WriteCache_onWriteFinish responseCh err w
      | UserResult u \<Rightarrow> Done (w\<lparr>user_log := user_log w @ [ResultEvent u err]\<rparr>))"

definition write_onWriteFinish ::
    "onResultCallback option \<Rightarrow> u64 \<Rightarrow> u64 \<Rightarrow> u64 \<Rightarrow> error option \<Rightarrow> world \<Rightarrow> world outcome" where
  "write_onWriteFinish onResult onWriteContext onWriteFinishContext chunk_context err =
     steps [delete_ctx onWriteContext,
            delete_ctx onWriteFinishContext,
            delete_ctx chunk_context,
            case onResult of Some f \<Rightarrow> call_onResult f err | None \<Rightarrow> skip]"

definition cache_onWriteFinish ::
    "onResultCallback option \<Rightarrow> u64 \<Rightarrow> u64 \<Rightarrow> u64 \<Rightarrow> error option \<Rightarrow> world \<Rightarrow> world outcome" where
  "cache_onWriteFinish onResult onWriteContext onWriteFinishContext chunk_context err =
     steps [delete_ctx onWriteContext,
            delete_ctx onWriteFinishContext,
            delete_ctx chunk_context,
            case onResult of Some f \<Rightarrow> call_onResult f err | None \<Rightarrow> skip]"

subsection \<open>Chunked writing\<close>

definition WriteChunk_onChunkResult :: "ptr \<Rightarrow> lookupResult \<Rightarrow> world \<Rightarrow> world outcome" where
  "WriteChunk_onChunkResult p lookup w =
     (case wchunks w p of None \<Rightarrow> Panic CUndefined
      | Some v \<Rightarrow> if wc_total v = 0 then send (wc_chan v) (LookupE lookup) w else Done w)"

text \<open>The end of a chunked write: close the channel and drop its three contexts.\<close>

definition wc_finish :: "wchunk \<Rightarrow> world \<Rightarrow> world outcome" where
  "wc_finish v =
     steps [close_chan (wc_chan v),
            delete_ctx (wc_onChunk v),
            delete_ctx (wc_onFinish v),
            delete_ctx (wc_chunkctx v)]"

definition wc_fail :: "wchunk \<Rightarrow> error \<Rightarrow> world \<Rightarrow> world outcome" where
  "wc_fail v e = steps [send (wc_chan v) (LookupE (lookupResult_err e)), wc_finish v]"

definition set_wchunk :: "ptr \<Rightarrow> wchunk \<Rightarrow> world \<Rightarrow> world" where
  "set_wchunk p v w = w\<lparr>wchunks := (wchunks w)(p \<mapsto> v)\<rparr>"

definition WriteChunk_onChunkFinish :: "ptr \<Rightarrow> error option \<Rightarrow> world \<Rightarrow> world outcome" where
  "WriteChunk_onChunkFinish p err w =
     (case wchunks w p of None \<Rightarrow> Panic CUndefined
      | Some v \<Rightarrow>
        (case err of
           Some e \<Rightarrow> wc_fail v e w
         | None \<Rightarrow>
           if wc_total v = 0 then wc_finish v w
           else
             let ((bs, rerr), input) = Read (wc_input v);
                 v = v\<lparr>wc_input := input\<rparr>;
                 w = set_wchunk p v w
             in if length bs \<le> 0 \<and> rerr \<noteq> None then wc_fail v (the rerr) w
                else
                  let n64 = of_nat (length bs);
                      v = v\<lparr>wc_n64 := n64, wc_total := wc_total v - n64, wc_offset := wc_offset v + n64\<rparr>;
                      w = set_wchunk p v w
                  in (case NewKey [ArgString (wc_key v)] w of
                        (Inl e, w) \<Rightarrow> wc_fail v e w
                      | (Inr ekey, w) \<Rightarrow>
                          steps
                            [c_key_request (wc_session v)
                               (if wc_total v \<noteq> 0
                                then (\<lambda>k. C_write_plain k (wc_offset v - n64) bs)
                                else (\<lambda>k. C_write_commit k (wc_offset v - n64) (wc_offset v) bs))
                               ekey (wc_onChunk v) (wc_onFinish v),
                             Key_Free ekey] w)))"

subsection \<open>Lookup, remove, indexes\<close>

definition Lookup_onFinish :: "ptr \<Rightarrow> u64 \<Rightarrow> u64 \<Rightarrow> error option \<Rightarrow> world \<Rightarrow> world outcome" where
  "Lookup_onFinish responseCh onResultContext onFinishContext err =
     steps [case err of Some e \<Rightarrow> send responseCh (LookupE (lookupResult_err e)) | None \<Rightarrow> skip,
            close_chan responseCh,
            delete_ctx onResultContext,
            delete_ctx onFinishContext]"

definition ParallelLookup_onFinish :: "ptr \<Rightarrow> u64 \<Rightarrow> u64 \<Rightarrow> error option \<Rightarrow> world \<Rightarrow> world outcome" where
  "ParallelLookup_onFinish responseCh onResultContext onFinishContext err =
     steps [case err of Some e \<Rightarrow> send responseCh (LookupE (lookupResult_err e)) | None \<Rightarrow> skip,
            close_chan responseCh,
            delete_ctx onResultContext,
            delete_ctx onFinishContext]"

definition RemoveKey_onFinish :: "ptr \<Rightarrow> u64 \<Rightarrow> u64 \<Rightarrow> error option \<Rightarrow> world \<Rightarrow> world outcome" where
  "RemoveKey_onFinish responseCh onResultContext onFinishContext err =
     steps [case err of Some e \<Rightarrow> send responseCh (RemoveE (removeResult_err [] e)) | None \<Rightarrow> skip,
            close_chan responseCh,
            delete_ctx onResultContext,
            delete_ctx onFinishContext]"

definition BulkWrite_onResult ::
    "ell_lib \<Rightarrow> ptr \<Rightarrow> ptr \<Rightarrow> lookupResult \<Rightarrow> world \<Rightarrow> world outcome" where
  "BulkWrite_onResult L responseCh keys r w =
     (if lr_err r \<noteq> None then send responseCh (LookupE r) w
      else bindO (find_in L keys (ID (Cmd_ID (lr_cmd r))) w)
        (\<lambda>res. case res of
           Inl err \<Rightarrow> Done w
         | Inr key \<Rightarrow> send responseCh (LookupE (r\<lparr>lr_key := key\<rparr>)) w))"

definition BulkWrite_onFinish ::
    "ptr \<Rightarrow> ptr \<Rightarrow> u64 \<Rightarrow> u64 \<Rightarrow> error option \<Rightarrow> world \<Rightarrow> world outcome" where
  "BulkWrite_onFinish responseCh keys onResultContext onFinishContext err =
     steps [case err of Some e \<Rightarrow> send responseCh (LookupE (lookupResult_err e)) | None \<Rightarrow> skip,
            close_chan responseCh,
            Keys_Free keys,
            delete_ctx onResultContext,
            delete_ctx onFinishContext]"

definition BulkRemove_onResult ::
    "ell_lib \<Rightarrow> ptr \<Rightarrow> ptr \<Rightarrow> removeResult \<Rightarrow> world \<Rightarrow> world outcome" where
  "BulkRemove_onResult L responseCh keys r w =
     (if rm_err r \<noteq> None then send responseCh (RemoveE r) w
      else if Cmd_Status (rm_cmd r) \<noteq> 0 then
        bindO (find_in L keys (ID (Cmd_ID (rm_cmd r))) w)
          (\<lambda>res. case res of
             Inl err \<Rightarrow>
               send responseCh (RemoveE (removeResult_err ''could not find key for replied ID'' err)) w
           | Inr key \<Rightarrow>
               send responseCh (RemoveE (r\<lparr>
                 rm_err := Some (EText (''remove status: '' @ dec_i32 (Cmd_Status (rm_cmd r)))),
                 rm_key := key\<rparr>)) w)
      else Done w)"

definition BulkRemove_onFinish :: "ptr \<Rightarrow> u64 \<Rightarrow> u64 \<Rightarrow> error option \<Rightarrow> world \<Rightarrow> world outcome" where
  "BulkRemove_onFinish responseCh onResultContext onFinishContext err =
     steps [case err of
              Some e \<Rightarrow> send responseCh (RemoveE (removeResult_err ''overall operation result'' e))
            | None \<Rightarrow> skip,
            close_chan responseCh,
            delete_ctx onResultContext,
            delete_ctx onFinishContext]"

definition findIndexes_onFinish :: "ptr \<Rightarrow> u64 \<Rightarrow> u64 \<Rightarrow> error option \<Rightarrow> world \<Rightarrow> world outcome" where
  "findIndexes_onFinish responseCh onResultContext onFinishContext err =
     steps [case err of Some e \<Rightarrow> send responseCh (FindE (findResult_err e)) | None \<Rightarrow> skip,
            close_chan responseCh,
            delete_ctx onResultContext,
            delete_ctx onFinishContext]"

definition setOrUpdateIndexes_onFinish ::
    "ptr \<Rightarrow> u64 \<Rightarrow> u64 \<Rightarrow> error option \<Rightarrow> world \<Rightarrow> world outcome" where
  "setOrUpdateIndexes_onFinish responseCh onResultContext onFinishContext err =
     steps [case err of Some e \<Rightarrow> send responseCh (IndexE \<lparr>ir_err = Some e\<rparr>) | None \<Rightarrow> skip,
            close_chan responseCh,
            delete_ctx onResultContext,
            delete_ctx onFinishContext]"

definition ListIndexes_onFinish :: "ptr \<Rightarrow> u64 \<Rightarrow> u64 \<Rightarrow> error option \<Rightarrow> world \<Rightarrow> world outcome" where
  "ListIndexes_onFinish responseCh onResultContext onFinishContext err =
     steps [case err of Some e \<Rightarrow> send responseCh (EntryE (IndexEntry_err e)) | None \<Rightarrow> skip,
            close_chan responseCh,
            delete_ctx onResultContext,
            delete_ctx onFinishContext]"

definition RemoveIndexes_onFinish :: "ptr \<Rightarrow> u64 \<Rightarrow> u64 \<Rightarrow> error option \<Rightarrow> world \<Rightarrow> world outcome" where
  "RemoveIndexes_onFinish responseCh onResultContext onFinishContext err =
     steps [case err of Some e \<Rightarrow> send responseCh (IndexE \<lparr>ir_err = Some e\<rparr>) | None \<Rightarrow> skip,
            close_chan responseCh,
            delete_ctx onResultContext,
            delete_ctx onFinishContext]"

subsection \<open>Statistics: \<^verbatim>\<open>stat.go\<close>\<close>

definition DnetStat_onFinish :: "ptr \<Rightarrow> u64 \<Rightarrow> u64 \<Rightarrow> error option \<Rightarrow> world \<Rightarrow> world outcome" where
  "DnetStat_onFinish response onResultContext onFinishContext err =
     steps [case err of Some e \<Rightarrow> send response (StatE (StatEntry_err e)) | None \<Rightarrow> skip,
            close_chan response,
            delete_ctx onResultContext,
            delete_ctx onFinishContext]"

subsection \<open>Backends\<close>

definition Backends_onFinish :: "ptr \<Rightarrow> u64 \<Rightarrow> DnetBackendsStatus \<Rightarrow> world \<Rightarrow> world outcome" where
  "Backends_onFinish responseCh context tmp =
     steps [send responseCh (BackendsE tmp), close_chan responseCh, delete_ctx context]"

subsection \<open>Calling a closure\<close>

fun call_read :: "ell_lib \<Rightarrow> read_fn \<Rightarrow> readResult \<Rightarrow> world \<Rightarrow> world outcome" where
  "call_read L (ReadKeyRes ch) = ReadKey_onResult ch"
| "call_read L (BulkReadRes ch ks) = BulkRead_onResult L ch ks"

fun call_lookup :: "ell_lib \<Rightarrow> lookup_fn \<Rightarrow> lookupResult \<Rightarrow> world \<Rightarrow> world outcome" where
  "call_lookup L (WriteChunkRes p) r = WriteChunk_onChunkResult p r"
| "call_lookup L (LookupRes ch) r = send ch (LookupE r)"
| "call_lookup L (ParallelLookupRes ch) r = send ch (LookupE r)"
| "call_lookup L (BulkWriteRes ch ks) r = BulkWrite_onResult L ch ks r"

fun call_remove :: "ell_lib \<Rightarrow> remove_fn \<Rightarrow> removeResult \<Rightarrow> world \<Rightarrow> world outcome" where
  "call_remove L (RemoveKeyRes ch) r = send ch (RemoveE r)"
| "call_remove L (BulkRemoveRes ch ks) r = BulkRemove_onResult L ch ks r"

fun call_final_fn :: "final_fn \<Rightarrow> error option \<Rightarrow> world \<Rightarrow> world outcome" where
  "call_final_fn (ReadKeyFin ch c1 c2) = ReadKey_onFinish ch c1 c2"
| "call_final_fn (BulkReadFin ch ks c1 c2) = BulkRead_onFinish ch ks c1 c2"
| "call_final_fn (WriteFin f c1 c2 c3) = write_onWriteFinish f c1 c2 c3"
| "call_final_fn (CacheFin f c1 c2 c3) = cache_onWriteFinish f c1 c2 c3"
| "call_final_fn (WriteChunkFin p) = WriteChunk_onChunkFinish p"
| "call_final_fn (LookupFin ch c1 c2) = Lookup_onFinish ch c1 c2"
| "call_final_fn (ParallelLookupFin ch c1 c2) = ParallelLookup_onFinish ch c1 c2"
| "call_final_fn (RemoveKeyFin ch c1 c2) = RemoveKey_onFinish ch c1 c2"
| "call_final_fn (BulkWriteFin ch ks c1 c2) = BulkWrite_onFinish ch ks c1 c2"
| "call_final_fn (BulkRemoveFin ch c1 c2) = BulkRemove_onFinish ch c1 c2"
| "call_final_fn (FindIndexesFin ch c1 c2) = findIndexes_onFinish ch c1 c2"
| "call_final_fn (SetIndexesFin ch c1 c2) = setOrUpdateIndexes_onFinish ch c1 c2"
| "call_final_fn (ListIndexesFin ch c1 c2) = ListIndexes_onFinish ch c1 c2"
| "call_final_fn (RemoveIndexesFin ch c1 c2) = RemoveIndexes_onFinish ch c1 c2"
| "call_final_fn (StatFin ch c1 c2) = DnetStat_onFinish ch c1 c2"

end
