(* ===== verification/Callbacks.thy ===== *)
theory Callbacks
  imports Closures
begin

text \<open>
  \<^verbatim>\<open>elliptics/callback.go\<close> and the callbacks of \<^verbatim>\<open>backend.go\<close>: the functions exported to
  C++. Each one looks its context up in the pool, asserts the Go type of what it finds,
  copies the C structures and calls the closure. The C++ functions that call them
  (\<^verbatim>\<open>on_finish\<close>, \<^verbatim>\<open>on_read\<close>, \<^verbatim>\<open>on_lookup\<close>, \<^verbatim>\<open>on_backend_status\<close> of \<^verbatim>\<open>session.cpp\<close>) follow.
\<close>

section \<open>Definitions\<close>

subsection \<open>C arguments\<close>

record go_error =
  ge_code :: i32
  ge_flags :: u64
  ge_message :: string

text \<open>A pointer field of a C structure: never written, null, or the object it points to.\<close>

datatype 'a c_field = Unset | Null | At 'a

record go_read_result =
  grr_cmd :: c_dnet_cmd
  grr_addr :: c_dnet_addr
  grr_io :: "c_dnet_io_attr c_field"
  grr_file :: "bytes c_field"
  grr_size :: u64

record go_lookup_result =
  glr_cmd :: c_dnet_cmd
  glr_addr :: c_dnet_addr
  glr_info :: c_dnet_file_info
  glr_storage_addr :: c_dnet_addr
  glr_path :: string

record c_index_entry =
  ce_data :: bytes
  ce_size :: u64

record go_find_result =
  gfr_id :: bytes
  gfr_entries :: "c_index_entry list"

record go_stat_result =
  gst_cmd :: c_dnet_cmd
  gst_addr :: c_dnet_addr
  gst_data :: "bytes option"
  gst_size :: u64

record c_backend_status =
  cbs_backend_id :: u32
  cbs_state :: i32
  cbs_defrag_state :: u32
  cbs_tsec :: u64
  cbs_tnsec :: u64
  cbs_last_start_err :: i32
  cbs_read_only :: u8
  cbs_delay :: u32

record c_backend_status_list =
  cbl_count :: u32
  cbl_backends :: "c_backend_status list"

subsection \<open>Looking up a context\<close>

definition no_session :: panic where
  "no_session = PanicMsg ''Unable to find session numbder''"

definition no_session_number :: panic where
  "no_session_number = PanicMsg ''Unable to find session number''"

definition with_context :: "panic \<Rightarrow> u64 \<Rightarrow> (goval \<Rightarrow> world outcome) \<Rightarrow> world \<Rightarrow> world outcome" where
  "with_context p key k w = (case Get key w of Inl err \<Rightarrow> Panic p | Inr context \<Rightarrow> k context)"

definition dnet_error_of :: "go_error \<Rightarrow> error" where
  "dnet_error_of cerr =
     EDnet \<lparr>Code = sint (ge_code cerr), Flags = ge_flags cerr, Message = c_string (ge_message cerr)\<rparr>"

subsection \<open>\<^verbatim>\<open>callback.go\<close>\<close>

definition go_final_callback :: "go_error \<Rightarrow> u64 \<Rightarrow> world \<Rightarrow> world outcome" where
  "go_final_callback cerr key w =
     with_context no_session key
       (\<lambda>context. case context of
          FnFinal callback \<Rightarrow>
            if sint (ge_code cerr) < 0 then call_final_fn callback (Some (dnet_error_of cerr)) w
            else call_final_fn callback None w
        | _ \<Rightarrow> Panic TypeAssertion) w"

definition go_lookup_error ::
    "ell_lib \<Rightarrow> c_dnet_cmd \<Rightarrow> c_dnet_addr \<Rightarrow> go_error \<Rightarrow> u64 \<Rightarrow> world \<Rightarrow> world outcome" where
  "go_lookup_error L cmd addr cerr key w =
     with_context no_session key
       (\<lambda>context. case context of
          FnLookup callback \<Rightarrow>
            bindO (NewDnetAddr addr) (\<lambda>a.
              call_lookup L callback
                ((lookupResult_err (dnet_error_of cerr))\<lparr>lr_cmd := NewDnetCmd L cmd, lr_addr := a\<rparr>) w)
        | _ \<Rightarrow> Panic TypeAssertion) w"

definition go_lookup_callback :: "ell_lib \<Rightarrow> go_lookup_result \<Rightarrow> u64 \<Rightarrow> world \<Rightarrow> world outcome" where
  "go_lookup_callback L result key w =
     with_context no_session key
       (\<lambda>context. case context of
          FnLookup callback \<Rightarrow>
            bindO (NewDnetAddr (glr_addr result)) (\<lambda>a.
              bindO (NewDnetAddr (glr_storage_addr result)) (\<lambda>sa.
                call_lookup L callback
                  \<lparr>lr_cmd = NewDnetCmd L (glr_cmd result), lr_addr = a,
                   lr_info = NewDnetFileInfo L (glr_info result), lr_storage_addr = sa,
                   lr_path = c_string (glr_path result), lr_err = None, lr_key = []\<rparr> w))
        | _ \<Rightarrow> Panic TypeAssertion) w"

definition go_remove_callback :: "ell_lib \<Rightarrow> c_dnet_cmd \<Rightarrow> u64 \<Rightarrow> world \<Rightarrow> world outcome" where
  "go_remove_callback L cmd key w =
     with_context no_session key
       (\<lambda>context. case context of
          FnRemove callback \<Rightarrow>
            call_remove L callback \<lparr>rm_cmd = NewDnetCmd L cmd, rm_key = [], rm_err = None\<rparr> w
        | _ \<Rightarrow> Panic TypeAssertion) w"

definition read_data :: "go_read_result \<Rightarrow> bytes outcome" where
  "read_data result =
     (if grr_size result > 0
      then (case grr_file result of
              At mem \<Rightarrow> c_GoBytes mem (ucast (grr_size result))
            | Null \<Rightarrow> Done []
            | Unset \<Rightarrow> Panic CUndefined)
      else Done [])"

text \<open>\<^verbatim>\<open>NewDnetIOAttr\<close> reads the structure behind its argument.\<close>

definition io_attribute :: "go_read_result \<Rightarrow> c_dnet_io_attr outcome" where
  "io_attribute result =
     (case grr_io result of At io \<Rightarrow> Done io | Null \<Rightarrow> Panic NilPointer | Unset \<Rightarrow> Panic CUndefined)"

definition go_read_callback :: "ell_lib \<Rightarrow> go_read_result \<Rightarrow> u64 \<Rightarrow> world \<Rightarrow> world outcome" where
  "go_read_callback L result key w =
     with_context no_session key
       (\<lambda>context. case context of
          FnRead callback \<Rightarrow>
            bindO (NewDnetAddr (grr_addr result)) (\<lambda>a.
              bindO (io_attribute result) (\<lambda>io.
                bindO (read_data result) (\<lambda>d.
                  call_read L callback
                    \<lparr>rr_cmd = NewDnetCmd L (grr_cmd result), rr_addr = a,
                     rr_ioattr = NewDnetIOAttr L io, rr_data = d, rr_err = None,
                     rr_key = []\<rparr> w)))
        | _ \<Rightarrow> Panic TypeAssertion) w"

definition index_entry :: "c_index_entry \<Rightarrow> IndexEntry outcome" where
  "index_entry item =
     mapO (\<lambda>s. \<lparr>ie_Data = s, ie_err = None\<rparr>) (c_GoStringN (ce_data item) (ucast (ce_size item)))"

definition go_find_callback :: "go_find_result \<Rightarrow> u64 \<Rightarrow> world \<Rightarrow> world outcome" where
  "go_find_callback result key w =
     with_context no_session key
       (\<lambda>context. case context of
          FnFind responseCh \<Rightarrow>
            bindO (mapM index_entry (gfr_entries result)) (\<lambda>datas.
              send responseCh (FindE \<lparr>fr_id = gfr_id result, fr_data = datas, fr_err = None\<rparr>) w)
        | _ \<Rightarrow> Panic TypeAssertion) w"

definition go_index_entry_callback :: "c_index_entry \<Rightarrow> u64 \<Rightarrow> world \<Rightarrow> world outcome" where
  "go_index_entry_callback result key w =
     with_context no_session key
       (\<lambda>context. case context of
          FnEntry responseCh \<Rightarrow>
            bindO (index_entry result) (\<lambda>e. send responseCh (EntryE e) w)
        | _ \<Rightarrow> Panic TypeAssertion) w"

subsection \<open>\<^verbatim>\<open>backend.go\<close>\<close>

definition stat_bytes :: "go_stat_result \<Rightarrow> bytes outcome" where
  "stat_bytes result =
     (case gst_data result of
        Some mem \<Rightarrow> if gst_size result \<noteq> 0 then c_GoBytes mem (ucast (gst_size result)) else Done []
      | None \<Rightarrow> Done [])"

text \<open>\<^verbatim>\<open>go_stat_callback\<close> of \<^verbatim>\<open>stat.go\<close>.\<close>

definition go_stat_callback :: "ell_lib \<Rightarrow> go_stat_result \<Rightarrow> u64 \<Rightarrow> world \<Rightarrow> world outcome" where
  "go_stat_callback L result key w =
     with_context no_session key
       (\<lambda>context. case context of
          FnStat response \<Rightarrow>
            bindO (NewDnetAddr (gst_addr result)) (\<lambda>a.
              bindO (stat_bytes result) (\<lambda>d.
                send response (StatE \<lparr>se_cmd = NewDnetCmd L (gst_cmd result), se_addr = a,
                  se_stat = d, se_err = None\<rparr>) w))
        | _ \<Rightarrow> Panic TypeAssertion) w"

text \<open>\<^verbatim>\<open>go_route_callback\<close> of \<^verbatim>\<open>route.go\<close>: the pool holds the statistics themselves.\<close>

definition go_route_callback :: "ell_lib \<Rightarrow> go_time \<Rightarrow> c_route_entry \<Rightarrow> u64 \<Rightarrow> world \<Rightarrow> world outcome" where
  "go_route_callback L now dnet_entry key w =
     bindO (NewRouteEntry L dnet_entry) (\<lambda>entry.
       with_context no_session_number key
         (\<lambda>context. case context of
            StatObj stat \<Rightarrow>
              (case stats w stat of None \<Rightarrow> Panic NilPointer
               | Some st \<Rightarrow>
                   mapO (\<lambda>st. w\<lparr>stats := (stats w)(stat \<mapsto> st)\<rparr>) (AddRouteEntry L now entry st))
          | _ \<Rightarrow> Panic TypeAssertion) w)"

text \<open>\<^verbatim>\<open>dnet_backend_status_from_list\<close>: \<open>None\<close> for its result \<^verbatim>\<open>-1\<close>.\<close>

definition status_from_list :: "c_backend_status_list \<Rightarrow> nat \<Rightarrow> c_backend_status option outcome" where
  "status_from_list l idx =
     (if idx \<ge> unat (cbl_count l) then Done None
      else if idx \<ge> length (cbl_backends l) then Panic CUndefined
      else Done (Some (cbl_backends l ! idx)))"

definition backend_status :: "c_backend_status \<Rightarrow> DnetBackendStatus" where
  "backend_status st =
     \<lparr>bs_Backend = cbs_backend_id st, bs_State = cbs_state st, bs_DefragState = cbs_defrag_state st,
      bs_LastStart = time_Unix (sint (cbs_tsec st)) (sint (cbs_tnsec st)),
      bs_LastStartErr = cbs_last_start_err st, bs_RO = (cbs_read_only st \<noteq> 0),
      bs_Delay = cbs_delay st\<rparr>"

fun collect_status :: "c_backend_status_list \<Rightarrow> nat list \<Rightarrow> DnetBackendStatus list outcome" where
  "collect_status l [] = Done []"
| "collect_status l (i # is) =
     bindO (status_from_list l i) (\<lambda>r.
       case r of
         None \<Rightarrow> collect_status l is
       | Some st \<Rightarrow> mapO (Cons (backend_status st)) (collect_status l is))"

definition go_backend_status_callback :: "u64 \<Rightarrow> c_backend_status_list \<Rightarrow> world \<Rightarrow> world outcome" where
  "go_backend_status_callback key l w =
     with_context no_session_number key
       (\<lambda>context. bindO (collect_status l [0 ..< unat (cbl_count l)]) (\<lambda>bs.
          case context of
            FnBackends responseCh ctx \<Rightarrow>
              Backends_onFinish responseCh ctx \<lparr>bss_Backends = bs, bss_Error = None\<rparr> w
          | _ \<Rightarrow> Panic TypeAssertion)) w"

definition go_backend_status_error :: "u64 \<Rightarrow> go_error \<Rightarrow> world \<Rightarrow> world outcome" where
  "go_backend_status_error key cerr w =
     with_context no_session_number key
       (\<lambda>context. case context of
          FnBackends responseCh ctx \<Rightarrow>
            Backends_onFinish responseCh ctx \<lparr>bss_Backends = [], bss_Error = Some (dnet_error_of cerr)\<rparr> w
        | _ \<Rightarrow> Panic TypeAssertion) w"

subsection \<open>The C++ callers: \<^verbatim>\<open>session.cpp\<close>\<close>

text \<open>\<^verbatim>\<open>elliptics::error_info\<close>: a code (0 for success) and a message.\<close>

record error_info =
  ei_code :: i32
  ei_message :: string

definition on_finish :: "u64 \<Rightarrow> error_info \<Rightarrow> world \<Rightarrow> world outcome" where
  "on_finish context err =
     go_final_callback \<lparr>ge_code = ei_code err, ge_flags = 0, ge_message = ei_message err\<rparr> context"

text \<open>
  An entry of a read. Its accessors \<^verbatim>\<open>file()\<close> and \<^verbatim>\<open>io_attribute()\<close> may throw \<^verbatim>\<open>not_found_error\<close>
  (\<open>None\<close>), and so may \<^verbatim>\<open>data()\<close> of the file (\<open>Unset\<close>).
\<close>

record data_pointer =
  dp_data :: "bytes c_field"
  dp_size :: u64

record read_result_entry =
  re_command :: c_dnet_cmd
  re_address :: c_dnet_addr
  re_file :: "data_pointer option"
  re_io_attribute :: "c_dnet_io_attr option"

text \<open>
  \<^verbatim>\<open>on_read\<close>: an exception of \<^verbatim>\<open>file()\<close> leaves the function, the other two are caught and leave
  the field of the local structure \<^verbatim>\<open>to_go\<close> as it was, without a value.
\<close>

definition on_read :: "ell_lib \<Rightarrow> u64 \<Rightarrow> read_result_entry \<Rightarrow> world \<Rightarrow> world outcome" where
  "on_read L context result w =
     (case re_file result of
        None \<Rightarrow> Panic Thrown
      | Some data \<Rightarrow>
          go_read_callback L
            \<lparr>grr_cmd = re_command result, grr_addr = re_address result,
             grr_io = (case re_io_attribute result of None \<Rightarrow> Unset | Some io \<Rightarrow> At io),
             grr_file = dp_data data, grr_size = dp_size data\<rparr> context w)"

text \<open>\<^verbatim>\<open>on_lookup\<close>: an entry is an error when its code is not 0.\<close>

definition on_lookup :: "ell_lib \<Rightarrow> u64 \<Rightarrow> error_info \<Rightarrow> go_lookup_result \<Rightarrow> world \<Rightarrow> world outcome" where
  "on_lookup L context err result =
     (if ei_code err \<noteq> 0
      then go_lookup_error L (glr_cmd result) (glr_addr result)
             \<lparr>ge_code = ei_code err, ge_flags = cc_flags (glr_cmd result), ge_message = ei_message err\<rparr>
             context
      else go_lookup_callback L result context)"

text \<open>\<^verbatim>\<open>on_backend_status\<close>; \<^verbatim>\<open>result[0]\<close> of an empty vector is undefined.\<close>

definition on_backend_status ::
    "u64 \<Rightarrow> c_backend_status_list list \<Rightarrow> error_info \<Rightarrow> world \<Rightarrow> world outcome" where
  "on_backend_status context result err w =
     (if ei_code err \<noteq> 0
      then go_backend_status_error context
             \<lparr>ge_code = ei_code err, ge_flags = 0, ge_message = ei_message err\<rparr> w
      else (case result of [] \<Rightarrow> Panic CUndefined | l # _ \<Rightarrow> go_backend_status_callback context l w))"

end
