(* ===== verification/Session.thy ===== *)
theory Session
  imports Callbacks
begin

text \<open>
  The operations of \<^verbatim>\<open>elliptics/session.go\<close>. A request-starting operation makes a response
  channel, takes contexts, stores its closures under them and hands the request to the
  client library; the callbacks of theory \<open>Callbacks\<close> finish the work. An operation
  returns its channel with the new world, or panics.
\<close>

section \<open>Definitions\<close>

definition defaultVOLUME :: nat where
  "defaultVOLUME = 10"

definition max_chunk_size :: u64 where
  "max_chunk_size = 10 * 1024 * 1024"

record Session =
  s_groups :: "u32 list"
  s_session :: ptr

subsection \<open>Small channels for early errors\<close>

definition makeLookuperChan :: "error option \<Rightarrow> nat \<Rightarrow> world \<Rightarrow> (ptr \<times> world) outcome" where
  "makeLookuperChan err volume w =
     (let volume = (if volume = 0 then defaultVOLUME else volume);
          (responseCh, w) = make_chan volume w
      in case err of
           Some e \<Rightarrow> mapO (Pair responseCh)
             (steps [send responseCh (LookupE (lookupResult_err e)), close_chan responseCh] w)
         | None \<Rightarrow> Done (responseCh, w))"

text \<open>Send an error on a channel and close it.\<close>

definition fail_chan :: "ptr \<Rightarrow> elem \<Rightarrow> world \<Rightarrow> (ptr \<times> world) outcome" where
  "fail_chan ch e w = mapO (Pair ch) (steps [send ch e, close_chan ch] w)"

subsection \<open>Creation and settings\<close>

text \<open>
  \<^verbatim>\<open>NewSession\<close>: cgo's second result is the thread's \<^verbatim>\<open>errno\<close> after the call, whatever set
  it; a value other than 0 makes the call fail.
\<close>

definition NewSession :: "(int \<Rightarrow> string) \<Rightarrow> int \<Rightarrow> world \<Rightarrow> (error + Session) \<times> world" where
  "NewSession strerror errno w =
     (let (p, w) = new_ptr w; w = w\<lparr>sessions := (sessions w)(p \<mapsto> [])\<rparr>
      in if errno \<noteq> 0 then (Inl (EErrno errno (strerror errno)), w)
         else (Inr \<lparr>s_groups = [], s_session = p\<rparr>, w))"

definition Session_Delete :: "Session \<Rightarrow> world \<Rightarrow> world outcome" where
  "Session_Delete s w =
     (if sessions w (s_session s) = None then Panic CUndefined
      else Done (w\<lparr>sessions := (sessions w)(s_session s := None)\<rparr>))"

definition SetGroups :: "u32 list \<Rightarrow> Session \<Rightarrow> world \<Rightarrow> (Session \<times> world) outcome" where
  "SetGroups groups s w =
     (if groups = [] then Panic IndexOutOfRange
      else mapO (Pair (s\<lparr>s_groups := groups\<rparr>)) (sess_do (s_session s) (Set_groups groups) w))"

definition GetGroups :: "Session \<Rightarrow> u32 list" where
  "GetGroups s = s_groups s"

text \<open>The timeout is a Go \<^verbatim>\<open>int\<close> (64 bits) narrowed to a C \<^verbatim>\<open>int\<close>.\<close>

definition SetTimeout :: "i64 \<Rightarrow> Session \<Rightarrow> world \<Rightarrow> world outcome" where
  "SetTimeout timeout s = sess_do (s_session s) (Set_timeout (ucast timeout))"

definition SetCflags :: "u64 \<Rightarrow> Session \<Rightarrow> world \<Rightarrow> world outcome" where
  "SetCflags cflags s = sess_do (s_session s) (Set_cflags cflags)"

definition SetIOflags :: "u32 \<Rightarrow> Session \<Rightarrow> world \<Rightarrow> world outcome" where
  "SetIOflags ioflags s = sess_do (s_session s) (Set_ioflags ioflags)"

definition SetTraceID :: "u64 \<Rightarrow> Session \<Rightarrow> world \<Rightarrow> world outcome" where
  "SetTraceID trace s = sess_do (s_session s) (Set_trace_id trace)"

text \<open>The name is passed with its length, so an embedded NUL stays in it.\<close>

definition SetNamespace :: "string \<Rightarrow> Session \<Rightarrow> world \<Rightarrow> world outcome" where
  "SetNamespace namespace s = sess_do (s_session s) (Set_namespace namespace)"

definition SessionFilterAll :: int where "SessionFilterAll = 0"
definition SessionFilterPositive :: int where "SessionFilterPositive = 1"
definition SessionFilterMax :: int where "SessionFilterMax = 2"

definition SetFilter :: "int \<Rightarrow> Session \<Rightarrow> world \<Rightarrow> world outcome" where
  "SetFilter f s w =
     (if f \<ge> SessionFilterMax then Done w
      else if f = SessionFilterAll then sess_do (s_session s) Set_filter_all w
      else if f = SessionFilterPositive then sess_do (s_session s) Set_filter_positive w
      else Done w)"

subsection \<open>Reading\<close>

definition ReadKey :: "Session \<Rightarrow> ptr \<Rightarrow> u64 \<Rightarrow> u64 \<Rightarrow> world \<Rightarrow> (ptr \<times> world) outcome" where
  "ReadKey s key offset sz w =
     (let (responseCh, w) = make_chan defaultVOLUME w;
          (onResultContext, w) = NextContext w;
          (onFinishContext, w) = NextContext w;
          w = Store onResultContext (FnRead (ReadKeyRes responseCh)) w;
          w = Store onFinishContext (FnFinal (ReadKeyFin responseCh onResultContext onFinishContext)) w
      in mapO (Pair responseCh)
           (c_key_request (s_session s) (\<lambda>k. C_read_data k offset sz) key
              onResultContext onFinishContext w))"

definition BulkRead :: "Session \<Rightarrow> string list \<Rightarrow> world \<Rightarrow> (ptr \<times> world) outcome" where
  "BulkRead s keys w =
     (case NewKeys keys w of
        (Inl err, w) \<Rightarrow>
          let (errCh, w) = make_chan 1 w in fail_chan errCh (ReadE (readResult_err err)) w
      | (Inr ekeys, w) \<Rightarrow>
          let (responseCh, w) = make_chan defaultVOLUME w;
              (onResultContext, w) = NextContext w;
              (onFinishContext, w) = NextContext w;
              w = Store onResultContext (FnRead (BulkReadRes responseCh ekeys)) w;
              w = Store onFinishContext
                    (FnFinal (BulkReadFin responseCh ekeys onResultContext onFinishContext)) w
          in mapO (Pair responseCh)
               (steps [transform_keys ekeys,
                  c_request (s_session s) (C_bulk_read (names_of ekeys w))
                    onResultContext onFinishContext] w))"

definition ReadData :: "Session \<Rightarrow> string \<Rightarrow> u64 \<Rightarrow> u64 \<Rightarrow> world \<Rightarrow> (ptr \<times> world) outcome" where
  "ReadData s key offset sz w =
     (case NewKey [ArgString key] w of
        (Inl err, w) \<Rightarrow>
          let (errCh, w) = make_chan 1 w in fail_chan errCh (ReadE (readResult_err err)) w
      | (Inr ekey, w) \<Rightarrow> defer_Free ekey (ReadKey s ekey offset sz w))"

subsection \<open>Writing\<close>

text \<open>\<^verbatim>\<open>Session.write\<close>. \<^verbatim>\<open>&data[0]\<close> is evaluated after the closures are stored; it needs a byte.\<close>

definition write_go ::
    "Session \<Rightarrow> ptr \<Rightarrow> bytes \<Rightarrow> u64 \<Rightarrow> onLookupCallback option \<Rightarrow> onResultCallback option \<Rightarrow>
     world \<Rightarrow> world outcome" where
  "write_go s key data offset onLookup onResult w =
     (let (onWriteContext, w) = NextContext w;
          (onWriteFinishContext, w) = NextContext w;
          (chunk_context, w) = NextContext w;
          onLookup = (case onLookup of Some f \<Rightarrow> f | None \<Rightarrow> EmptyLookup);
          w = Store onWriteContext (NamedLookup onLookup) w;
          w = Store onWriteFinishContext
                (FnFinal (WriteFin onResult onWriteContext onWriteFinishContext chunk_context)) w;
          w = Store chunk_context (Chunk data) w
      in if data = [] then Panic IndexOutOfRange
         else c_key_request (s_session s) (\<lambda>k. C_write_data k offset data) key
                onWriteContext onWriteFinishContext w)"

definition Write ::
    "Session \<Rightarrow> string \<Rightarrow> bytes \<Rightarrow> u64 \<Rightarrow> onLookupCallback option \<Rightarrow> onResultCallback option \<Rightarrow>
     world \<Rightarrow> world outcome" where
  "Write s key data offset onLookup onResult w =
     (case NewKey [ArgString key] w of
        (Inl err, w) \<Rightarrow> (case onResult of Some f \<Rightarrow> call_onResult f (Some err) w | None \<Rightarrow> Done w)
      | (Inr ekey, w) \<Rightarrow>
          steps [write_go s ekey data offset onLookup onResult, Key_Free ekey] w)"

definition zero_length_write :: error where
  "zero_length_write =
     EDnet \<lparr>Code = - 22, Flags = 0, Message = ''Invalid zero-length write request''\<rparr>"

definition WriteKey :: "Session \<Rightarrow> ptr \<Rightarrow> reader \<Rightarrow> u64 \<Rightarrow> world \<Rightarrow> (ptr \<times> world) outcome" where
  "WriteKey s key input offset w =
     (let (responseCh, w) = make_chan defaultVOLUME w;
          (chunk, err) = ReadAll input
      in case err of
           Some e \<Rightarrow> fail_chan responseCh (LookupE (lookupResult_err e)) w
         | None \<Rightarrow>
             if chunk = [] then fail_chan responseCh (LookupE (lookupResult_err zero_length_write)) w
             else mapO (Pair responseCh)
                    (write_go s key chunk offset (Some (WriteKeyLookup responseCh))
                       (Some (WriteKeyFinish responseCh)) w))"

definition WriteChunk ::
    "Session \<Rightarrow> string \<Rightarrow> reader \<Rightarrow> u64 \<Rightarrow> u64 \<Rightarrow> world \<Rightarrow> (ptr \<times> world) outcome" where
  "WriteChunk s key input initial_offset total_size w =
     (let (responseCh, w) = make_chan defaultVOLUME w;
          (onChunkContext, w) = NextContext w;
          (onFinishContext, w) = NextContext w;
          (chunk_context, w) = NextContext w;
          ((bs, err), input) = Read input
      in case err of
           Some e \<Rightarrow> fail_chan responseCh (LookupE (lookupResult_err e)) w
         | None \<Rightarrow>
             bindO
               (if length bs = 0
                then send responseCh (LookupE (lookupResult_err (EDnet
                       \<lparr>Code = - 22, Flags = 0,
                        Message = ''Invalid zero-length write: current-offset: '' @
                          dec_u64 initial_offset @ ''/'' @ dec_u64 initial_offset @
                          '', rest-size: '' @ dec_u64 total_size @ ''/'' @ dec_u64 total_size\<rparr>))) w
                else Done w)
               (\<lambda>w.
                 let n64 = of_nat (length bs);
                     total = total_size - n64;
                     offset = initial_offset + n64
                 in case NewKey [ArgString key] w of
                      (Inl e, w) \<Rightarrow> fail_chan responseCh (LookupE (lookupResult_err e)) w
                    | (Inr ekey, w) \<Rightarrow>
                        let (p, w) = new_ptr w;
                            w = set_wchunk p
                                  \<lparr>wc_session = s_session s, wc_key = key, wc_input = input,
                                   wc_total = total, wc_offset = offset, wc_n64 = n64,
                                   wc_chan = responseCh, wc_onChunk = onChunkContext,
                                   wc_onFinish = onFinishContext, wc_chunkctx = chunk_context\<rparr> w;
                            w = Store onChunkContext (FnLookup (WriteChunkRes p)) w;
                            w = Store onFinishContext (FnFinal (WriteChunkFin p)) w;
                            w = Store chunk_context (ChunkBuf p) w
                        in defer_Free ekey (mapO (Pair responseCh)
                             (c_key_request (s_session s)
                                (\<lambda>k. C_write_prepare k (offset - n64) (total + n64) bs) ekey
                                onChunkContext onFinishContext w))))"

definition WriteData ::
    "Session \<Rightarrow> string \<Rightarrow> reader \<Rightarrow> u64 \<Rightarrow> u64 \<Rightarrow> world \<Rightarrow> (ptr \<times> world) outcome" where
  "WriteData s key input offset total_size w =
     (if total_size > max_chunk_size then WriteChunk s key input offset total_size w
      else (case NewKey [ArgString key] w of
              (Inl err, w) \<Rightarrow> makeLookuperChan (Some err) defaultVOLUME w
            | (Inr ekey, w) \<Rightarrow> defer_Free ekey (WriteKey s ekey input offset w)))"

definition cache ::
    "Session \<Rightarrow> ptr \<Rightarrow> bytes \<Rightarrow> u64 \<Rightarrow> onLookupCallback option \<Rightarrow> onResultCallback option \<Rightarrow>
     world \<Rightarrow> world outcome" where
  "cache s key data timeout onLookup onResult w =
     (let (onWriteContext, w) = NextContext w;
          (onWriteFinishContext, w) = NextContext w;
          (chunk_context, w) = NextContext w;
          onLookup = (case onLookup of Some f \<Rightarrow> f | None \<Rightarrow> EmptyLookup);
          w = Store onWriteContext (NamedLookup onLookup) w;
          w = Store onWriteFinishContext
                (FnFinal (CacheFin onResult onWriteContext onWriteFinishContext chunk_context)) w;
          w = Store chunk_context (Chunk data) w
      in if data = [] then Panic IndexOutOfRange
         else c_key_request (s_session s) (\<lambda>k. C_write_cache k data timeout) key
                onWriteContext onWriteFinishContext w)"

text \<open>\<^verbatim>\<open>Cache\<close>: the deferred calls run last to first, so the key is freed before \<open>onResult\<close>.\<close>

definition Cache ::
    "Session \<Rightarrow> string \<Rightarrow> bytes \<Rightarrow> u64 \<Rightarrow> onLookupCallback option \<Rightarrow> onResultCallback option \<Rightarrow>
     world \<Rightarrow> world outcome" where
  "Cache s key data timeout onLookup onResult w =
     (let report = (\<lambda>err. case onResult of Some f \<Rightarrow> call_onResult f (Some err) | None \<Rightarrow> skip)
      in case NewKey [ArgString key] w of
           (Inl err, w) \<Rightarrow> report err w
         | (Inr ekey, w) \<Rightarrow>
             if length data = 0
             then steps [Key_Free ekey, report (EText ''Invalid zero-length write request'')] w
             else steps [cache s ekey data timeout onLookup onResult, Key_Free ekey] w)"

definition WriteCache :: "Session \<Rightarrow> string \<Rightarrow> reader \<Rightarrow> u64 \<Rightarrow> world \<Rightarrow> (ptr \<times> world) outcome" where
  "WriteCache s key input timeout w =
     (case NewKey [ArgString key] w of
        (Inl err, w) \<Rightarrow> makeLookuperChan (Some err) defaultVOLUME w
      | (Inr ekey, w) \<Rightarrow>
          defer_Free ekey
            (bindO (makeLookuperChan None defaultVOLUME w) (\<lambda>(responseCh, w).
               let (chunk, err) = ReadAll input
               in case err of
                    Some e \<Rightarrow> fail_chan responseCh (LookupE (lookupResult_err e)) w
                  | None \<Rightarrow>
                      if chunk = []
                      then fail_chan responseCh (LookupE (lookupResult_err zero_length_write)) w
                      else mapO (Pair responseCh)
                             (cache s ekey chunk timeout (Some (WriteCacheLookup responseCh))
                                (Some (WriteCacheFinish responseCh)) w))))"

end
