(* ===== verification/SessionOps.thy ===== *)
theory SessionOps
  imports Session
begin

text \<open>
  The rest of \<^verbatim>\<open>elliptics/session.go\<close> (lookup, remove, the bulk operations, the secondary
  indexes, the route lookup) and the requests of \<^verbatim>\<open>elliptics/backend.go\<close>.
\<close>

section \<open>Definitions\<close>

subsection \<open>Lookup and remove\<close>

definition Lookup :: "Session \<Rightarrow> ptr \<Rightarrow> world \<Rightarrow> (ptr \<times> world) outcome" where
  "Lookup s key w =
     (let (responseCh, w) = make_chan defaultVOLUME w;
          (onResultContext, w) = NextContext w;
          (onFinishContext, w) = NextContext w;
          w = Store onResultContext (FnLookup (LookupRes responseCh)) w;
          w = Store onFinishContext (FnFinal (LookupFin responseCh onResultContext onFinishContext)) w
      in mapO (Pair responseCh)
           (c_key_request (s_session s) C_lookup key onResultContext onFinishContext w))"

text \<open>\<^verbatim>\<open>ParallelLookup\<close> makes its channel and contexts before it makes the key.\<close>

definition ParallelLookup :: "Session \<Rightarrow> string \<Rightarrow> world \<Rightarrow> (ptr \<times> world) outcome" where
  "ParallelLookup s kstr w =
     (let (responseCh, w) = make_chan defaultVOLUME w;
          (onResultContext, w) = NextContext w;
          (onFinishContext, w) = NextContext w
      in case NewKey [ArgString kstr] w of
           (Inl err, w) \<Rightarrow> fail_chan responseCh (LookupE (lookupResult_err err)) w
         | (Inr key, w) \<Rightarrow>
             let w = Store onResultContext (FnLookup (ParallelLookupRes responseCh)) w;
                 w = Store onFinishContext
                       (FnFinal (ParallelLookupFin responseCh onResultContext onFinishContext)) w
             in defer_Free key (mapO (Pair responseCh)
                  (c_key_request (s_session s) C_parallel_lookup key onResultContext onFinishContext w)))"

definition RemoveKey :: "Session \<Rightarrow> ptr \<Rightarrow> world \<Rightarrow> (ptr \<times> world) outcome" where
  "RemoveKey s key w =
     (let (responseCh, w) = make_chan defaultVOLUME w;
          (onResultContext, w) = NextContext w;
          (onFinishContext, w) = NextContext w;
          w = Store onResultContext (FnRemove (RemoveKeyRes responseCh)) w;
          w = Store onFinishContext (FnFinal (RemoveKeyFin responseCh onResultContext onFinishContext)) w
      in mapO (Pair responseCh)
           (c_key_request (s_session s) C_remove key onResultContext onFinishContext w))"

definition Remove :: "Session \<Rightarrow> string \<Rightarrow> world \<Rightarrow> (ptr \<times> world) outcome" where
  "Remove s key w =
     (case NewKey [ArgString key] w of
        (Inl err, w) \<Rightarrow>
          let (responseCh, w) = make_chan defaultVOLUME w
          in fail_chan responseCh (RemoveE (removeResult_err [] err)) w
      | (Inr ekey, w) \<Rightarrow> defer_Free ekey (RemoveKey s ekey w))"

subsection \<open>Bulk write and remove\<close>

type_synonym blobs = "(ell_io_attr \<times> bytes) list"

text \<open>
  The loop of \<^verbatim>\<open>BulkWrite\<close> over attributes and data: stops at the first attribute that
  cannot be converted, fails on an empty blob (\<^verbatim>\<open>&v[0]\<close>); an insertion that runs out of
  memory is ignored.
\<close>

fun bulk_insert :: "(DnetIOAttr \<times> bytes) list \<Rightarrow> blobs \<Rightarrow> world \<Rightarrow>
    ((error option \<times> blobs) \<times> world) outcome" where
  "bulk_insert [] bulk w = Done ((None, bulk), w)"
| "bulk_insert ((attr, v) # rest) bulk w =
     (let (ok, w) = c_alloc w
      in case ToIOAttr ok attr of
           Inl err \<Rightarrow> Done ((Some err, bulk), w)
         | Inr ioattr \<Rightarrow>
             if v = [] then Panic IndexOutOfRange
             else let (ok, w) = c_alloc w
                  in bulk_insert rest (if ok then bulk @ [(ioattr, v)] else bulk) w)"

text \<open>
  \<^verbatim>\<open>ell_bulk_blobs_free\<close> of \<^verbatim>\<open>body.cpp\<close> evaluates \<^verbatim>\<open>attrs[0]->start\<close> before it deletes, which is
  undefined for an empty container. It is deferred, so it runs on every return.
\<close>

definition defer_bulk_free :: "blobs \<Rightarrow> 'a outcome \<Rightarrow> 'a outcome" where
  "defer_bulk_free bulk body = bindO body (\<lambda>r. if bulk = [] then Panic CUndefined else Done r)"

text \<open>
  \<^verbatim>\<open>std::string(p)\<close> of the bytes of a Go slice: they are not terminated, so without a NUL among
  them the constructor reads on past the slice.
\<close>

definition cpp_string :: "bytes \<Rightarrow> string outcome" where
  "cpp_string mem = (if 0 \<in> set mem then Done (c_string (string_of_bytes mem)) else Panic CUndefined)"

definition bulk_io :: "ell_lib \<Rightarrow> ell_io_attr \<Rightarrow> bulk_io_attr outcome" where
  "bulk_io L i =
     mapO (\<lambda>x. \<lparr>bio_start = ea_start i, bio_num = ea_num i, bio_user_flags = ea_user_flags i,
         bio_flags = ea_flags i, bio_offset = ea_offset i, bio_size = ea_size i, bio_id = x\<rparr>)
       (case ea_id i of
          None \<Rightarrow> Done None
        | Some mem \<Rightarrow> mapO (\<lambda>name. Some (take (DNET_ID_SIZE L) (key_transform L name))) (cpp_string mem))"

text \<open>\<^verbatim>\<open>session_bulk_write\<close> of \<^verbatim>\<open>session.cpp\<close>, which never sees the key array.\<close>

definition session_bulk_write :: "ell_lib \<Rightarrow> ptr \<Rightarrow> u64 \<Rightarrow> u64 \<Rightarrow> blobs \<Rightarrow> world \<Rightarrow> world outcome" where
  "session_bulk_write L s on_chunk_context final_context blobs w =
     bindO (mapM (bulk_io L) (map fst blobs)) (\<lambda>ios.
       c_request s (C_bulk_write ios (map snd blobs)) on_chunk_context final_context w)"

definition BulkWrite ::
    "ell_lib \<Rightarrow> Session \<Rightarrow> DnetIOAttr list \<Rightarrow> bytes list \<Rightarrow> world \<Rightarrow> (ptr \<times> world) outcome" where
  "BulkWrite L s attrs data w =
     (let (ok, w) = c_alloc w
      in if \<not> ok
         then makeLookuperChan (Some (EText ''not allocated memory for blobs containter'')) defaultVOLUME w
         else if length attrs \<noteq> length data
         then defer_bulk_free []
                (makeLookuperChan (Some (EText ''inconsistent input parametrs'')) defaultVOLUME w)
         else bindO (bulk_insert (zip attrs data) [] w) (\<lambda>((err, bulk), w).
           defer_bulk_free bulk
             (case err of
                Some e \<Rightarrow> makeLookuperChan (Some e) defaultVOLUME w
              | None \<Rightarrow>
                  (case NewKeys (map (\<lambda>a. string_of_bytes (IO_ID a)) attrs) w of
                     (Inl e, w) \<Rightarrow> makeLookuperChan (Some e) defaultVOLUME w
                   | (Inr keys, w) \<Rightarrow>
                       bindO (makeLookuperChan None defaultVOLUME w) (\<lambda>(responseCh, w).
                         let (onResultContext, w) = NextContext w;
                             (onFinishContext, w) = NextContext w;
                             w = Store onResultContext (FnLookup (BulkWriteRes responseCh keys)) w;
                             w = Store onFinishContext
                                   (FnFinal (BulkWriteFin responseCh keys onResultContext onFinishContext)) w
                         in mapO (Pair responseCh)
                              (session_bulk_write L (s_session s) onResultContext onFinishContext
                                 bulk w))))))"

text \<open>\<^verbatim>\<open>session_bulk_remove\<close> also switches the session's filter.\<close>

definition BulkRemove :: "Session \<Rightarrow> string list \<Rightarrow> world \<Rightarrow> (ptr \<times> world) outcome" where
  "BulkRemove s keys_str w =
     (let (responseCh, w) = make_chan defaultVOLUME w
      in case NewKeys keys_str w of
           (Inl err, w) \<Rightarrow>
             fail_chan responseCh (RemoveE (removeResult_err ''new keys allocation failed'' err)) w
         | (Inr keys, w) \<Rightarrow>
             let (onResultContext, w) = NextContext w;
                 (onFinishContext, w) = NextContext w;
                 w = Store onResultContext (FnRemove (BulkRemoveRes responseCh keys)) w;
                 w = Store onFinishContext
                       (FnFinal (BulkRemoveFin responseCh onResultContext onFinishContext)) w
             in mapO (Pair responseCh)
                  (steps [transform_keys keys,
                     sess_do (s_session s) Set_filter_all_with_ack,
                     c_request (s_session s) (C_bulk_remove (names_of keys w))
                       onResultContext onFinishContext] w))"

subsection \<open>Secondary indexes\<close>

definition findIndexes :: "ptr \<Rightarrow> world \<Rightarrow> (u64 \<times> u64) \<times> world" where
  "findIndexes responseCh w =
     (let (onResultContext, w) = NextContext w;
          (onFinishContext, w) = NextContext w;
          w = Store onResultContext (FnFind responseCh) w;
          w = Store onFinishContext
                (FnFinal (FindIndexesFin responseCh onResultContext onFinishContext)) w
      in ((onResultContext, onFinishContext), w))"

text \<open>Index names reach C++ as NUL-terminated strings; \<^verbatim>\<open>&cindexes[0]\<close> needs one.\<close>

definition FindAllIndexes :: "Session \<Rightarrow> string list \<Rightarrow> world \<Rightarrow> (ptr \<times> world) outcome" where
  "FindAllIndexes s indexes w =
     (let (responseCh, w) = make_chan defaultVOLUME w;
          ((onResult, onFinish), w) = findIndexes responseCh w
      in if indexes = [] then Panic IndexOutOfRange
         else mapO (Pair responseCh)
                (c_request (s_session s) (C_find_all_indexes (map c_string indexes)) onResult onFinish w))"

definition FindAnyIndexes :: "Session \<Rightarrow> string list \<Rightarrow> world \<Rightarrow> (ptr \<times> world) outcome" where
  "FindAnyIndexes s indexes w =
     (let (responseCh, w) = make_chan defaultVOLUME w;
          ((onResult, onFinish), w) = findIndexes responseCh w
      in if indexes = [] then Panic IndexOutOfRange
         else mapO (Pair responseCh)
                (c_request (s_session s) (C_find_any_indexes (map c_string indexes)) onResult onFinish w))"

datatype index_op = indexesSet | indexesUpdate

text \<open>
  The map of indexes is given in the order the \<^verbatim>\<open>range\<close> loop visits it. A key that cannot
  be made is a panic here, not an error on the channel.
\<close>

definition setOrUpdateIndexes ::
    "Session \<Rightarrow> index_op \<Rightarrow> string \<Rightarrow> (string \<times> string) list \<Rightarrow> world \<Rightarrow> (ptr \<times> world) outcome" where
  "setOrUpdateIndexes s operation key indexes w =
     (case NewKey [ArgString key] w of
        (Inl err, w) \<Rightarrow> Panic (PanicMsg (Error err))
      | (Inr ekey, w) \<Rightarrow>
          let (responseCh, w) = make_chan defaultVOLUME w;
              cindexes = map (\<lambda>(i, d). (c_string i, d)) indexes;
              (onResultContext, w) = NextContext w;
              (onFinishContext, w) = NextContext w;
              w = Store onResultContext FnNullary w;
              w = Store onFinishContext
                    (FnFinal (SetIndexesFin responseCh onResultContext onFinishContext)) w
          in if cindexes = [] then Panic IndexOutOfRange
             else defer_Free ekey (mapO (Pair responseCh)
                    (c_key_request (s_session s)
                       (\<lambda>k. case operation of
                          indexesSet \<Rightarrow> C_set_indexes k cindexes
                        | indexesUpdate \<Rightarrow> C_update_indexes k cindexes)
                       ekey onResultContext onFinishContext w)))"

definition SetIndexes ::
    "Session \<Rightarrow> string \<Rightarrow> (string \<times> string) list \<Rightarrow> world \<Rightarrow> (ptr \<times> world) outcome" where
  "SetIndexes s = setOrUpdateIndexes s indexesSet"

definition UpdateIndexes ::
    "Session \<Rightarrow> string \<Rightarrow> (string \<times> string) list \<Rightarrow> world \<Rightarrow> (ptr \<times> world) outcome" where
  "UpdateIndexes s = setOrUpdateIndexes s indexesUpdate"

definition ListIndexes :: "Session \<Rightarrow> string \<Rightarrow> world \<Rightarrow> (ptr \<times> world) outcome" where
  "ListIndexes s key w =
     (let (responseCh, w) = make_chan defaultVOLUME w
      in case NewKey [ArgString key] w of
           (Inl err, w) \<Rightarrow> Panic (PanicMsg (Error err))
         | (Inr ekey, w) \<Rightarrow>
             let (onResultContext, w) = NextContext w;
                 (onFinishContext, w) = NextContext w;
                 w = Store onResultContext (FnEntry responseCh) w;
                 w = Store onFinishContext
                       (FnFinal (ListIndexesFin responseCh onResultContext onFinishContext)) w
             in defer_Free ekey (mapO (Pair responseCh)
                  (c_key_request (s_session s) C_list_indexes ekey onResultContext onFinishContext w)))"

definition RemoveIndexes ::
    "Session \<Rightarrow> string \<Rightarrow> string list \<Rightarrow> world \<Rightarrow> (ptr \<times> world) outcome" where
  "RemoveIndexes s key indexes w =
     (case NewKey [ArgString key] w of
        (Inl err, w) \<Rightarrow> Panic (PanicMsg (Error err))
      | (Inr ekey, w) \<Rightarrow>
          let (responseCh, w) = make_chan defaultVOLUME w;
              (onResultContext, w) = NextContext w;
              (onFinishContext, w) = NextContext w;
              w = Store onResultContext FnNullary w;
              w = Store onFinishContext
                    (FnFinal (RemoveIndexesFin responseCh onResultContext onFinishContext)) w
          in if indexes = [] then Panic IndexOutOfRange
             else defer_Free ekey (mapO (Pair responseCh)
                    (c_key_request (s_session s) (\<lambda>k. C_remove_indexes k (map c_string indexes))
                       ekey onResultContext onFinishContext w)))"

subsection \<open>Route lookup\<close>

text \<open>\<^verbatim>\<open>LookupBackend\<close>: address and backend, or \<^verbatim>\<open>(nil, -1, err)\<close>.\<close>

definition LookupBackend ::
    "ell_lib \<Rightarrow> string \<Rightarrow> u32 \<Rightarrow> (DnetAddr option \<times> i32 \<times> error option) outcome" where
  "LookupBackend L key group_id =
     (let (cerr, caddr, cbackend_id) = dnet_lookup_addr L key group_id
      in if sint cerr < 0
         then Done (None, - 1, Some (EDnet
                \<lparr>Code = sint cerr, Flags = 0,
                 Message = ''could not lookup backend: key '' @ [CHR 0x27] @ key @ [CHR 0x27] @
                   '', group: '' @ dec_u64 group_id @ '': '' @ dec_i32 cerr\<rparr>))
         else mapO (\<lambda>addr. (Some addr, cbackend_id, None)) (NewDnetAddr caddr))"

subsection \<open>Backend requests: \<^verbatim>\<open>backend.go\<close>\<close>

text \<open>
  The seven requests differ in the C function only: one context, one closure that sends
  the single answer, closes and deletes.
\<close>

definition backend_request ::
    "ell_lib \<Rightarrow> Session \<Rightarrow> DnetAddr \<Rightarrow> (c_dnet_addr \<Rightarrow> c_fn) \<Rightarrow> world \<Rightarrow> (ptr \<times> world) outcome" where
  "backend_request L s addr fn w =
     (let (responseCh, w) = make_chan defaultVOLUME w;
          (context, w) = NextContext w;
          w = Store context (FnBackends responseCh context) w;
          tmp = CAddr L addr (dnet_addr_alloc L)
      in mapO (Pair responseCh) (c_request (s_session s) (fn tmp) context context w))"

definition BackendsStatus :: "ell_lib \<Rightarrow> Session \<Rightarrow> DnetAddr \<Rightarrow> world \<Rightarrow> (ptr \<times> world) outcome" where
  "BackendsStatus L s addr = backend_request L s addr C_backends_status"

definition BackendStartDefrag ::
    "ell_lib \<Rightarrow> Session \<Rightarrow> DnetAddr \<Rightarrow> i32 \<Rightarrow> world \<Rightarrow> (ptr \<times> world) outcome" where
  "BackendStartDefrag L s addr backend_id =
     backend_request L s addr (\<lambda>tmp. C_backend_start_defrag tmp backend_id)"

definition BackendEnable ::
    "ell_lib \<Rightarrow> Session \<Rightarrow> DnetAddr \<Rightarrow> i32 \<Rightarrow> world \<Rightarrow> (ptr \<times> world) outcome" where
  "BackendEnable L s addr backend_id =
     backend_request L s addr (\<lambda>tmp. C_backend_enable tmp backend_id)"

definition BackendDisable ::
    "ell_lib \<Rightarrow> Session \<Rightarrow> DnetAddr \<Rightarrow> i32 \<Rightarrow> world \<Rightarrow> (ptr \<times> world) outcome" where
  "BackendDisable L s addr backend_id =
     backend_request L s addr (\<lambda>tmp. C_backend_disable tmp backend_id)"

definition BackendMakeWritable ::
    "ell_lib \<Rightarrow> Session \<Rightarrow> DnetAddr \<Rightarrow> i32 \<Rightarrow> world \<Rightarrow> (ptr \<times> world) outcome" where
  "BackendMakeWritable L s addr backend_id =
     backend_request L s addr (\<lambda>tmp. C_backend_make_writable tmp backend_id)"

definition BackendMakeReadOnly ::
    "ell_lib \<Rightarrow> Session \<Rightarrow> DnetAddr \<Rightarrow> i32 \<Rightarrow> world \<Rightarrow> (ptr \<times> world) outcome" where
  "BackendMakeReadOnly L s addr backend_id =
     backend_request L s addr (\<lambda>tmp. C_backend_make_readonly tmp backend_id)"

definition BackendSetDelay ::
    "ell_lib \<Rightarrow> Session \<Rightarrow> DnetAddr \<Rightarrow> i32 \<Rightarrow> u32 \<Rightarrow> world \<Rightarrow> (ptr \<times> world) outcome" where
  "BackendSetDelay L s addr backend_id delay =
     backend_request L s addr (\<lambda>tmp. C_backend_set_delay tmp backend_id delay)"

end
