(* ===== verification/StatOps.thy ===== *)
theory StatOps
  imports SessionOps
begin

text \<open>
  The operations of a session that build statistics: \<^verbatim>\<open>GetRoutes\<close> of \<^verbatim>\<open>route.go\<close>, which puts
  the statistics into the pool while the client library reports its routes, and \<^verbatim>\<open>DnetStat\<close>
  of \<^verbatim>\<open>stat.go\<close>, which sends the monitoring request, reads the routes and then adds every
  entry it takes out of the channel. The routes of the library and the clock are arguments.
\<close>

section \<open>Definitions\<close>

unbundle bit_operations_syntax

text \<open>\<^verbatim>\<open>session_get_routes\<close> of \<^verbatim>\<open>route.cpp\<close>.\<close>

definition session_get_routes ::
    "ell_lib \<Rightarrow> go_time \<Rightarrow> c_route_entry list \<Rightarrow> ptr \<Rightarrow> u64 \<Rightarrow> world \<Rightarrow> world outcome" where
  "session_get_routes L now entries s context w =
     (if sessions w s = None then Panic CUndefined
      else steps (map (\<lambda>entry. go_route_callback L now entry context) entries) w)"

definition finalize_stat :: "ptr \<Rightarrow> world \<Rightarrow> world outcome" where
  "finalize_stat stat w =
     (case stats w stat of None \<Rightarrow> Panic NilPointer
      | Some st \<Rightarrow> mapO (\<lambda>st. w\<lparr>stats := (stats w)(stat \<mapsto> st)\<rparr>) (DnetStat_Finalize st))"

definition GetRoutes ::
    "ell_lib \<Rightarrow> go_time \<Rightarrow> c_route_entry list \<Rightarrow> Session \<Rightarrow> ptr \<Rightarrow> world \<Rightarrow> world outcome" where
  "GetRoutes L now entries s stat w =
     (let (context, w) = NextContext w;
          w = Store context (StatObj stat) w
      in steps [session_get_routes L now entries (s_session s) context,
                finalize_stat stat,
                delete_ctx context] w)"

definition stat_categories :: u64 where
  "stat_categories = StatCategoryBackend OR StatCategoryProcFS OR StatCategoryCommands"

text \<open>\<^verbatim>\<open>DnetStat\<close> up to its loop: the channel it will read and the statistics so far.\<close>

definition DnetStat_request ::
    "ell_lib \<Rightarrow> go_time \<Rightarrow> c_route_entry list \<Rightarrow> Session \<Rightarrow> world \<Rightarrow> (ptr \<times> ptr \<times> world) outcome" where
  "DnetStat_request L now entries s w =
     (let (response, w) = make_chan 10 w;
          (onResultContext, w) = NextContext w;
          (onFinishContext, w) = NextContext w;
          w = Store onResultContext (FnStat response) w;
          w = Store onFinishContext (FnFinal (StatFin response onResultContext onFinishContext)) w
      in bindO (c_request (s_session s) (C_get_stats stat_categories) onResultContext onFinishContext w) (\<lambda>w.
           let (st, w) = new_ptr w;
               w = w\<lparr>stats := (stats w)(st \<mapsto> DnetStat_new)\<rparr>
           in mapO (\<lambda>w. (response, st, w)) (GetRoutes L now entries s st w)))"

text \<open>The loop \<^verbatim>\<open>for se := range response\<close> over what the channel yields until it is closed.\<close>

fun DnetStat_loop ::
    "ell_lib \<Rightarrow> json_decoder \<Rightarrow> go_time \<Rightarrow> elem list \<Rightarrow> DnetStat \<Rightarrow> DnetStat outcome" where
  "DnetStat_loop L unmarshal now [] st = Done st"
| "DnetStat_loop L unmarshal now (StatE se # es) st =
     bindO (AddStatEntry L unmarshal now se st) (DnetStat_loop L unmarshal now es)"
| "DnetStat_loop L unmarshal now (_ # es) st = Panic TypeAssertion"

definition FindStatBackendKey ::
    "ell_lib \<Rightarrow> string \<Rightarrow> u32 \<Rightarrow> StatGroup \<Rightarrow> (error + StatBackend) outcome" where
  "FindStatBackendKey L key group_id sg =
     bindO (LookupBackend L key group_id) (\<lambda>(addr, backend_id, err).
       case err of
         Some e \<Rightarrow> Done (Inl (EDnet \<lparr>Code = - 2, Flags = 0,
             Message = ''could not find backend for key: '' @ key @ '', group: '' @ dec_u64 group_id @ '': '' @
               Error e\<rparr>))
       | None \<Rightarrow> (case addr of None \<Rightarrow> Panic NilPointer | Some a \<Rightarrow> FindStatBackend L a backend_id sg))"

end
