(* ===== verification/Requests.thy ===== *)
theory Requests
  imports StatOps
begin

text \<open>
  What a request in flight owns, and the invariant of the world. A request owns the
  contexts it stored, its response channel, its key array and the variables its closures
  share. The invariant says that every request in flight has what its callbacks will need
  (closures of the asserted types, an open channel, live objects), that no two requests
  share a resource, and that nothing is left over: each pool entry and each open channel
  belongs to a request in flight. Every transition of the program is an instance of
  \<open>transition\<close> or of \<open>similar\<close>, and both keep the invariant.
\<close>

section \<open>Definitions\<close>

subsection \<open>Resources of closures\<close>

datatype res = RCtx u64 | RChan ptr | RKeys ptr | RWc ptr

fun onResult_chan :: "onResultCallback option \<Rightarrow> ptr option" where
  "onResult_chan (Some (WriteKeyFinish ch)) = Some ch"
| "onResult_chan (Some (WriteCacheFinish ch)) = Some ch"
| "onResult_chan _ = None"

text \<open>Contexts of a request, from its final closure: result, final, and others.\<close>

fun fin_ctx :: "(ptr \<rightharpoonup> wchunk) \<Rightarrow> final_fn \<Rightarrow> u64 list" where
  "fin_ctx m (ReadKeyFin _ c1 c2) = [c1, c2]"
| "fin_ctx m (BulkReadFin _ _ c1 c2) = [c1, c2]"
| "fin_ctx m (WriteFin _ c1 c2 c3) = [c1, c2, c3]"
| "fin_ctx m (CacheFin _ c1 c2 c3) = [c1, c2, c3]"
| "fin_ctx m (WriteChunkFin p) =
     (case m p of None \<Rightarrow> [] | Some v \<Rightarrow> [wc_onChunk v, wc_onFinish v, wc_chunkctx v])"
| "fin_ctx m (LookupFin _ c1 c2) = [c1, c2]"
| "fin_ctx m (ParallelLookupFin _ c1 c2) = [c1, c2]"
| "fin_ctx m (RemoveKeyFin _ c1 c2) = [c1, c2]"
| "fin_ctx m (BulkWriteFin _ _ c1 c2) = [c1, c2]"
| "fin_ctx m (BulkRemoveFin _ c1 c2) = [c1, c2]"
| "fin_ctx m (FindIndexesFin _ c1 c2) = [c1, c2]"
| "fin_ctx m (SetIndexesFin _ c1 c2) = [c1, c2]"
| "fin_ctx m (ListIndexesFin _ c1 c2) = [c1, c2]"
| "fin_ctx m (RemoveIndexesFin _ c1 c2) = [c1, c2]"
| "fin_ctx m (StatFin _ c1 c2) = [c1, c2]"

fun fin_chan :: "(ptr \<rightharpoonup> wchunk) \<Rightarrow> final_fn \<Rightarrow> ptr option" where
  "fin_chan m (ReadKeyFin ch _ _) = Some ch"
| "fin_chan m (BulkReadFin ch _ _ _) = Some ch"
| "fin_chan m (WriteFin f _ _ _) = onResult_chan f"
| "fin_chan m (CacheFin f _ _ _) = onResult_chan f"
| "fin_chan m (WriteChunkFin p) = map_option wc_chan (m p)"
| "fin_chan m (LookupFin ch _ _) = Some ch"
| "fin_chan m (ParallelLookupFin ch _ _) = Some ch"
| "fin_chan m (RemoveKeyFin ch _ _) = Some ch"
| "fin_chan m (BulkWriteFin ch _ _ _) = Some ch"
| "fin_chan m (BulkRemoveFin ch _ _) = Some ch"
| "fin_chan m (FindIndexesFin ch _ _) = Some ch"
| "fin_chan m (SetIndexesFin ch _ _) = Some ch"
| "fin_chan m (ListIndexesFin ch _ _) = Some ch"
| "fin_chan m (RemoveIndexesFin ch _ _) = Some ch"
| "fin_chan m (StatFin ch _ _) = Some ch"

fun fin_keys :: "final_fn \<Rightarrow> ptr option" where
  "fin_keys (BulkReadFin _ ks _ _) = Some ks"
| "fin_keys (BulkWriteFin _ ks _ _) = Some ks"
| "fin_keys _ = None"

fun fin_wc :: "final_fn \<Rightarrow> ptr option" where
  "fin_wc (WriteChunkFin p) = Some p"
| "fin_wc _ = None"

text \<open>The key array a result closure uses (a bulk remove keeps it only there).\<close>

fun val_keys :: "goval \<Rightarrow> ptr option" where
  "val_keys (FnRead (BulkReadRes _ ks)) = Some ks"
| "val_keys (FnLookup (BulkWriteRes _ ks)) = Some ks"
| "val_keys (FnRemove (BulkRemoveRes _ ks)) = Some ks"
| "val_keys _ = None"

text \<open>Which closure under the result context goes with a final closure.\<close>

fun pair_ok :: "final_fn \<Rightarrow> goval \<Rightarrow> bool" where
  "pair_ok (ReadKeyFin ch _ _) v = (v = FnRead (ReadKeyRes ch))"
| "pair_ok (BulkReadFin ch ks _ _) v = (v = FnRead (BulkReadRes ch ks))"
| "pair_ok (WriteFin _ _ _ _) v = (\<exists>l. v = NamedLookup l)"
| "pair_ok (CacheFin _ _ _ _) v = (\<exists>l. v = NamedLookup l)"
| "pair_ok (WriteChunkFin p) v = (v = FnLookup (WriteChunkRes p))"
| "pair_ok (LookupFin ch _ _) v = (v = FnLookup (LookupRes ch))"
| "pair_ok (ParallelLookupFin ch _ _) v = (v = FnLookup (ParallelLookupRes ch))"
| "pair_ok (RemoveKeyFin ch _ _) v = (v = FnRemove (RemoveKeyRes ch))"
| "pair_ok (BulkWriteFin ch ks _ _) v = (v = FnLookup (BulkWriteRes ch ks))"
| "pair_ok (BulkRemoveFin ch _ _) v = (\<exists>ks. v = FnRemove (BulkRemoveRes ch ks))"
| "pair_ok (FindIndexesFin ch _ _) v = (v = FnFind ch)"
| "pair_ok (SetIndexesFin ch _ _) v = (v = FnNullary)"
| "pair_ok (ListIndexesFin ch _ _) v = (v = FnEntry ch)"
| "pair_ok (RemoveIndexesFin ch _ _) v = (v = FnNullary)"
| "pair_ok (StatFin ch _ _) v = (v = FnStat ch)"

text \<open>Which C function a final closure is used with.\<close>

fun fn_ok :: "final_fn \<Rightarrow> c_fn \<Rightarrow> bool" where
  "fn_ok (ReadKeyFin _ _ _) fn = (\<exists>k a b. fn = C_read_data k a b)"
| "fn_ok (BulkReadFin _ _ _ _) fn = (\<exists>ks. fn = C_bulk_read ks)"
| "fn_ok (WriteFin _ _ _ _) fn = (\<exists>k a b. fn = C_write_data k a b)"
| "fn_ok (CacheFin _ _ _ _) fn = (\<exists>k a b. fn = C_write_cache k a b)"
| "fn_ok (WriteChunkFin _) fn =
     ((\<exists>k a b d. fn = C_write_prepare k a b d) \<or> (\<exists>k a d. fn = C_write_plain k a d) \<or>
      (\<exists>k a b d. fn = C_write_commit k a b d))"
| "fn_ok (LookupFin _ _ _) fn = (\<exists>k. fn = C_lookup k)"
| "fn_ok (ParallelLookupFin _ _ _) fn = (\<exists>k. fn = C_parallel_lookup k)"
| "fn_ok (RemoveKeyFin _ _ _) fn = (\<exists>k. fn = C_remove k)"
| "fn_ok (BulkWriteFin _ _ _ _) fn = (\<exists>ios b. fn = C_bulk_write ios b)"
| "fn_ok (BulkRemoveFin _ _ _) fn = (\<exists>ks. fn = C_bulk_remove ks)"
| "fn_ok (FindIndexesFin _ _ _) fn =
     ((\<exists>ks. fn = C_find_all_indexes ks) \<or> (\<exists>ks. fn = C_find_any_indexes ks))"
| "fn_ok (SetIndexesFin _ _ _) fn =
     ((\<exists>k i. fn = C_set_indexes k i) \<or> (\<exists>k i. fn = C_update_indexes k i))"
| "fn_ok (ListIndexesFin _ _ _) fn = (\<exists>k. fn = C_list_indexes k)"
| "fn_ok (RemoveIndexesFin _ _ _) fn = (\<exists>k i. fn = C_remove_indexes k i)"
| "fn_ok (StatFin _ _ _) fn = (\<exists>cs. fn = C_get_stats cs)"

fun is_backend_fn :: "c_fn \<Rightarrow> bool" where
  "is_backend_fn (C_backends_status _) = True"
| "is_backend_fn (C_backend_start_defrag _ _) = True"
| "is_backend_fn (C_backend_enable _ _) = True"
| "is_backend_fn (C_backend_disable _ _) = True"
| "is_backend_fn (C_backend_make_writable _ _) = True"
| "is_backend_fn (C_backend_make_readonly _ _) = True"
| "is_backend_fn (C_backend_set_delay _ _ _) = True"
| "is_backend_fn _ = False"

subsection \<open>Requests\<close>

definition open_chan :: "world \<Rightarrow> ptr \<Rightarrow> bool" where
  "open_chan w p \<longleftrightarrow> (\<exists>c. chans w p = Some c \<and> \<not> ch_closed c)"

definition val_res :: "goval option \<Rightarrow> res set" where
  "val_res v = (case v of None \<Rightarrow> {} | Some v \<Rightarrow> RKeys ` set_option (val_keys v))"

definition fin_res :: "(ptr \<rightharpoonup> wchunk) \<Rightarrow> final_fn \<Rightarrow> res set" where
  "fin_res m f = RCtx ` set (fin_ctx m f) \<union> RChan ` set_option (fin_chan m f) \<union>
     RKeys ` set_option (fin_keys f) \<union> RWc ` set_option (fin_wc f)"

definition owns :: "world \<Rightarrow> ccall \<Rightarrow> res set" where
  "owns w c =
     (case pool w (call_final c) of
        Some (FnFinal f) \<Rightarrow> fin_res (wchunks w) f \<union> val_res (pool w (call_result c))
      | Some (FnBackends ch ctx) \<Rightarrow> {RChan ch, RCtx ctx}
      | _ \<Rightarrow> {})"

text \<open>What a request needs under its final closure \<open>f\<close>.\<close>

definition fin_call_ok :: "world \<Rightarrow> ccall \<Rightarrow> final_fn \<Rightarrow> bool" where
  "fin_call_ok w c f \<longleftrightarrow>
     fn_ok f (call_fn c) \<and>
     (\<exists>rest. fin_ctx (wchunks w) f = call_result c # call_final c # rest) \<and>
     distinct (fin_ctx (wchunks w) f) \<and>
     set (fin_ctx (wchunks w) f) \<subseteq> dom (pool w) \<and>
     (\<exists>v. pool w (call_result c) = Some v \<and> pair_ok f v \<and>
        (\<forall>ks. val_keys v = Some ks \<longrightarrow> ckeyss w ks \<noteq> None)) \<and>
     (\<forall>ch. fin_chan (wchunks w) f = Some ch \<longrightarrow> open_chan w ch) \<and>
     (\<forall>p. fin_wc f = Some p \<longrightarrow>
        (\<exists>v. wchunks w p = Some v \<and> wc_session v = call_session c))"

definition call_ok :: "world \<Rightarrow> ccall \<Rightarrow> bool" where
  "call_ok w c \<longleftrightarrow>
     sessions w (call_session c) \<noteq> None \<and>
     (case pool w (call_final c) of
        Some (FnFinal f) \<Rightarrow> fin_call_ok w c f
      | Some (FnBackends ch ctx) \<Rightarrow>
          is_backend_fn (call_fn c) \<and> ctx = call_final c \<and> call_result c = ctx \<and> open_chan w ch
      | _ \<Rightarrow> False)"

text \<open>Every object lies below the allocation pointer.\<close>

definition ptrs_ok :: "world \<Rightarrow> bool" where
  "ptrs_ok w \<longleftrightarrow>
     (\<forall>p \<ge> next_ptr w. chans w p = None \<and> ckeys w p = None \<and> ckeyss w p = None \<and>
        sessions w p = None \<and> wchunks w p = None)"

definition all_owned :: "world \<Rightarrow> res set" where
  "all_owned w = (\<Union>c \<in> set (inflight w). owns w c)"

definition inv :: "world \<Rightarrow> bool" where
  "inv w \<longleftrightarrow>
     pool_wf w \<and> ptrs_ok w \<and>
     (\<forall>c \<in> set (inflight w). call_ok w c) \<and>
     distinct (inflight w) \<and>
     (\<forall>c \<in> set (inflight w). \<forall>d \<in> set (inflight w). c \<noteq> d \<longrightarrow> owns w c \<inter> owns w d = {}) \<and>
     (\<forall>k \<in> dom (pool w). RCtx k \<in> all_owned w) \<and>
     (\<forall>p. open_chan w p \<longrightarrow> RChan p \<in> all_owned w)"

subsection \<open>Transitions\<close>

definition fresh_res :: "world \<Rightarrow> res set" where
  "fresh_res w = RCtx ` {k. \<not> issued k w} \<union>
     RChan ` {next_ptr w ..} \<union> RKeys ` {next_ptr w ..} \<union> RWc ` {next_ptr w ..}"

text \<open>Nothing changes but the resources \<open>R\<close>.\<close>

definition only :: "res set \<Rightarrow> world \<Rightarrow> world \<Rightarrow> bool" where
  "only R w w' \<longleftrightarrow>
     (\<forall>k. RCtx k \<notin> R \<longrightarrow> pool w' k = pool w k) \<and>
     (\<forall>p. RChan p \<notin> R \<longrightarrow> chans w' p = chans w p) \<and>
     (\<forall>p. RKeys p \<notin> R \<longrightarrow> ckeyss w' p = ckeyss w p) \<and>
     (\<forall>p. RWc p \<notin> R \<longrightarrow> wchunks w' p = wchunks w p) \<and>
     (\<forall>s. sessions w s \<noteq> None \<longrightarrow> sessions w' s \<noteq> None)"

text \<open>
  The requests \<open>gone\<close> leave and \<open>new\<close> arrive; what changes belongs to \<open>gone\<close> or is fresh, and
  what is left of it belongs to \<open>new\<close>.
\<close>

definition touched :: "ccall list \<Rightarrow> world \<Rightarrow> res set" where
  "touched gone w = (\<Union>c \<in> set gone. owns w c) \<union> fresh_res w"

definition transition :: "ccall list \<Rightarrow> ccall list \<Rightarrow> world \<Rightarrow> world \<Rightarrow> bool" where
  "transition gone new w w' \<longleftrightarrow>
     (let R = touched gone w in
     set gone \<subseteq> set (inflight w) \<and>
     inflight w' = filter (\<lambda>c. c \<notin> set gone) (inflight w) @ new \<and>
     only R w w' \<and>
     length new \<le> 1 \<and>
     (\<forall>n \<in> set new. call_ok w' n \<and> owns w' n \<subseteq> R) \<and>
     (\<forall>k. RCtx k \<in> R \<longrightarrow> pool w' k \<noteq> None \<longrightarrow> (\<exists>n \<in> set new. RCtx k \<in> owns w' n)) \<and>
     (\<forall>p. RChan p \<in> R \<longrightarrow> open_chan w' p \<longrightarrow> (\<exists>n \<in> set new. RChan p \<in> owns w' n)) \<and>
     pool_wf w' \<and> ptrs_ok w')"

text \<open>The objects that were there are kept, whatever was added.\<close>

definition heap_ext :: "world \<Rightarrow> world \<Rightarrow> bool" where
  "heap_ext w w' \<longleftrightarrow>
     next_ptr w \<le> next_ptr w' \<and> ptrs_ok w' \<and>
     (\<forall>p < next_ptr w. chans w' p = chans w p \<and> ckeyss w' p = ckeyss w p \<and> wchunks w' p = wchunks w p) \<and>
     (\<forall>s. sessions w s \<noteq> None \<longrightarrow> sessions w' s \<noteq> None)"

text \<open>The invariant holds and everything that was there is kept: objects, contexts, requests.\<close>

definition extends :: "world \<Rightarrow> world \<Rightarrow> bool" where
  "extends w w' \<longleftrightarrow>
     inv w' \<and> heap_ext w w' \<and> counter w \<le> counter w' \<and>
     (\<forall>k. issued k w \<longrightarrow> pool w' k = pool w k) \<and> set (inflight w) \<subseteq> set (inflight w')"

text \<open>Worlds that differ in channel contents and in what no request in flight looks at.\<close>

definition similar :: "world \<Rightarrow> world \<Rightarrow> bool" where
  "similar w w' \<longleftrightarrow>
     pool w' = pool w \<and> pool_wf w' \<and> wchunks w' = wchunks w \<and> ckeyss w' = ckeyss w \<and>
     inflight w' = inflight w \<and> ptrs_ok w' \<and>
     (\<forall>p. open_chan w' p = open_chan w p) \<and>
     (\<forall>c \<in> set (inflight w). sessions w (call_session c) \<noteq> None \<longrightarrow>
        sessions w' (call_session c) \<noteq> None)"

section \<open>Lemmas\<close>

lemma all_ownedI: "c \<in> set (inflight w) \<Longrightarrow> r \<in> owns w c \<Longrightarrow> r \<in> all_owned w"
  by (auto simp: all_owned_def)

lemma invD:
  assumes "inv w"
  shows "pool_wf w" "ptrs_ok w" "c \<in> set (inflight w) \<Longrightarrow> call_ok w c" "distinct (inflight w)"
    and "c \<in> set (inflight w) \<Longrightarrow> d \<in> set (inflight w) \<Longrightarrow> c \<noteq> d \<Longrightarrow> owns w c \<inter> owns w d = {}"
    and "pool w k = Some v \<Longrightarrow> RCtx k \<in> all_owned w"
    and "open_chan w p \<Longrightarrow> RChan p \<in> all_owned w"
  using assms unfolding inv_def by blast+

lemma open_chanI: "chans w p = Some c \<Longrightarrow> \<not> ch_closed c \<Longrightarrow> open_chan w p"
  by (auto simp: open_chan_def)

lemma owns_final: "call_ok w c \<Longrightarrow> RCtx (call_final c) \<in> owns w c"
  by (auto simp: call_ok_def owns_def fin_call_ok_def fin_res_def split: option.splits goval.splits)

lemma owns_result: "call_ok w c \<Longrightarrow> RCtx (call_result c) \<in> owns w c"
  by (auto simp: call_ok_def owns_def fin_call_ok_def fin_res_def split: option.splits goval.splits)

lemma fin_ctx_cong: "(\<And>p. fin_wc f = Some p \<Longrightarrow> m p = m' p) \<Longrightarrow> fin_ctx m f = fin_ctx m' f"
  by (cases f) auto

lemma fin_chan_cong: "(\<And>p. fin_wc f = Some p \<Longrightarrow> m p = m' p) \<Longrightarrow> fin_chan m f = fin_chan m' f"
  by (cases f) auto

lemma onlyD:
  assumes "only R w w'"
  shows "RCtx k \<notin> R \<Longrightarrow> pool w' k = pool w k" "RChan p \<notin> R \<Longrightarrow> chans w' p = chans w p"
    and "RKeys p \<notin> R \<Longrightarrow> ckeyss w' p = ckeyss w p" "RWc p \<notin> R \<Longrightarrow> wchunks w' p = wchunks w p"
    and "sessions w s \<noteq> None \<Longrightarrow> sessions w' s \<noteq> None"
  using assms unfolding only_def by blast+

lemma only_open_chan: "only R w w' \<Longrightarrow> RChan p \<notin> R \<Longrightarrow> open_chan w' p = open_chan w p"
  by (simp add: open_chan_def onlyD(2))

lemma fin_callD:
  assumes "fin_call_ok w c f"
  shows "fn_ok f (call_fn c)" "\<exists>rest. fin_ctx (wchunks w) f = call_result c # call_final c # rest"
    and "distinct (fin_ctx (wchunks w) f)"
    and "k \<in> set (fin_ctx (wchunks w) f) \<Longrightarrow> pool w k \<noteq> None"
    and "\<exists>v. pool w (call_result c) = Some v \<and> pair_ok f v"
    and "pool w (call_result c) = Some v \<Longrightarrow> pair_ok f v"
    and "pool w (call_result c) = Some v \<Longrightarrow> val_keys v = Some ks \<Longrightarrow> ckeyss w ks \<noteq> None"
    and "fin_chan (wchunks w) f = Some ch \<Longrightarrow> open_chan w ch"
    and "fin_wc f = Some p \<Longrightarrow> \<exists>v. wchunks w p = Some v \<and> wc_session v = call_session c"
  using assms unfolding fin_call_ok_def by auto

lemma fin_resI:
  "k \<in> set (fin_ctx m f) \<Longrightarrow> RCtx k \<in> fin_res m f"
  "fin_chan m f = Some p \<Longrightarrow> RChan p \<in> fin_res m f"
  "fin_wc f = Some p \<Longrightarrow> RWc p \<in> fin_res m f"
  by (auto simp: fin_res_def)

lemma owns_FnFinal:
  "pool w (call_final c) = Some (FnFinal f) \<Longrightarrow>
   owns w c = fin_res (wchunks w) f \<union> val_res (pool w (call_result c))"
  by (simp add: owns_def)

lemma owns_FnBackends:
  "pool w (call_final c) = Some (FnBackends ch ctx) \<Longrightarrow> owns w c = {RChan ch, RCtx ctx}"
  by (simp add: owns_def)

lemma call_ok_cases:
  assumes "call_ok w c"
  obtains (final) f where "pool w (call_final c) = Some (FnFinal f)" "fin_call_ok w c f"
  | (backend) ch where "pool w (call_final c) = Some (FnBackends ch (call_final c))"
      "is_backend_fn (call_fn c)" "call_result c = call_final c" "open_chan w ch"
  using assms by (auto simp: call_ok_def split: option.splits goval.splits)

lemma call_ok_final:
  assumes "sessions w (call_session c) \<noteq> None"
    and "pool w (call_final c) = Some (FnFinal f)" "fin_call_ok w c f"
  shows "call_ok w c"
  using assms by (simp add: call_ok_def)

lemma call_ok_backend:
  assumes "sessions w (call_session c) \<noteq> None"
    and "pool w (call_final c) = Some (FnBackends ch (call_final c))"
    and "is_backend_fn (call_fn c)" "call_result c = call_final c" "open_chan w ch"
  shows "call_ok w c"
  using assms by (simp add: call_ok_def)

lemma call_ok_session: "call_ok w c \<Longrightarrow> sessions w (call_session c) \<noteq> None"
  by (simp add: call_ok_def)

text \<open>A request is not affected by changes to resources it does not own.\<close>

lemma frame_final:
  assumes ok: "fin_call_ok w c f" and f: "pool w (call_final c) = Some (FnFinal f)"
    and only: "only R w w'" and disj: "owns w c \<inter> R = {}"
    and res: "pool w' (call_result c) = pool w (call_result c)"
  shows "fin_call_ok w' c f \<and> fin_res (wchunks w') f = fin_res (wchunks w) f"
proof -
  have own: "fin_res (wchunks w) f \<inter> R = {}" "val_res (pool w (call_result c)) \<inter> R = {}"
    using disj owns_FnFinal[of w c f] f by auto
  have wc: "wchunks w' p = wchunks w p" if "fin_wc f = Some p" for p
    using own(1) fin_resI(3)[OF that] onlyD(4)[OF only] by blast
  have ctx: "fin_ctx (wchunks w') f = fin_ctx (wchunks w) f"
    and ch: "fin_chan (wchunks w') f = fin_chan (wchunks w) f"
    using fin_ctx_cong[of f "wchunks w'" "wchunks w"] fin_chan_cong[of f "wchunks w'" "wchunks w"] wc
    by simp_all
  have same: "pool w' k = pool w k" if "k \<in> set (fin_ctx (wchunks w) f)" for k
    using own(1) fin_resI(1)[OF that] onlyD(1)[OF only] by blast
  have "set (fin_ctx (wchunks w) f) \<subseteq> dom (pool w')"
    using same fin_callD(4)[OF ok] by (auto simp: domIff)
  moreover have "open_chan w' p" if "fin_chan (wchunks w) f = Some p" for p
    using own(1) fin_resI(2)[OF that] only_open_chan[OF only] fin_callD(8)[OF ok that] by blast
  moreover have "ckeyss w' ks \<noteq> None"
    if "pool w (call_result c) = Some u" "val_keys u = Some ks" for u ks
  proof -
    have "RKeys ks \<notin> R" using own(2) that by (auto simp: val_res_def)
    then show ?thesis using fin_callD(7)[OF ok that] onlyD(3)[OF only] by simp
  qed
  ultimately have "fin_call_ok w' c f"
    unfolding fin_call_ok_def ctx ch res using fin_callD[OF ok] wc by metis
  then show ?thesis by (simp add: fin_res_def ctx ch)
qed

lemma frame:
  assumes "call_ok w c" and "only R w w'" and "owns w c \<inter> R = {}"
  shows "call_ok w' c \<and> owns w' c = owns w c"
proof -
  have fin: "pool w' (call_final c) = pool w (call_final c)"
    and res: "pool w' (call_result c) = pool w (call_result c)"
    using assms owns_final owns_result onlyD(1)[OF assms(2)] by blast+
  have sess: "sessions w' (call_session c) \<noteq> None"
    using onlyD(5)[OF assms(2)] call_ok_session[OF assms(1)] by blast
  from assms(1) show ?thesis
  proof (cases rule: call_ok_cases)
    case (final f)
    note fr = frame_final[OF final(2,1) assms(2,3) res]
    show ?thesis
      using call_ok_final[of w' c f] fr sess final(1) fin res by (simp add: owns_FnFinal)
  next
    case (backend ch)
    have "open_chan w' ch"
      using backend assms(3) only_open_chan[OF assms(2)] by (simp add: owns_FnBackends)
    then show ?thesis
      using call_ok_backend[of w' c ch] backend sess fin by (simp add: owns_FnBackends)
  qed
qed

lemma fin_keys_live:
  assumes "fin_call_ok w c f" "fin_keys f = Some ks"
  shows "ckeyss w ks \<noteq> None"
proof -
  obtain v where v: "pool w (call_result c) = Some v" "pair_ok f v" using fin_callD(5)[OF assms(1)] by auto
  then have "val_keys v = Some ks" using assms(2) by (cases f) auto
  then show ?thesis using fin_callD(7)[OF assms(1) v(1)] by blast
qed

text \<open>Everything a request owns is live.\<close>

lemma owns_live:
  assumes "call_ok w c" "r \<in> owns w c"
  shows "(\<exists>k. r = RCtx k \<and> pool w k \<noteq> None) \<or> (\<exists>p. r = RChan p \<and> open_chan w p) \<or>
    (\<exists>p. r = RKeys p \<and> ckeyss w p \<noteq> None) \<or> (\<exists>p. r = RWc p \<and> wchunks w p \<noteq> None)"
  using assms(1)
proof (cases rule: call_ok_cases)
  case (final f)
  note D = fin_callD[OF final(2)]
  consider (fin) "r \<in> fin_res (wchunks w) f" | (val) "r \<in> val_res (pool w (call_result c))"
    using assms(2) owns_FnFinal[of w c f] final(1) by auto
  then show ?thesis
  proof cases
    case fin
    then show ?thesis
      using D(4) D(8) D(9) fin_keys_live[OF final(2)] unfolding fin_res_def by (auto simp: image_iff)
  next
    case val
    then show ?thesis using D(7) by (auto simp: val_res_def split: option.splits)
  qed
next
  case (backend ch)
  then show ?thesis using assms(2) by (auto simp: owns_FnBackends)
qed

lemma live_not_fresh:
  assumes "pool_wf w" "ptrs_ok w"
  shows "pool w k \<noteq> None \<Longrightarrow> RCtx k \<notin> fresh_res w" "open_chan w p \<Longrightarrow> RChan p \<notin> fresh_res w"
    and "ckeyss w p \<noteq> None \<Longrightarrow> RKeys p \<notin> fresh_res w" "wchunks w p \<noteq> None \<Longrightarrow> RWc p \<notin> fresh_res w"
  using assms by (auto simp: fresh_res_def pool_wf_def ptrs_ok_def open_chan_def)

lemma owns_not_fresh:
  assumes "inv w" "c \<in> set (inflight w)"
  shows "owns w c \<inter> fresh_res w = {}"
  using owns_live[OF invD(3)[OF assms]] live_not_fresh[OF invD(1,2)[OF assms(1)]] by blast

lemma transitionD:
  assumes "transition gone new w w'"
  shows "set gone \<subseteq> set (inflight w)" "only (touched gone w) w w'"
    and "inflight w' = filter (\<lambda>c. c \<notin> set gone) (inflight w) @ new" "length new \<le> 1"
    and "n \<in> set new \<Longrightarrow> call_ok w' n" "n \<in> set new \<Longrightarrow> owns w' n \<subseteq> touched gone w"
    and "RCtx k \<in> touched gone w \<Longrightarrow> pool w' k \<noteq> None \<Longrightarrow> \<exists>n \<in> set new. RCtx k \<in> owns w' n"
    and "RChan p \<in> touched gone w \<Longrightarrow> open_chan w' p \<Longrightarrow> \<exists>n \<in> set new. RChan p \<in> owns w' n"
    and "pool_wf w'" "ptrs_ok w'"
  using assms unfolding transition_def Let_def by blast+

theorem transition_inv:
  assumes "inv w" and "transition gone new w w'"
  shows "inv w'"
proof -
  define R where "R = touched gone w"
  define kept where "kept = filter (\<lambda>c. c \<notin> set gone) (inflight w)"
  note D = transitionD[OF assms(2), folded R_def, folded kept_def]
  note gone = D(1) and only = D(2) and infl = D(3) and len = D(4) and ctxs = D(7) and opens = D(8)
    and wf = D(9,10)
  have new: "call_ok w' n \<and> owns w' n \<subseteq> R" if "n \<in> set new" for n
    using D(5,6) that by blast
  have keptD: "c \<in> set (inflight w)" "c \<notin> set gone" if "c \<in> set kept" for c
    using that by (auto simp: kept_def)
  have disj: "owns w c \<inter> R = {}" if "c \<in> set kept" for c
    using keptD[OF that] gone invD(5)[OF assms(1)] owns_not_fresh[OF assms(1)]
    unfolding R_def touched_def by blast
  have keep: "call_ok w' c \<and> owns w' c = owns w c" if "c \<in> set kept" for c
    using frame[OF invD(3)[OF assms(1) keptD(1)[OF that]] only disj[OF that]] .
  have own_kept: "owns w' c \<inter> R = {}" if "c \<in> set kept" for c
    using keep disj that by simp
  have "RCtx k \<in> all_owned w'" if k: "pool w' k = Some v" for k v
  proof (cases "RCtx k \<in> R")
    case True
    then show ?thesis using ctxs k infl by (auto simp: all_owned_def)
  next
    case False
    then have "pool w k = Some v" using only k by (simp add: only_def)
    then obtain c where "c \<in> set (inflight w)" "RCtx k \<in> owns w c"
      using invD(6)[OF assms(1)] by (auto simp: all_owned_def)
    then have "c \<in> set kept" "RCtx k \<in> owns w c" using False unfolding R_def touched_def kept_def by auto
    then show ?thesis using keep infl by (auto simp: all_owned_def)
  qed
  moreover have "RChan p \<in> all_owned w'" if p: "open_chan w' p" for p
  proof (cases "RChan p \<in> R")
    case True
    then show ?thesis using opens p infl by (auto simp: all_owned_def)
  next
    case False
    then have "open_chan w p" using only p by (simp add: only_def open_chan_def)
    then obtain c where "c \<in> set (inflight w)" "RChan p \<in> owns w c"
      using invD(7)[OF assms(1)] by (auto simp: all_owned_def)
    then have "c \<in> set kept" "RChan p \<in> owns w c" using False unfolding R_def touched_def kept_def by auto
    then show ?thesis using keep infl by (auto simp: all_owned_def)
  qed
  moreover have nd: "n \<notin> set kept" if "n \<in> set new" for n
    using that new[OF that] owns_final own_kept by blast
  moreover have "distinct (inflight w')"
    using invD(4)[OF assms(1)] len nd unfolding infl kept_def
    by (cases new) (auto simp: le_Suc_eq)
  moreover have "owns w' c \<inter> owns w' d = {}"
    if cd: "c \<in> set (inflight w')" "d \<in> set (inflight w')" "c \<noteq> d" for c d
  proof -
    have two: "c \<in> set new \<Longrightarrow> d \<in> set new \<Longrightarrow> False"
      using len that(3) by (cases new) (auto simp: le_Suc_eq)
    consider "c \<in> set kept" "d \<in> set kept" | "c \<in> set kept" "d \<in> set new"
      | "c \<in> set new" "d \<in> set kept"
      using cd two infl by auto
    then show ?thesis
    proof cases
      case 1
      then show ?thesis using keep keptD(1) invD(5)[OF assms(1), of c d] that(3) by simp
    next
      case 2
      then show ?thesis using own_kept[of c] new[of d] by blast
    next
      case 3
      then show ?thesis using own_kept[of d] new[of c] by blast
    qed
  qed
  moreover have "call_ok w' c" if "c \<in> set (inflight w')" for c
    using that keep new infl by auto
  ultimately show ?thesis
    unfolding inv_def using wf by (auto simp: dom_def)
qed

lemma similarD:
  assumes "similar w w'"
  shows "pool w' = pool w" "pool_wf w'" "wchunks w' = wchunks w" "ckeyss w' = ckeyss w"
    and "inflight w' = inflight w" "ptrs_ok w'" "open_chan w' p = open_chan w p"
    and "c \<in> set (inflight w) \<Longrightarrow> sessions w (call_session c) \<noteq> None \<Longrightarrow>
      sessions w' (call_session c) \<noteq> None"
  using assms unfolding similar_def by blast+

lemma similar_owns: "similar w w' \<Longrightarrow> owns w' c = owns w c"
  unfolding owns_def by (simp only: similarD(1,3))

lemma similar_call_ok:
  assumes "similar w w'" "call_ok w c" "c \<in> set (inflight w)"
  shows "call_ok w' c"
  using assms(2) similarD(8)[OF assms(1,3)]
  unfolding call_ok_def fin_call_ok_def similarD(1,3,4,7)[OF assms(1)] by blast

theorem similar_inv:
  assumes "inv w" and "similar w w'"
  shows "inv w'"
proof -
  note D = similarD[OF assms(2)]
  have own: "owns w' c = owns w c" for c using similar_owns[OF assms(2)] .
  then have "all_owned w' = all_owned w" by (simp add: all_owned_def D(5))
  moreover have "call_ok w' c" if "c \<in> set (inflight w)" for c
    using similar_call_ok[OF assms(2) invD(3)[OF assms(1) that] that] .
  ultimately show ?thesis
    using assms(1) D(2,6) unfolding inv_def own D(1,5,7) by blast
qed

subsection \<open>How operations change the world\<close>

lemma touched_Nil [simp]: "touched [] w = fresh_res w"
  by (simp add: touched_def)

lemma fresh_res_iff [simp]:
  "RCtx k \<in> fresh_res w \<longleftrightarrow> \<not> issued k w" "RChan p \<in> fresh_res w \<longleftrightarrow> next_ptr w \<le> p"
  "RKeys p \<in> fresh_res w \<longleftrightarrow> next_ptr w \<le> p" "RWc p \<in> fresh_res w \<longleftrightarrow> next_ptr w \<le> p"
  by (auto simp: fresh_res_def)

lemma only_mono: "only R w w' \<Longrightarrow> R \<subseteq> S \<Longrightarrow> only S w w'"
  unfolding only_def by blast

lemma only_fresh:
  assumes "heap_ext w w'" "\<And>k. issued k w \<Longrightarrow> pool w' k = pool w k"
  shows "only (fresh_res w) w w'"
  using assms unfolding only_def heap_ext_def by (simp add: not_le)

text \<open>An operation that starts no request.\<close>

lemma quiet:
  assumes "inv w" "heap_ext w w'" "pool w' = pool w" "counter w' = counter w \<or> pool_wf w'"
    and "inflight w' = inflight w" "\<And>p. next_ptr w \<le> p \<Longrightarrow> \<not> open_chan w' p"
  shows "transition [] [] w w'"
proof -
  have "pool_wf w'" using assms(3,4) invD(1)[OF assms(1)] by (auto simp: pool_wf_def issued_def)
  moreover have "pool w k = None" if "\<not> issued k w" for k
    using invD(1)[OF assms(1)] that by (auto simp: pool_wf_def)
  ultimately show ?thesis
    using assms only_fresh[OF assms(2)] unfolding transition_def Let_def by (simp add: heap_ext_def)
qed

text \<open>An operation that starts a request with the final closure \<open>f\<close>.\<close>

lemma opens:
  assumes "inv w" "heap_ext w w'" "pool_wf w'"
    and infl: "inflight w' = inflight w @ [c]"
    and sess: "sessions w' (call_session c) \<noteq> None"
    and fin: "pool w' (call_final c) = Some (FnFinal f)" and ok: "fin_call_ok w' c f"
    and keep: "\<And>k. issued k w \<Longrightarrow> pool w' k = pool w k"
    and ctx: "\<And>k. k \<in> set (fin_ctx (wchunks w') f) \<Longrightarrow> \<not> issued k w"
    and all: "\<And>k. \<not> issued k w \<Longrightarrow> pool w' k \<noteq> None \<Longrightarrow> k \<in> set (fin_ctx (wchunks w') f)"
    and ch: "\<And>p. fin_chan (wchunks w') f = Some p \<Longrightarrow> next_ptr w \<le> p"
    and chs: "\<And>p. next_ptr w \<le> p \<Longrightarrow> open_chan w' p \<Longrightarrow> fin_chan (wchunks w') f = Some p"
    and ks: "\<And>p. fin_keys f = Some p \<Longrightarrow> next_ptr w \<le> p"
    and vks: "\<And>v p. pool w' (call_result c) = Some v \<Longrightarrow> val_keys v = Some p \<Longrightarrow> next_ptr w \<le> p"
    and wc: "\<And>p. fin_wc f = Some p \<Longrightarrow> next_ptr w \<le> p"
  shows "transition [] [c] w w'"
proof -
  have own: "owns w' c = fin_res (wchunks w') f \<union> val_res (pool w' (call_result c))"
    using owns_FnFinal[OF fin] .
  have "fin_res (wchunks w') f \<subseteq> fresh_res w"
    using ctx ch ks wc by (auto simp: fin_res_def)
  moreover have "val_res (pool w' (call_result c)) \<subseteq> fresh_res w"
    using vks by (auto simp: val_res_def split: option.splits)
  ultimately have "owns w' c \<subseteq> fresh_res w" using own by blast
  moreover have "RCtx k \<in> owns w' c" if "\<not> issued k w" "pool w' k \<noteq> None" for k
    using all[OF that] own fin_resI(1) by blast
  moreover have "RChan p \<in> owns w' c" if "next_ptr w \<le> p" "open_chan w' p" for p
    using chs[OF that] own fin_resI(2) by blast
  ultimately show ?thesis
    using assms(2,3) infl call_ok_final[OF sess fin ok] only_fresh[OF assms(2) keep]
    unfolding transition_def Let_def by (simp add: heap_ext_def)
qed

text \<open>A final callback that drops everything its request owns.\<close>

lemma closes:
  assumes "inv w" "c \<in> set (inflight w)"
    and "inflight w' = filter (\<lambda>d. d \<noteq> c) (inflight w)"
    and only: "only (owns w c) w w'"
    and ctx: "\<And>k. RCtx k \<in> owns w c \<Longrightarrow> pool w' k = None"
    and ch: "\<And>p. RChan p \<in> owns w c \<Longrightarrow> \<not> open_chan w' p"
    and "counter w' = counter w" "ptrs_ok w'" "next_ptr w' = next_ptr w"
  shows "transition [c] [] w w'"
proof -
  have wf: "pool_wf w" using invD(1)[OF assms(1)] .
  have sub: "pool w' k = pool w k \<or> pool w' k = None" for k
    using onlyD(1)[OF only, of k] ctx[of k] by (cases "RCtx k \<in> owns w c") simp_all
  have "pool_wf w'"
    using wf sub assms(7) unfolding pool_wf_def issued_def by (metis domIff)
  moreover have "only (touched [c] w) w w'"
    using only_mono[OF only] by (simp add: touched_def)
  moreover have "pool w' k = None" if "RCtx k \<in> touched [c] w" for k
    using that ctx sub[of k] wf unfolding touched_def pool_wf_def by auto
  moreover have "\<not> open_chan w' p" if "RChan p \<in> touched [c] w" for p
    using that ch assms(8,9) by (auto simp: touched_def ptrs_ok_def open_chan_def)
  ultimately show ?thesis
    using assms(2,3,8) unfolding transition_def Let_def by simp
qed

lemma heap_ext_trans: "heap_ext w w1 \<Longrightarrow> heap_ext w1 w2 \<Longrightarrow> heap_ext w w2"
  unfolding heap_ext_def by auto

lemma extends_trans:
  assumes "extends w w1" "extends w1 w2"
  shows "extends w w2"
proof -
  have "issued k w1" if "issued k w" for k
    using that assms(1) by (auto simp: extends_def issued_def)
  then show ?thesis
    using assms heap_ext_trans[of w w1 w2] unfolding extends_def by auto
qed

lemma extends_inv: "extends w w' \<Longrightarrow> inv w'"
  by (simp add: extends_def)

lemma extends_refl: "inv w \<Longrightarrow> extends w w"
  using invD(2)[of w] by (simp add: extends_def heap_ext_def)

end
