(* ===== verification/Starts.thy ===== *)
theory Starts
  imports Requests
begin

text \<open>
  The operations of a session keep the invariant of theory \<open>Requests\<close>: an operation that
  starts a request leaves exactly one more request in flight, which owns the contexts,
  the channel and the objects the operation made; one that fails early leaves a closed
  channel and nothing in the pool.
\<close>

section \<open>Definitions\<close>

text \<open>The variables of a chunked write when its first request is sent.\<close>

definition first_chunk ::
    "Session \<Rightarrow> string \<Rightarrow> reader \<Rightarrow> bytes \<Rightarrow> u64 \<Rightarrow> u64 \<Rightarrow> world \<Rightarrow> wchunk" where
  "first_chunk s key input bs off sz w =
     \<lparr>wc_session = s_session s, wc_key = key, wc_input = input,
      wc_total = sz - of_nat (length bs), wc_offset = off + of_nat (length bs), wc_n64 = of_nat (length bs),
      wc_chan = next_ptr w, wc_onChunk = counter w + 1, wc_onFinish = counter w + 1 + 1,
      wc_chunkctx = counter w + 1 + 1 + 1\<rparr>"

section \<open>Lemmas\<close>

subsection \<open>Contexts of one request\<close>

lemma room_mono: "room n w \<Longrightarrow> m \<le> n \<Longrightarrow> room m w"
  by (simp add: room_def)

lemma ctx_unat:
  assumes "room 3 w"
  shows "unat (counter w + 1) = unat (counter w) + 1" "unat (counter w + 1 + 1) = unat (counter w) + 2"
    and "unat (counter w + 1 + 1 + 1) = unat (counter w) + 3"
proof -
  show 1: "unat (counter w + 1) = unat (counter w) + 1"
    using assms by (intro unat_Suc_small) (simp add: room_def)
  show 2: "unat (counter w + 1 + 1) = unat (counter w) + 2"
    using assms 1 unat_Suc_small[of "counter w + 1"] by (simp add: room_def)
  show "unat (counter w + 1 + 1 + 1) = unat (counter w) + 3"
    using assms 2 unat_Suc_small[of "counter w + 1 + 1"] by (simp add: room_def)
qed

lemma ctx_fresh:
  assumes "room 3 w"
  shows "\<not> issued (counter w + 1) w" "\<not> issued (counter w + 1 + 1) w"
    and "\<not> issued (counter w + 1 + 1 + 1) w"
    and "counter w + 1 \<noteq> counter w + 1 + 1" "counter w + 1 \<noteq> counter w + 1 + 1 + 1"
    and "counter w + 1 + 1 \<noteq> counter w + 1 + 1 + 1"
  using ctx_unat[OF assms] by (simp_all add: issued_def word_le_nat_alt word_unat_eq_iff)

lemma ctx_le:
  assumes "room 3 w" "k \<le> counter w"
  shows "k \<le> counter w + 1" "k \<le> counter w + 1 + 1" "k \<le> counter w + 1 + 1 + 1"
  using ctx_unat[OF assms(1)] assms(2) by (simp_all add: word_le_nat_alt)

lemma ctx_chain:
  assumes "room 3 w"
  shows "counter w + 1 \<le> counter w + 1 + 1" "counter w + 1 + 1 \<le> counter w + 1 + 1 + 1"
    "counter w + 1 \<le> counter w + 1 + 1 + 1"
  using ctx_unat[OF assms(1)] by (simp_all add: word_le_nat_alt)

lemma not_issued_pool: "inv w \<Longrightarrow> \<not> issued k w \<Longrightarrow> pool w k = None"
  using invD(1)[of w] by (auto simp: pool_wf_def)

lemma pool_wf_two:
  assumes "inv w" "room 3 w" "counter w' = counter w + 1 + 1"
    and "pool w' = (pool w)(counter w + 1 \<mapsto> a, counter w + 1 + 1 \<mapsto> b)"
  shows "pool_wf w'"
  using invD(1)[OF assms(1)] ctx_le[OF assms(2)] ctx_chain[OF assms(2)] assms(3,4)
  by (auto simp: pool_wf_def issued_def)

lemma pool_wf_three:
  assumes "inv w" "room 3 w" "counter w' = counter w + 1 + 1 + 1"
    and "pool w' = (pool w)(counter w + 1 \<mapsto> a, counter w + 1 + 1 \<mapsto> b, counter w + 1 + 1 + 1 \<mapsto> d)"
  shows "pool_wf w'"
  using invD(1)[OF assms(1)] ctx_le[OF assms(2)] ctx_chain[OF assms(2)] assms(3,4)
  by (auto simp: pool_wf_def issued_def)

text \<open>A request with two contexts and a response channel.\<close>

lemma opens_two:
  assumes "inv w" "room 3 w" "heap_ext w w'"
    and ctr: "counter w' = counter w + 1 + 1"
    and pool: "pool w' = (pool w)(counter w + 1 \<mapsto> v, counter w + 1 + 1 \<mapsto> FnFinal f)"
    and infl: "inflight w' = inflight w @ [\<lparr>call_session = s, call_fn = fn,
      call_result = counter w + 1, call_final = counter w + 1 + 1\<rparr>]"
    and sess: "sessions w s \<noteq> None"
    and f: "pair_ok f v" "fn_ok f fn" "fin_ctx (wchunks w') f = [counter w + 1, counter w + 1 + 1]"
      "fin_chan (wchunks w') f = Some ch" "fin_wc f = None"
    and ch: "next_ptr w \<le> ch" "\<And>p. next_ptr w \<le> p \<Longrightarrow> open_chan w' p = (p = ch)"
    and ks: "\<And>p. val_keys v = Some p \<Longrightarrow> next_ptr w \<le> p \<and> ckeyss w' p \<noteq> None"
  shows "extends w w'"
proof -
  note new = ctx_fresh[OF assms(2)]
  have ks2: "next_ptr w \<le> p" if "fin_keys f = Some p" for p
  proof -
    have "val_keys v = Some p" using that f(1) by (cases f) auto
    then show ?thesis using ks by blast
  qed
  have "sessions w' s \<noteq> None" using assms(3) sess by (simp add: heap_ext_def)
  moreover have "fin_call_ok w' \<lparr>call_session = s, call_fn = fn,
      call_result = counter w + 1, call_final = counter w + 1 + 1\<rparr> f"
    unfolding fin_call_ok_def using pool f ch ks new by simp
  ultimately have "transition [] [\<lparr>call_session = s, call_fn = fn,
      call_result = counter w + 1, call_final = counter w + 1 + 1\<rparr>] w w'"
    using assms(1-3) pool_wf_two[OF assms(1,2) ctr pool] infl pool f ch ks ks2 new
    by (intro opens[where f = f]) (auto simp: not_issued_pool split: if_splits)
  then have "inv w'" using transition_inv assms(1) by blast
  then show ?thesis
    using assms(3) infl ctr pool new ctx_le[OF assms(2) order_refl] by (auto simp: extends_def)
qed

text \<open>A request with three contexts.\<close>

lemma opens_three:
  assumes "inv w" "room 3 w" "heap_ext w w'"
    and ctr: "counter w' = counter w + 1 + 1 + 1"
    and pool: "pool w' = (pool w)(counter w + 1 \<mapsto> v, counter w + 1 + 1 \<mapsto> FnFinal f,
      counter w + 1 + 1 + 1 \<mapsto> u)"
    and infl: "inflight w' = inflight w @ [\<lparr>call_session = s, call_fn = fn,
      call_result = counter w + 1, call_final = counter w + 1 + 1\<rparr>]"
    and sess: "sessions w s \<noteq> None"
    and f: "pair_ok f v" "fn_ok f fn"
      "fin_ctx (wchunks w') f = [counter w + 1, counter w + 1 + 1, counter w + 1 + 1 + 1]"
    and wc: "\<And>p. fin_wc f = Some p \<Longrightarrow>
      next_ptr w \<le> p \<and> (\<exists>v. wchunks w' p = Some v \<and> wc_session v = s)"
    and ch: "\<And>p. next_ptr w \<le> p \<Longrightarrow> open_chan w' p \<longleftrightarrow> fin_chan (wchunks w') f = Some p"
      "\<And>p. fin_chan (wchunks w') f = Some p \<Longrightarrow> next_ptr w \<le> p"
    and ks: "val_keys v = None" "fin_keys f = None"
  shows "extends w w'"
proof -
  note new = ctx_fresh[OF assms(2)]
  have "sessions w' s \<noteq> None" using assms(3) sess by (simp add: heap_ext_def)
  moreover have "fin_call_ok w' \<lparr>call_session = s, call_fn = fn,
      call_result = counter w + 1, call_final = counter w + 1 + 1\<rparr> f"
    unfolding fin_call_ok_def using pool f ch ks new wc by simp
  ultimately have "transition [] [\<lparr>call_session = s, call_fn = fn,
      call_result = counter w + 1, call_final = counter w + 1 + 1\<rparr>] w w'"
    using assms(1-3) pool_wf_three[OF assms(1,2) ctr pool] infl pool f ch ks new wc
    by (intro opens[where f = f]) (auto simp: not_issued_pool split: if_splits)
  then have "inv w'" using transition_inv assms(1) by blast
  then show ?thesis
    using assms(3) infl ctr pool new ctx_le[OF assms(2) order_refl] by (auto simp: extends_def)
qed

lemma opens_backend:
  assumes "inv w" "room 3 w" "heap_ext w w'"
    and ctr: "counter w' = counter w + 1"
    and pool: "pool w' = (pool w)(counter w + 1 \<mapsto> FnBackends ch (counter w + 1))"
    and infl: "inflight w' = inflight w @ [\<lparr>call_session = s, call_fn = fn,
      call_result = counter w + 1, call_final = counter w + 1\<rparr>]"
    and sess: "sessions w s \<noteq> None" and fn: "is_backend_fn fn"
    and ch: "next_ptr w \<le> ch" "\<And>p. next_ptr w \<le> p \<Longrightarrow> open_chan w' p = (p = ch)"
  shows "extends w w'"
proof -
  define c where "c = \<lparr>call_session = s, call_fn = fn,
    call_result = counter w + 1, call_final = counter w + 1\<rparr>"
  note new = ctx_fresh[OF assms(2)]
  have "sessions w' s \<noteq> None" using assms(3) sess by (simp add: heap_ext_def)
  then have "call_ok w' c" using call_ok_backend[of w' c ch] pool fn ch by (simp add: c_def)
  moreover have own: "owns w' c = {RChan ch, RCtx (counter w + 1)}"
    using pool owns_FnBackends[of w' c] by (simp add: c_def)
  moreover have "pool_wf w'"
    using invD(1)[OF assms(1)] ctx_le[OF assms(2)] ctr pool by (auto simp: pool_wf_def issued_def)
  moreover have "only (fresh_res w) w w'"
    using assms(3) pool new by (intro only_fresh) auto
  ultimately have "transition [] [c] w w'"
    using infl ch new assms(1,3) pool unfolding transition_def Let_def
    by (auto simp: c_def heap_ext_def not_issued_pool split: if_splits)
  then have "inv w'" using transition_inv assms(1) by blast
  then show ?thesis
    using assms(3) infl ctr pool new ctx_le[OF assms(2) order_refl] by (auto simp: extends_def)
qed

lemma quiet_ext:
  assumes "inv w" "heap_ext w w'" "pool w' = pool w"
    and ctr: "counter w' = counter w \<or> counter w \<le> counter w' \<and> pool_wf w'"
    and "inflight w' = inflight w" "\<And>p. next_ptr w \<le> p \<Longrightarrow> \<not> open_chan w' p"
  shows "extends w w'"
proof -
  have "transition [] [] w w'" using ctr by (intro quiet[OF assms(1-3) _ assms(5,6)]) auto
  then have "inv w'" using transition_inv assms(1) by blast
  then show ?thesis using assms(2,3,5) ctr by (auto simp: extends_def)
qed

subsection \<open>Keys and key arrays\<close>

lemma c_alloc_eq: "\<exists>xs. c_alloc w = (fst (c_alloc w), w\<lparr>alloc_fails := xs\<rparr>)"
  by (cases "alloc_fails w") (auto simp: c_alloc_def intro: exI[of _ "alloc_fails w"])

lemma NewKey_cases:
  obtains (err) e xs where "NewKey args w = (Inl e, w\<lparr>alloc_fails := xs\<rparr>)"
  | (key) xs k where "NewKey args w = (Inr (next_ptr w), w\<lparr>alloc_fails := xs,
      next_ptr := Suc (next_ptr w), ckeys := (ckeys w)(next_ptr w \<mapsto> k)\<rparr>)"
proof -
  have new: "(\<exists>e xs. new_ckey k w = (Inl e, w\<lparr>alloc_fails := xs\<rparr>)) \<or>
      (\<exists>xs. new_ckey k w = (Inr (next_ptr w), w\<lparr>alloc_fails := xs,
        next_ptr := Suc (next_ptr w), ckeys := (ckeys w)(next_ptr w \<mapsto> k)\<rparr>))" for k
    using c_alloc_eq[of w] by (auto simp: new_ckey_def new_ptr_def Let_def split: prod.splits if_splits)
  have "(\<exists>e xs. NewKey args w = (Inl e, w\<lparr>alloc_fails := xs\<rparr>)) \<or> (\<exists>k. NewKey args w = new_ckey k w)"
  proof (cases "length args = 1 \<and> hd args = ArgOther")
    case True
    then have "NewKey args w = (Inl InvalidKeyArgument, w\<lparr>alloc_fails := alloc_fails w\<rparr>)"
      by (simp add: NewKey_def)
    then show ?thesis by blast
  qed (auto simp: NewKey_def split: go_arg.splits)
  then show ?thesis using new that by metis
qed

lemma insert_keys_eq: "\<exists>xs ks. insert_keys names keys w = (ks, w\<lparr>alloc_fails := xs\<rparr>)"
proof (induction names arbitrary: keys w)
  case Nil
  show ?case by (auto intro: exI[of _ "alloc_fails w"])
next
  case (Cons n names)
  obtain ok xs where "c_alloc w = (ok, w\<lparr>alloc_fails := xs\<rparr>)" using c_alloc_eq by blast
  then show ?case
    using Cons.IH[of "snd (ell_keys_insert ok n keys)" "w\<lparr>alloc_fails := xs\<rparr>"]
    by (auto simp: Let_def split: prod.splits)
qed

lemma NewKeys_cases:
  obtains (err) e xs where "NewKeys names w = (Inl e, w\<lparr>alloc_fails := xs\<rparr>)"
  | (keys) xs ks where "NewKeys names w = (Inr (next_ptr w), w\<lparr>alloc_fails := xs,
      next_ptr := Suc (next_ptr w), ckeyss := (ckeyss w)(next_ptr w \<mapsto> ks)\<rparr>)"
proof -
  obtain ok xs where a: "c_alloc w = (ok, w\<lparr>alloc_fails := xs\<rparr>)" using c_alloc_eq by blast
  obtain ys ks where i: "insert_keys (sort names) ell_keys_empty
      (w\<lparr>alloc_fails := xs, next_ptr := Suc (next_ptr w)\<rparr>) =
      (ks, w\<lparr>alloc_fails := xs, next_ptr := Suc (next_ptr w)\<rparr>\<lparr>alloc_fails := ys\<rparr>)"
    using insert_keys_eq by blast
  show ?thesis
  proof (cases ok)
    case True
    then show ?thesis
      using a i by (intro that(2)[of ks ys]) (simp add: NewKeys_def new_ptr_def Let_def)
  next
    case False
    then show ?thesis using a that(1) by (simp add: NewKeys_def)
  qed
qed

lemma ptrs_okD:
  assumes "ptrs_ok w" "next_ptr w \<le> p"
  shows "chans w p = None" "ckeys w p = None" "ckeyss w p = None" "sessions w p = None" "wchunks w p = None"
  using assms by (simp_all add: ptrs_ok_def)

lemma open_chan_old: "inv w \<Longrightarrow> next_ptr w \<le> p \<Longrightarrow> \<not> open_chan w p"
  using ptrs_okD(1)[OF invD(2)] by (simp add: open_chan_def)

text \<open>
  Changes of the allocation script, of key objects and of the log of user callbacks do
  not matter.
\<close>

lemma ext_alloc_fails: "inv w \<Longrightarrow> extends w (w\<lparr>alloc_fails := xs\<rparr>)"
  by (rule quiet_ext) (auto simp: heap_ext_def ptrs_ok_def open_chan_def dest: invD(2))

lemma ext_user_log: "inv w \<Longrightarrow> extends w (w\<lparr>user_log := xs\<rparr>)"
  by (rule quiet_ext) (auto simp: heap_ext_def ptrs_ok_def open_chan_def dest: invD(2))

lemma ext_new_key:
  assumes "inv w"
  shows "extends w (w\<lparr>alloc_fails := xs, next_ptr := Suc (next_ptr w), ckeys := (ckeys w)(next_ptr w \<mapsto> k)\<rparr>)"
  using assms by (rule quiet_ext) (use invD(2)[OF assms] in \<open>auto simp: heap_ext_def ptrs_ok_def open_chan_def\<close>)

lemma NewKey_ext: "inv w \<Longrightarrow> NewKey args w = (r, w') \<Longrightarrow> extends w w' \<and> counter w' = counter w"
  using ext_new_key ext_alloc_fails by (cases rule: NewKey_cases[of args w]) auto

lemma Key_Free_ext:
  assumes "inv w" "Key_Free k w = Done w'"
  shows "extends w w'"
proof -
  have "w' = w\<lparr>ckeys := (ckeys w)(k := None)\<rparr>" using assms(2) by (auto simp: Key_Free_def split: if_splits)
  then show ?thesis
    using invD(2)[OF assms(1)]
    by (intro quiet_ext[OF assms(1)]) (auto simp: heap_ext_def ptrs_ok_def open_chan_def)
qed

lemma free_after_ext:
  assumes "extends w w1" "extends w1 w2" "Key_Free k w2 = Done w'"
  shows "extends w w'"
proof -
  have "extends w w2" using assms(1,2) by (rule extends_trans)
  moreover have "extends w2 w'" using Key_Free_ext[OF extends_inv[OF assms(2)] assms(3)] .
  ultimately show ?thesis by (rule extends_trans)
qed

lemma sess_do_ext:
  assumes "inv w" "sess_do s c w = Done w'"
  shows "extends w w'"
proof -
  obtain h where h: "sessions w s = Some h" "w' = w\<lparr>sessions := (sessions w)(s \<mapsto> h @ [c])\<rparr>"
    using assms(2) by (auto simp: sess_do_def split: option.splits)
  have "s < next_ptr w" using invD(2)[OF assms(1)] h(1) by (auto simp: ptrs_ok_def not_le[symmetric])
  then show ?thesis
    using invD(2)[OF assms(1)] h
    by (intro quiet_ext[OF assms(1)]) (auto simp: heap_ext_def ptrs_ok_def open_chan_def)
qed

lemma NewSession_ext:
  assumes "inv w" "NewSession strerror errno w = (r, w')"
  shows "extends w w'"
proof -
  have "w' = w\<lparr>next_ptr := Suc (next_ptr w), sessions := (sessions w)(next_ptr w \<mapsto> [])\<rparr>"
    using assms(2) by (auto simp: NewSession_def new_ptr_def Let_def split: if_splits)
  then show ?thesis
    using invD(2)[OF assms(1)]
    by (intro quiet_ext[OF assms(1)]) (auto simp: heap_ext_def ptrs_ok_def open_chan_def)
qed

subsection \<open>Reading\<close>

lemmas op_defs = make_chan_def new_ptr_def NextContext_def Store_def Let_def c_key_request_def
  deref_key_def c_request_def defaultVOLUME_def

lemmas world_defs = heap_ext_def ptrs_ok_def open_chan_def

lemma ReadKey_ext:
  assumes "inv w" "room 3 w" "ReadKey s key offset sz w = Done (ch, w')"
  shows "extends w w'"
  using assms(3) invD(2)[OF assms(1)]
  by (intro opens_two[OF assms(1,2), where ch = "next_ptr w" and v = "FnRead (ReadKeyRes (next_ptr w))"
        and f = "ReadKeyFin (next_ptr w) (counter w + 1) (counter w + 1 + 1)" and s = "s_session s"
        and fn = "C_read_data (the (ckeys w key)) offset sz"])
    (auto simp: ReadKey_def op_defs world_defs split: option.splits if_splits)

lemma fail_chan_ext:
  assumes "inv w" "heap_ext w w1" "pool w1 = pool w" "counter w \<le> counter w1 \<and> pool_wf w1"
    and "inflight w1 = inflight w" "next_ptr w \<le> ch" "\<And>p. next_ptr w \<le> p \<Longrightarrow> p \<noteq> ch \<Longrightarrow> \<not> open_chan w1 p"
    and "fail_chan ch e w1 = Done (r, w')"
  shows "extends w w'"
proof -
  obtain c' where w': "w' = w1\<lparr>chans := (chans w1)(ch \<mapsto> c')\<rparr>" "ch_closed c'" "chans w1 ch \<noteq> None"
    using assms(8) by (auto simp: fail_chan_def send_def close_chan_def on_chan_def chan_close_def
        split: option.splits if_splits)
  have ptr: "ptrs_ok w1" using assms(2) by (simp add: heap_ext_def)
  have "ch < next_ptr w1" using ptr w'(3) by (auto simp: ptrs_ok_def not_le[symmetric])
  then have "ptrs_ok w'" using ptr w'(1) by (auto simp: ptrs_ok_def)
  then have "heap_ext w w'" using assms(2,6) w'(1) by (auto simp: heap_ext_def)
  moreover have "\<not> open_chan w' p" if "next_ptr w \<le> p" for p
    using assms(7)[OF that] w' by (auto simp: open_chan_def)
  ultimately show ?thesis
    using assms(3-5) w'(1) by (intro quiet_ext[OF assms(1)]) (auto simp: pool_wf_def issued_def)
qed

text \<open>A new channel that only carries an error.\<close>

lemma fail_new_ext:
  assumes "inv w" "fail_chan (next_ptr w) e (snd (make_chan n w)) = Done (r, w')"
  shows "extends w w'"
  using assms(1) _ _ _ _ _ _ assms(2)
  by (rule fail_chan_ext) (use invD(1,2)[OF assms(1)] in \<open>auto simp: op_defs world_defs pool_wf_def issued_def\<close>)

lemma BulkRead_ext:
  assumes "inv w" "room 3 w" "BulkRead s keys w = Done (ch, w')"
  shows "extends w w'"
proof (cases rule: NewKeys_cases[of keys w])
  case (err e xs)
  note w1 = ext_alloc_fails[OF assms(1), of xs]
  have "extends (w\<lparr>alloc_fails := xs\<rparr>) w'"
    using assms(3) err by (intro fail_new_ext[OF extends_inv[OF w1]]) (simp add: BulkRead_def op_defs)
  then show ?thesis using w1 extends_trans by blast
next
  case (keys xs ks)
  then show ?thesis
    using assms(3) invD(2)[OF assms(1)]
    by (intro opens_two[OF assms(1,2), where ch = "Suc (next_ptr w)" and v = "FnRead (BulkReadRes (Suc (next_ptr w)) (next_ptr w))"
        and f = "BulkReadFin (Suc (next_ptr w)) (next_ptr w) (counter w + 1) (counter w + 1 + 1)" and s = "s_session s"
        and fn = "C_bulk_read (kk ks)"])
     (auto simp: BulkRead_def op_defs world_defs names_of_def transform_keys_def split: option.splits if_splits)
qed

text \<open>Operations that take a name make a key object for it and free it in the end.\<close>

lemma with_key_ext:
  assumes "inv w" "room 3 w"
    and "(case NewKey args w of (Inl err, w1) \<Rightarrow> failing err w1
          | (Inr ekey, w1) \<Rightarrow> defer_Free ekey (body ekey w1)) = Done (r, w')"
    and "\<And>err w1. inv w1 \<Longrightarrow> failing err w1 = Done (r, w') \<Longrightarrow> extends w1 w'"
    and "\<And>ekey w1 w2. inv w1 \<Longrightarrow> room 3 w1 \<Longrightarrow> body ekey w1 = Done (r, w2) \<Longrightarrow> extends w1 w2"
  shows "extends w w'"
proof (cases "NewKey args w")
  case (Pair x w1)
  have k: "extends w w1" "counter w1 = counter w" using NewKey_ext[OF assms(1) Pair] by auto
  have w1: "inv w1" "room 3 w1" using k assms(2) extends_inv by (auto simp: room_def)
  show ?thesis
  proof (cases x)
    case (Inl e)
    then have "extends w1 w'" using Pair assms(3) assms(4)[OF w1(1)] by simp
    then show ?thesis using k extends_trans by blast
  next
    case (Inr ekey)
    then obtain w2 where "body ekey w1 = Done (r, w2)" "Key_Free ekey w2 = Done w'"
      using Pair assms(3) by (auto simp: defer_Free_def)
    then show ?thesis using free_after_ext[OF k(1) assms(5)[OF w1]] by blast
  qed
qed

lemma ReadData_ext:
  assumes "inv w" "room 3 w" "ReadData s key offset sz w = Done (ch, w')"
  shows "extends w w'"
  using assms(1,2) assms(3)[unfolded ReadData_def]
proof (rule with_key_ext)
  fix err w1
  assume "inv w1" "(let (errCh, w) = make_chan 1 w1 in fail_chan errCh (ReadE (readResult_err err)) w) = Done (ch, w')"
  then show "extends w1 w'" using fail_new_ext[of w1 _ 1] by (simp add: op_defs)
qed (rule ReadKey_ext)

subsection \<open>Writing\<close>

lemma write_go_chan_ext:
  assumes "inv w" "room 3 w"
    and "write_go s key data offset (Some (WriteKeyLookup (next_ptr w))) (Some (WriteKeyFinish (next_ptr w)))
      (snd (make_chan n w)) = Done w'"
  shows "extends w w'"
  using assms(3) invD(2)[OF assms(1)]
  by (intro opens_three[OF assms(1,2), where v = "NamedLookup (WriteKeyLookup (next_ptr w))"
        and f = "WriteFin (Some (WriteKeyFinish (next_ptr w))) (counter w + 1) (counter w + 1 + 1) (counter w + 1 + 1 + 1)"
        and u = "Chunk data" and s = "s_session s" and fn = "C_write_data (the (ckeys w key)) offset data"])
    (auto simp: write_go_def op_defs world_defs split: option.splits if_splits)

lemma write_go_user_ext:
  assumes "inv w" "room 3 w" "onResult_chan onResult = None"
    and "write_go s key data offset onLookup onResult w = Done w'"
  shows "extends w w'"
  using assms(3,4) invD(2)[OF assms(1)]
  by (intro opens_three[OF assms(1,2),
        where v = "NamedLookup (case onLookup of Some f \<Rightarrow> f | None \<Rightarrow> EmptyLookup)"
        and f = "WriteFin onResult (counter w + 1) (counter w + 1 + 1) (counter w + 1 + 1 + 1)"
        and u = "Chunk data" and s = "s_session s" and fn = "C_write_data (the (ckeys w key)) offset data"])
    (auto simp: write_go_def op_defs world_defs split: option.splits if_splits)

lemma cache_chan_ext:
  assumes "inv w" "room 3 w"
    and "cache s key data timeout (Some (WriteCacheLookup (next_ptr w))) (Some (WriteCacheFinish (next_ptr w)))
      (snd (make_chan n w)) = Done w'"
  shows "extends w w'"
  using assms(3) invD(2)[OF assms(1)]
  by (intro opens_three[OF assms(1,2), where v = "NamedLookup (WriteCacheLookup (next_ptr w))"
        and f = "CacheFin (Some (WriteCacheFinish (next_ptr w))) (counter w + 1) (counter w + 1 + 1) (counter w + 1 + 1 + 1)"
        and u = "Chunk data" and s = "s_session s" and fn = "C_write_cache (the (ckeys w key)) data timeout"])
    (auto simp: cache_def op_defs world_defs split: option.splits if_splits)

lemma cache_user_ext:
  assumes "inv w" "room 3 w" "onResult_chan onResult = None"
    and "cache s key data timeout onLookup onResult w = Done w'"
  shows "extends w w'"
  using assms(3,4) invD(2)[OF assms(1)]
  by (intro opens_three[OF assms(1,2),
        where v = "NamedLookup (case onLookup of Some f \<Rightarrow> f | None \<Rightarrow> EmptyLookup)"
        and f = "CacheFin onResult (counter w + 1) (counter w + 1 + 1) (counter w + 1 + 1 + 1)"
        and u = "Chunk data" and s = "s_session s" and fn = "C_write_cache (the (ckeys w key)) data timeout"])
    (auto simp: cache_def op_defs world_defs split: option.splits if_splits)

text \<open>Reporting to a callback the user gave.\<close>

lemma report_user_ext:
  assumes "inv w" "onResult_chan onResult = None"
    and "(case onResult of Some f \<Rightarrow> call_onResult f err w | None \<Rightarrow> Done w) = Done w'"
  shows "extends w w'"
  using assms ext_user_log extends_refl by (cases onResult; cases "the onResult") (auto simp: call_onResult_def)

lemma Write_ext:
  assumes "inv w" "room 3 w" "onResult_chan onResult = None"
    and "Write s key data offset onLookup onResult w = Done w'"
  shows "extends w w'"
proof (cases "NewKey [ArgString key] w")
  case (Pair x w1)
  have k: "extends w w1" "counter w1 = counter w" using NewKey_ext[OF assms(1) Pair] by auto
  have w1: "inv w1" "room 3 w1" using k assms(2) extends_inv by (auto simp: room_def)
  show ?thesis
  proof (cases x)
    case (Inl e)
    then have "extends w1 w'"
      using Pair assms(4) report_user_ext[OF w1(1) assms(3), of "Some e" w'] by (simp add: Write_def)
    then show ?thesis using k extends_trans by blast
  next
    case (Inr ekey)
    then obtain w2 where "write_go s ekey data offset onLookup onResult w1 = Done w2"
        "Key_Free ekey w2 = Done w'"
      using Pair assms(4) by (auto simp: Write_def)
    then show ?thesis
      using free_after_ext[OF k(1) write_go_user_ext[OF w1 assms(3)]] by blast
  qed
qed

lemma Cache_ext:
  assumes "inv w" "room 3 w" "onResult_chan onResult = None"
    and "Cache s key data timeout onLookup onResult w = Done w'"
  shows "extends w w'"
proof (cases "NewKey [ArgString key] w")
  case (Pair x w1)
  have k: "extends w w1" "counter w1 = counter w" using NewKey_ext[OF assms(1) Pair] by auto
  have w1: "inv w1" "room 3 w1" using k assms(2) extends_inv by (auto simp: room_def)
  have report: "extends w2 w3" if "inv w2"
    "(case onResult of Some f \<Rightarrow> call_onResult f (Some e) | None \<Rightarrow> skip) w2 = Done w3" for w2 w3 e
    using that report_user_ext[OF _ assms(3), of w2 "Some e" w3] by (cases onResult) auto
  show ?thesis
  proof (cases x)
    case (Inl e)
    then have "extends w1 w'" using Pair assms(4) report[OF w1(1)] by (auto simp: Cache_def)
    then show ?thesis using k extends_trans by blast
  next
    case (Inr ekey)
    show ?thesis
    proof (cases "data = []")
      case True
      then obtain w2 where "Key_Free ekey w1 = Done w2"
          "(case onResult of Some f \<Rightarrow> call_onResult f (Some (EText ''Invalid zero-length write request'')) | None \<Rightarrow> skip) w2 = Done w'"
        using Pair Inr assms(4) by (auto simp: Cache_def Let_def)
      then have "extends w1 w2" "extends w2 w'"
        using Key_Free_ext[OF w1(1)] report[of w2] extends_inv by blast+
      then show ?thesis using extends_trans[OF k(1)] extends_trans by blast
    next
      case False
      then obtain w2 where "cache s ekey data timeout onLookup onResult w1 = Done w2"
          "Key_Free ekey w2 = Done w'"
        using Pair Inr assms(4) by (auto simp: Cache_def Let_def)
      then show ?thesis
        using free_after_ext[OF k(1) cache_user_ext[OF w1 assms(3)]] by blast
    qed
  qed
qed

lemma WriteKey_ext:
  assumes "inv w" "room 3 w" "WriteKey s key input offset w = Done (ch, w')"
  shows "extends w w'"
proof -
  define w1 where "w1 = snd (make_chan defaultVOLUME w)"
  have mk: "make_chan defaultVOLUME w = (next_ptr w, w1)" by (simp add: w1_def make_chan_def new_ptr_def)
  consider e where "fail_chan (next_ptr w) e w1 = Done (ch, w')"
    | chunk where "write_go s key chunk offset (Some (WriteKeyLookup (next_ptr w)))
        (Some (WriteKeyFinish (next_ptr w))) w1 = Done w'"
    using assms(3) mk by (auto simp: WriteKey_def Let_def split: prod.splits option.splits if_splits)
  then show ?thesis
    by cases (use assms fail_new_ext write_go_chan_ext w1_def in blast)+
qed

lemma makeLookuperChan_ext:
  assumes "inv w" "makeLookuperChan (Some e) n w = Done (ch, w')"
  shows "extends w w'"
  using assms fail_new_ext[of w "LookupE (lookupResult_err e)"]
  by (auto simp: makeLookuperChan_def fail_chan_def op_defs)

lemma WriteCache_ext:
  assumes "inv w" "room 3 w" "WriteCache s key input timeout w = Done (ch, w')"
  shows "extends w w'"
  using assms(1,2) assms(3)[unfolded WriteCache_def]
proof (rule with_key_ext)
  fix ekey w1 w2
  assume w1: "inv w1" "room 3 w1"
  define w3 where "w3 = snd (make_chan defaultVOLUME w1)"
  have mk: "makeLookuperChan None defaultVOLUME w1 = Done (next_ptr w1, w3)"
    by (simp add: w3_def makeLookuperChan_def op_defs)
  assume "bindO (makeLookuperChan None defaultVOLUME w1)
    (\<lambda>(responseCh, w). let (chunk, err) = ReadAll input
       in case err of
            Some e \<Rightarrow> fail_chan responseCh (LookupE (lookupResult_err e)) w
          | None \<Rightarrow> if chunk = [] then fail_chan responseCh (LookupE (lookupResult_err zero_length_write)) w
              else mapO (Pair responseCh) (cache s ekey chunk timeout (Some (WriteCacheLookup responseCh))
                (Some (WriteCacheFinish responseCh)) w)) = Done (ch, w2)"
  then consider e where "fail_chan (next_ptr w1) e w3 = Done (ch, w2)"
    | chunk where "cache s ekey chunk timeout (Some (WriteCacheLookup (next_ptr w1)))
        (Some (WriteCacheFinish (next_ptr w1))) w3 = Done w2"
    using mk by (auto split: prod.splits option.splits if_splits)
  then show "extends w1 w2"
    by cases (use w1 fail_new_ext cache_chan_ext w3_def in blast)+
qed (rule makeLookuperChan_ext)

text \<open>A channel whose operation failed after it had taken contexts.\<close>

lemma pool_wf_counter:
  assumes "inv w" "room 3 w" "pool w' = pool w"
    and "counter w' \<in> {counter w, counter w + 1, counter w + 1 + 1, counter w + 1 + 1 + 1}"
  shows "counter w \<le> counter w' \<and> pool_wf w'"
proof -
  have "k \<le> counter w" if "k \<in> dom (pool w')" for k
    using invD(1)[OF assms(1)] assms(3) that by (auto simp: pool_wf_def issued_def)
  moreover have "counter w \<le> counter w'"
    using ctx_le[OF assms(2) order_refl] assms(4) by auto
  ultimately show ?thesis unfolding pool_wf_def issued_def using order_trans by blast
qed

lemma fail_late_ext:
  assumes "fail_chan (next_ptr w) e w1 = Done (r, w')"
    and "inv w" "room 3 w" "heap_ext w w1" "pool w1 = pool w" "inflight w1 = inflight w"
    and "counter w1 \<in> {counter w, counter w + 1, counter w + 1 + 1, counter w + 1 + 1 + 1}"
    and "\<And>p. next_ptr w \<le> p \<Longrightarrow> p \<noteq> next_ptr w \<Longrightarrow> \<not> open_chan w1 p"
  shows "extends w w'"
  using assms(2,4,5) pool_wf_counter[OF assms(2,3,5,7)] assms(6) order_refl assms(8,1)
  by (rule fail_chan_ext)

lemma NewKey_string:
  obtains (err) xs where "NewKey [ArgString s] w = (Inl (EText ''could not create new key''), w\<lparr>alloc_fails := xs\<rparr>)"
  | (key) xs where "NewKey [ArgString s] w = (Inr (next_ptr w), w\<lparr>alloc_fails := xs,
      next_ptr := Suc (next_ptr w), ckeys := (ckeys w)(next_ptr w \<mapsto> KeyRemote (c_string s))\<rparr>)"
proof -
  obtain ok xs where a: "c_alloc w = (ok, w\<lparr>alloc_fails := xs\<rparr>)" using c_alloc_eq by blast
  show ?thesis
  proof (cases ok)
    case True
    then show ?thesis using a by (intro key[of xs]) (simp add: NewKey_def new_ckey_def new_ptr_def)
  next
    case False
    then show ?thesis using a by (intro err[of xs]) (simp add: NewKey_def new_ckey_def)
  qed
qed

lemma WriteChunk_cases:
  assumes "WriteChunk s key input off sz w = Done (ch, w')"
  obtains (failed) e b xs where "fail_chan (next_ptr w) e (w\<lparr>next_ptr := Suc (next_ptr w),
      chans := (chans w)(next_ptr w \<mapsto> b), counter := counter w + 1 + 1 + 1, alloc_fails := xs\<rparr>) = Done (ch, w')"
    "inflight w' = inflight w"
  | (started) b bs input' xs p where "Read input = ((bs, None), input')" "ch = next_ptr w" "\<not> ch_closed b"
      "p = Suc (Suc (next_ptr w))" "sessions w (s_session s) \<noteq> None"
      "w' = w\<lparr>next_ptr := Suc p, chans := (chans w)(ch \<mapsto> b), counter := counter w + 1 + 1 + 1,
        alloc_fails := xs, wchunks := (wchunks w)(p \<mapsto> first_chunk s key input' bs off sz w),
        pool := (pool w)(counter w + 1 \<mapsto> FnLookup (WriteChunkRes p), counter w + 1 + 1 \<mapsto> FnFinal (WriteChunkFin p),
          counter w + 1 + 1 + 1 \<mapsto> ChunkBuf p),
        inflight := inflight w @ [\<lparr>call_session = s_session s,
          call_fn = C_write_prepare (KeyRemote (c_string key)) off sz bs,
          call_result = counter w + 1, call_final = counter w + 1 + 1\<rparr>],
        ckeys := (ckeys w)(Suc ch := None)\<rparr>"
proof -
  define p where "p = next_ptr w"
  define w1 where "w1 = w\<lparr>next_ptr := Suc p, chans := (chans w)(p \<mapsto> chan_make defaultVOLUME),
    counter := counter w + 1 + 1 + 1\<rparr>"
  obtain bs err input' where rd: "Read input = ((bs, err), input')" by (metis prod.exhaust)
  have fail_inflight: "inflight w2 = inflight w3" if "fail_chan q e w3 = Done (r, w2)" for q e w3 r w2
    using that by (auto simp: fail_chan_def send_def close_chan_def on_chan_def split: option.splits)
  show ?thesis
  proof (cases err)
    case (Some e)
    then have "fail_chan (next_ptr w) (LookupE (lookupResult_err e)) w1 = Done (ch, w')"
      using assms rd by (simp add: WriteChunk_def op_defs w1_def p_def)
    then show ?thesis
      using fail_inflight[of "next_ptr w" _ w1 ch w']
      by (intro failed[where b = "chan_make defaultVOLUME" and xs = "alloc_fails w"]) (simp_all add: w1_def p_def)
  next
    case None
    let ?e = "LookupE (lookupResult_err (EDnet \<lparr>Code = - 22, Flags = 0,
      Message = ''Invalid zero-length write: current-offset: '' @ dec_u64 off @ ''/'' @ dec_u64 off @
        '', rest-size: '' @ dec_u64 sz @ ''/'' @ dec_u64 sz\<rparr>))"
    define b where "b = (chan_make defaultVOLUME)\<lparr>ch_buf := if bs = [] then [?e] else []\<rparr>"
    define w2 where "w2 = (if bs = [] then w1\<lparr>chans := (chans w)(p \<mapsto> b)\<rparr> else w1)"
    have w2: "w2 = w\<lparr>next_ptr := Suc p, chans := (chans w)(p \<mapsto> b), counter := counter w + 1 + 1 + 1\<rparr>"
      by (simp add: w2_def w1_def b_def chan_make_def)
    note run = WriteChunk_def make_chan_def new_ptr_def NextContext_def rd None w1_def p_def Let_def
      send_def on_chan_def chan_send_def chan_make_def defaultVOLUME_def
    show ?thesis
    proof (cases rule: NewKey_string[of key w2])
      case (err xs)
      then have "fail_chan (next_ptr w) (LookupE (lookupResult_err (EText ''could not create new key'')))
          (w2\<lparr>alloc_fails := xs\<rparr>) = Done (ch, w')"
        using assms by (cases "bs = []") (simp_all add: run w2_def b_def)
      then show ?thesis
        using fail_inflight[of "next_ptr w" _ "w2\<lparr>alloc_fails := xs\<rparr>" ch w']
        by (intro failed[where b = b and xs = xs]) (simp_all add: w2 p_def)
    next
      case (key xs)
      define w3 where "w3 = w2\<lparr>alloc_fails := xs, next_ptr := Suc (next_ptr w2),
        ckeys := (ckeys w2)(next_ptr w2 \<mapsto> KeyRemote (c_string key))\<rparr>"
      have nk: "NewKey [ArgString key] w2 = (Inr (Suc p), w3)" "next_ptr w3 = Suc (Suc p)"
        using key by (simp_all add: w3_def w2)
      have "defer_Free (Suc p) (mapO (Pair p) (c_key_request (s_session s)
          (\<lambda>k. C_write_prepare k off sz bs) (Suc p) (counter w + 1) (counter w + 1 + 1)
          (Store (counter w + 1 + 1 + 1) (ChunkBuf (Suc (Suc p))) (Store (counter w + 1 + 1)
            (FnFinal (WriteChunkFin (Suc (Suc p)))) (Store (counter w + 1) (FnLookup (WriteChunkRes (Suc (Suc p))))
             (set_wchunk (Suc (Suc p)) (first_chunk s key input' bs off sz w)
               (w3\<lparr>next_ptr := Suc (next_ptr w3)\<rparr>))))))) = Done (ch, w')"
        using assms nk by (cases "bs = []") (simp_all add: run w2_def b_def first_chunk_def)
      then show ?thesis
        by (intro started[OF rd[unfolded None], where b = b and p = "Suc (Suc p)" and xs = xs])
          (auto simp: op_defs w3_def w2 p_def b_def set_wchunk_def defer_Free_def Key_Free_def split: if_splits)
    qed
  qed
qed

lemma WriteChunk_ext:
  assumes "inv w" "room 3 w" "WriteChunk s key input off sz w = Done (ch, w')"
  shows "extends w w'"
proof -
  have ptr: "ptrs_ok w" using invD(2)[OF assms(1)] .
  from assms(3) show ?thesis
  proof (cases rule: WriteChunk_cases)
    case (failed e b xs)
    from failed(1) assms(1,2) show ?thesis
      by (rule fail_late_ext) (use ptr in \<open>auto simp: world_defs\<close>)
  next
    case (started b bs input' xs p)
    show ?thesis
      by (rule opens_three[OF assms(1,2), where v = "FnLookup (WriteChunkRes p)"
        and f = "WriteChunkFin p" and u = "ChunkBuf p" and s = "s_session s"
        and fn = "C_write_prepare (KeyRemote (c_string key)) off sz bs"])
       (use started ptr in \<open>auto simp: world_defs first_chunk_def\<close>)
  qed
qed

lemma WriteData_ext:
  assumes "inv w" "room 3 w" "WriteData s key input offset total_size w = Done (ch, w')"
  shows "extends w w'"
proof (cases "total_size > max_chunk_size")
  case True
  then show ?thesis using assms WriteChunk_ext by (simp add: WriteData_def)
next
  case False
  then have "(case NewKey [ArgString key] w of
      (Inl err, w) \<Rightarrow> makeLookuperChan (Some err) defaultVOLUME w
    | (Inr ekey, w) \<Rightarrow> defer_Free ekey (WriteKey s ekey input offset w)) = Done (ch, w')"
    using assms(3) by (simp add: WriteData_def)
  with assms(1,2) show ?thesis
    by (rule with_key_ext) (use makeLookuperChan_ext WriteKey_ext in blast)+
qed

subsection \<open>Lookup and remove\<close>

lemma Lookup_ext:
  assumes "inv w" "room 3 w" "Lookup s key w = Done (ch, w')"
  shows "extends w w'"
  using assms(3) invD(2)[OF assms(1)]
  by (intro opens_two[OF assms(1,2), where ch = "next_ptr w" and v = "FnLookup (LookupRes (next_ptr w))"
        and f = "LookupFin (next_ptr w) (counter w + 1) (counter w + 1 + 1)" and s = "s_session s"
        and fn = "C_lookup (the (ckeys w key))"])
    (auto simp: Lookup_def op_defs world_defs split: option.splits if_splits)

lemma RemoveKey_ext:
  assumes "inv w" "room 3 w" "RemoveKey s key w = Done (ch, w')"
  shows "extends w w'"
  using assms(3) invD(2)[OF assms(1)]
  by (intro opens_two[OF assms(1,2), where ch = "next_ptr w" and v = "FnRemove (RemoveKeyRes (next_ptr w))"
        and f = "RemoveKeyFin (next_ptr w) (counter w + 1) (counter w + 1 + 1)" and s = "s_session s"
        and fn = "C_remove (the (ckeys w key))"])
    (auto simp: RemoveKey_def op_defs world_defs split: option.splits if_splits)

lemma Remove_ext:
  assumes "inv w" "room 3 w" "Remove s key w = Done (ch, w')"
  shows "extends w w'"
  using assms(1,2) assms(3)[unfolded Remove_def]
proof (rule with_key_ext)
  fix err w1
  assume "inv w1" "(let (responseCh, w) = make_chan defaultVOLUME w1
    in fail_chan responseCh (RemoveE (removeResult_err [] err)) w) = Done (ch, w')"
  then show "extends w1 w'" using fail_new_ext[of w1 _ defaultVOLUME] by (simp add: make_chan_def new_ptr_def)
qed (rule RemoveKey_ext)

lemma ParallelLookup_ext:
  assumes "inv w" "room 3 w" "ParallelLookup s kstr w = Done (ch, w')"
  shows "extends w w'"
proof -
  define p where "p = next_ptr w"
  define w1 where "w1 = w\<lparr>next_ptr := Suc p, chans := (chans w)(p \<mapsto> chan_make defaultVOLUME),
    counter := counter w + 1 + 1\<rparr>"
  note run = ParallelLookup_def op_defs p_def w1_def
  have ptr: "ptrs_ok w" using invD(2)[OF assms(1)] .
  show ?thesis
  proof (cases rule: NewKey_cases[of "[ArgString kstr]" w1])
    case (err e xs)
    then have "fail_chan (next_ptr w) (LookupE (lookupResult_err e)) (w1\<lparr>alloc_fails := xs\<rparr>) = Done (ch, w')"
      using assms(3) by (simp add: run)
    then show ?thesis using assms(1,2)
      by (rule fail_late_ext) (use ptr in \<open>auto simp: w1_def p_def world_defs\<close>)
  next
    case (key xs k)
    show ?thesis
      by (rule opens_two[OF assms(1,2), where ch = p and v = "FnLookup (ParallelLookupRes p)"
        and f = "ParallelLookupFin p (counter w + 1) (counter w + 1 + 1)" and s = "s_session s"
        and fn = "C_parallel_lookup k"])
       (use assms(3) key ptr in \<open>auto simp: run world_defs defer_Free_def Key_Free_def
          split: option.splits if_splits\<close>)
  qed
qed

subsection \<open>Bulk operations\<close>

lemma BulkRemove_ext:
  assumes "inv w" "room 3 w" "BulkRemove s keys w = Done (ch, w')"
  shows "extends w w'"
proof -
  define p where "p = next_ptr w"
  define w1 where "w1 = w\<lparr>next_ptr := Suc p, chans := (chans w)(p \<mapsto> chan_make defaultVOLUME)\<rparr>"
  note run = BulkRemove_def op_defs p_def w1_def
  have ptr: "ptrs_ok w" using invD(2)[OF assms(1)] .
  show ?thesis
  proof (cases rule: NewKeys_cases[of keys w1])
    case (err e xs)
    then have "fail_chan (next_ptr w) (RemoveE (removeResult_err ''new keys allocation failed'' e))
        (w1\<lparr>alloc_fails := xs\<rparr>) = Done (ch, w')"
      using assms(3) by (simp add: run)
    then show ?thesis using assms(1,2)
      by (rule fail_late_ext) (use ptr in \<open>auto simp: w1_def p_def world_defs\<close>)
  next
    case (keys xs ks)
    show ?thesis
      by (rule opens_two[OF assms(1,2), where ch = p and v = "FnRemove (BulkRemoveRes p (Suc p))"
        and f = "BulkRemoveFin p (counter w + 1) (counter w + 1 + 1)" and s = "s_session s"
        and fn = "C_bulk_remove (kk ks)"])
       (use assms(3) keys ptr in \<open>auto simp: run world_defs transform_keys_def sess_do_def names_of_def
          split: option.splits if_splits\<close>)
  qed
qed

lemma bulk_insert_eq:
  "bulk_insert xs bulk w = Done ((err, bulk'), w') \<Longrightarrow> \<exists>ys. w' = w\<lparr>alloc_fails := ys\<rparr>"
proof (induction xs bulk w rule: bulk_insert.induct)
  case (1 bulk w)
  then show ?case by (auto intro: exI[of _ "alloc_fails w"])
next
  case (2 attr v rest bulk w)
  obtain ok ys where a: "c_alloc w = (ok, w\<lparr>alloc_fails := ys\<rparr>)" using c_alloc_eq by blast
  obtain ok2 zs where b: "c_alloc (w\<lparr>alloc_fails := ys\<rparr>) = (ok2, w\<lparr>alloc_fails := zs\<rparr>)"
    using c_alloc_eq[of "w\<lparr>alloc_fails := ys\<rparr>"] by auto
  show ?case
    using 2(2) 2(1)[OF a[symmetric] refl _ _ b[symmetric] refl] a b
    by (auto simp: Let_def split: sum.splits if_splits)
qed

text \<open>What \<^verbatim>\<open>BulkWrite\<close> does once the blobs are collected.\<close>

lemma BulkWrite_request_ext:
  assumes "inv w" "room 3 w"
    and "(case NewKeys names w of
        (Inl e, w) \<Rightarrow> makeLookuperChan (Some e) defaultVOLUME w
      | (Inr keys, w) \<Rightarrow>
          bindO (makeLookuperChan None defaultVOLUME w) (\<lambda>(responseCh, w).
            let (onResultContext, w) = NextContext w;
                (onFinishContext, w) = NextContext w;
                w = Store onResultContext (FnLookup (BulkWriteRes responseCh keys)) w;
                w = Store onFinishContext
                      (FnFinal (BulkWriteFin responseCh keys onResultContext onFinishContext)) w
            in mapO (Pair responseCh)
                 (session_bulk_write L (s_session s) onResultContext onFinishContext bulk w)))
      = Done (ch, w')"
  shows "extends w w'"
proof (cases rule: NewKeys_cases[of names w])
  case (err e xs)
  then show ?thesis
    using assms(3) makeLookuperChan_ext[of "w\<lparr>alloc_fails := xs\<rparr>"] ext_alloc_fails[OF assms(1), of xs]
      extends_inv extends_trans by (auto 4 3)
next
  case (keys xs ks)
  then obtain ios where ios: "mapM (bulk_io L) (map fst bulk) = Done ios"
    using assms(3) by (auto simp: makeLookuperChan_def op_defs session_bulk_write_def simp del: map_map)
  show ?thesis
    by (rule opens_two[OF assms(1,2), where ch = ch and v = "FnLookup (BulkWriteRes ch (next_ptr w))"
        and f = "BulkWriteFin ch (next_ptr w) (counter w + 1) (counter w + 1 + 1)" and s = "s_session s"
        and fn = "C_bulk_write ios (map snd bulk)"])
      (use assms(3) keys ios invD(2)[OF assms(1)] in
        \<open>auto simp: makeLookuperChan_def op_defs world_defs session_bulk_write_def split: option.splits if_splits\<close>)
qed

lemma BulkWrite_ext:
  assumes "inv w" "room 3 w" "BulkWrite L s attrs data w = Done (ch, w')"
  shows "extends w w'"
proof -
  obtain ok xs where a: "c_alloc w = (ok, w\<lparr>alloc_fails := xs\<rparr>)" using c_alloc_eq by blast
  have ext: "extends w (w\<lparr>alloc_fails := ys\<rparr>)" for ys using ext_alloc_fails[OF assms(1)] .
  have w1: "inv (w\<lparr>alloc_fails := ys\<rparr>)" "room 3 (w\<lparr>alloc_fails := ys\<rparr>)" for ys
    using assms(2) extends_inv[OF ext] by (simp_all add: room_def)
  have "\<exists>ys. extends (w\<lparr>alloc_fails := ys\<rparr>) w'"
  proof (cases "ok \<and> length attrs = length data")
    case False
    then have "\<exists>e. makeLookuperChan (Some e) defaultVOLUME (w\<lparr>alloc_fails := xs\<rparr>) = Done (ch, w')"
      using assms(3) a by (auto simp: BulkWrite_def defer_bulk_free_def split: if_splits)
    then show ?thesis using makeLookuperChan_ext[OF w1(1)] by blast
  next
    case True
    then obtain err bulk ys where
        l: "bulk_insert (zip attrs data) [] (w\<lparr>alloc_fails := xs\<rparr>) = Done ((err, bulk), w\<lparr>alloc_fails := ys\<rparr>)"
      using assms(3) a bulk_insert_eq[of "zip attrs data" "[]" "w\<lparr>alloc_fails := xs\<rparr>"]
      by (fastforce simp: BulkWrite_def)
    show ?thesis
    proof (cases err)
      case None
      have "extends (w\<lparr>alloc_fails := ys\<rparr>) w'"
        by (rule BulkWrite_request_ext[OF w1(1)[of ys] w1(2)[of ys], where s = s and L = L and bulk = bulk and ch = ch
              and names = "map (\<lambda>a. string_of_bytes (IO_ID a)) attrs"])
          (use assms(3) a True l None in \<open>auto simp: BulkWrite_def defer_bulk_free_def simp del: prod.case_eq_if split: if_splits\<close>)
      then show ?thesis by blast
    next
      case (Some e)
      then have "makeLookuperChan (Some e) defaultVOLUME (w\<lparr>alloc_fails := ys\<rparr>) = Done (ch, w')"
        using assms(3) a True l by (auto simp: BulkWrite_def defer_bulk_free_def split: if_splits)
      then show ?thesis using makeLookuperChan_ext[OF w1(1)[of ys]] by blast
    qed
  qed
  then show ?thesis using ext extends_trans by blast
qed

subsection \<open>Indexes\<close>

lemma FindAllIndexes_ext:
  assumes "inv w" "room 3 w" "FindAllIndexes s indexes w = Done (ch, w')"
  shows "extends w w'"
  using assms(3) invD(2)[OF assms(1)]
  by (intro opens_two[OF assms(1,2), where ch = "next_ptr w" and v = "FnFind (next_ptr w)"
        and f = "FindIndexesFin (next_ptr w) (counter w + 1) (counter w + 1 + 1)" and s = "s_session s"
        and fn = "C_find_all_indexes (map c_string indexes)"])
    (auto simp: FindAllIndexes_def findIndexes_def op_defs world_defs split: option.splits if_splits)

lemma FindAnyIndexes_ext:
  assumes "inv w" "room 3 w" "FindAnyIndexes s indexes w = Done (ch, w')"
  shows "extends w w'"
  using assms(3) invD(2)[OF assms(1)]
  by (intro opens_two[OF assms(1,2), where ch = "next_ptr w" and v = "FnFind (next_ptr w)"
        and f = "FindIndexesFin (next_ptr w) (counter w + 1) (counter w + 1 + 1)" and s = "s_session s"
        and fn = "C_find_any_indexes (map c_string indexes)"])
    (auto simp: FindAnyIndexes_def findIndexes_def op_defs world_defs split: option.splits if_splits)

lemma setOrUpdateIndexes_ext:
  assumes "inv w" "room 3 w" "setOrUpdateIndexes s operation key indexes w = Done (ch, w')"
  shows "extends w w'"
proof (cases rule: NewKey_cases[of "[ArgString key]" w])
  case (err e xs)
  then show ?thesis using assms(3) by (simp add: setOrUpdateIndexes_def)
next
  case (key xs k)
  let ?p = "Suc (next_ptr w)" and ?c = "map (\<lambda>(i, d). (c_string i, d)) indexes"
  show ?thesis
    by (rule opens_two[OF assms(1,2), where ch = ?p and v = FnNullary
        and f = "SetIndexesFin ?p (counter w + 1) (counter w + 1 + 1)" and s = "s_session s"
        and fn = "case operation of indexesSet \<Rightarrow> C_set_indexes k ?c | indexesUpdate \<Rightarrow> C_update_indexes k ?c"])
      (use assms(3) key invD(2)[OF assms(1)] in
        \<open>auto simp: setOrUpdateIndexes_def op_defs world_defs defer_Free_def Key_Free_def
          split: option.splits if_splits index_op.splits\<close>)
qed

lemma ListIndexes_ext:
  assumes "inv w" "room 3 w" "ListIndexes s key w = Done (ch, w')"
  shows "extends w w'"
proof -
  define p where "p = next_ptr w"
  define w1 where "w1 = w\<lparr>next_ptr := Suc p, chans := (chans w)(p \<mapsto> chan_make defaultVOLUME)\<rparr>"
  note run = ListIndexes_def op_defs p_def w1_def
  show ?thesis
  proof (cases rule: NewKey_cases[of "[ArgString key]" w1])
    case (err e xs)
    then show ?thesis using assms(3) by (simp add: run)
  next
    case (key xs k)
    show ?thesis
      by (rule opens_two[OF assms(1,2), where ch = p and v = "FnEntry p"
        and f = "ListIndexesFin p (counter w + 1) (counter w + 1 + 1)" and s = "s_session s"
        and fn = "C_list_indexes k"])
       (use assms(3) key invD(2)[OF assms(1)] in \<open>auto simp: run world_defs defer_Free_def Key_Free_def
          split: option.splits if_splits\<close>)
  qed
qed

lemma RemoveIndexes_ext:
  assumes "inv w" "room 3 w" "RemoveIndexes s key indexes w = Done (ch, w')"
  shows "extends w w'"
proof (cases rule: NewKey_cases[of "[ArgString key]" w])
  case (err e xs)
  then show ?thesis using assms(3) by (simp add: RemoveIndexes_def)
next
  case (key xs k)
  let ?p = "Suc (next_ptr w)"
  show ?thesis
    by (rule opens_two[OF assms(1,2), where ch = ?p and v = FnNullary
        and f = "RemoveIndexesFin ?p (counter w + 1) (counter w + 1 + 1)" and s = "s_session s"
        and fn = "C_remove_indexes k (map c_string indexes)"])
      (use assms(3) key invD(2)[OF assms(1)] in
        \<open>auto simp: RemoveIndexes_def op_defs world_defs defer_Free_def Key_Free_def
          split: option.splits if_splits\<close>)
qed

subsection \<open>Backends\<close>

lemma backend_request_ext:
  assumes "inv w" "room 3 w" "\<And>a. is_backend_fn (fn a)" "backend_request L s addr fn w = Done (ch, w')"
  shows "extends w w'"
  using assms(4) invD(2)[OF assms(1)] assms(3)
  by (intro opens_backend[OF assms(1,2), where ch = "next_ptr w" and s = "s_session s"
        and fn = "fn (CAddr L addr (dnet_addr_alloc L))"])
    (auto simp: backend_request_def op_defs world_defs split: option.splits if_splits)

subsection \<open>Statistics\<close>

lemma go_route_callback_stats:
  "go_route_callback L now e k w = Done w' \<Longrightarrow> \<exists>m. w' = w\<lparr>stats := m\<rparr>"
proof -
  assume "go_route_callback L now e k w = Done w'"
  then obtain entry v where "pool w k = Some v" and v: "(case v of StatObj stat \<Rightarrow>
      (case stats w stat of None \<Rightarrow> Panic NilPointer
       | Some st \<Rightarrow> mapO (\<lambda>st. w\<lparr>stats := (stats w)(stat \<mapsto> st)\<rparr>) (AddRouteEntry L now entry st))
      | _ \<Rightarrow> Panic TypeAssertion) = Done w'"
    by (auto simp: go_route_callback_def with_context_def Get_def split: option.splits)
  from v show ?thesis by (cases v) (auto split: option.splits)
qed

lemma session_get_routes_stats:
  assumes "session_get_routes L now es s k w = Done w'"
  shows "\<exists>m. w' = w\<lparr>stats := m\<rparr>"
proof -
  have "steps (map (\<lambda>e. go_route_callback L now e k) es) w = Done w'"
    using assms by (simp add: session_get_routes_def split: if_splits)
  then show ?thesis
  proof (rule steps_invariant[where P = "\<lambda>v. \<exists>m. v = w\<lparr>stats := m\<rparr>"])
    show "\<exists>m. w = w\<lparr>stats := m\<rparr>" by (rule exI[of _ "stats w"]) simp
  qed (auto dest!: go_route_callback_stats)
qed

lemma GetRoutes_shape:
  assumes "GetRoutes L now es s st w = Done w'"
  shows "\<exists>m. w' = w\<lparr>counter := counter w + 1, stats := m, pool := (pool w)(counter w + 1 := None)\<rparr>"
  by (insert assms, auto simp: GetRoutes_def NextContext_def Store_def Delete_def delete_ctx_def finalize_stat_def Let_def
      split: option.splits dest!: session_get_routes_stats, rule exI, rule refl)

lemma GetRoutes_ext:
  assumes "inv w" "room 1 w" "GetRoutes L now es s st w = Done w'"
  shows "extends w w'"
proof -
  have u: "unat (counter w + 1) = unat (counter w) + 1"
    using assms(2) by (intro unat_Suc_small) (simp add: room_def)
  then have le: "counter w \<le> counter w + 1" and new: "\<not> issued (counter w + 1) w"
    by (simp_all add: issued_def word_le_nat_alt)
  obtain m where w': "w' = w\<lparr>counter := counter w + 1, stats := m, pool := (pool w)(counter w + 1 := None)\<rparr>"
    using GetRoutes_shape[OF assms(3)] by blast
  have "pool w' = pool w" using not_issued_pool[OF assms(1) new] by (auto simp: w')
  moreover have "pool_wf w'"
    using invD(1)[OF assms(1)] le by (auto simp: w' pool_wf_def issued_def intro: order_trans)
  moreover have "heap_ext w w'" "\<And>p. next_ptr w \<le> p \<Longrightarrow> \<not> open_chan w' p"
    using invD(2)[OF assms(1)] by (simp_all add: w' heap_ext_def ptrs_ok_def open_chan_def)
  ultimately show ?thesis using le by (intro quiet_ext[OF assms(1)]) (simp_all add: w')
qed

lemma DnetStat_request_ext:
  assumes "inv w" "room 3 w" "DnetStat_request L now es s w = Done (ch, st, w')"
  shows "extends w w'"
proof -
  obtain w1 where w1: "c_request (s_session s) (C_get_stats stat_categories) (counter w + 1) (counter w + 1 + 1)
        (w\<lparr>next_ptr := Suc (next_ptr w), chans := (chans w)(next_ptr w \<mapsto> chan_make 10), counter := counter w + 1 + 1,
          pool := (pool w)(counter w + 1 \<mapsto> FnStat (next_ptr w), counter w + 1 + 1 \<mapsto>
            FnFinal (StatFin (next_ptr w) (counter w + 1) (counter w + 1 + 1)))\<rparr>) = Done w1"
    and r: "GetRoutes L now es s (next_ptr w1)
        (w1\<lparr>next_ptr := Suc (next_ptr w1), stats := (stats w1)(next_ptr w1 \<mapsto> DnetStat_new)\<rparr>) = Done w'"
    using assms(3)
    by (auto simp: DnetStat_request_def make_chan_def new_ptr_def NextContext_def Store_def Let_def)
  let ?w2 = "w1\<lparr>next_ptr := Suc (next_ptr w1), stats := (stats w1)(next_ptr w1 \<mapsto> DnetStat_new)\<rparr>"
  have ext: "extends w ?w2"
    by (rule opens_two[OF assms(1,2), where ch = "next_ptr w" and v = "FnStat (next_ptr w)"
        and f = "StatFin (next_ptr w) (counter w + 1) (counter w + 1 + 1)" and s = "s_session s"
        and fn = "C_get_stats stat_categories"])
      (use w1 invD(2)[OF assms(1)] in \<open>auto simp: op_defs world_defs split: option.splits if_splits\<close>)
  have "counter ?w2 = counter w + 1 + 1" using w1 by (auto simp: c_request_def split: if_splits)
  then have "room 1 ?w2" using ctx_unat(2)[OF assms(2)] assms(2) by (simp add: room_def)
  from extends_trans[OF ext GetRoutes_ext[OF extends_inv[OF ext] this r]] show ?thesis .
qed

end
