(* ===== verification/Finishes.thy ===== *)
theory Finishes
  imports Starts
begin

text \<open>
  The callbacks of the client library keep the invariant of theory \<open>Requests\<close>. A result
  callback only puts values into the request's channel; a final callback closes the
  channel and removes everything the request owns, or, in a chunked write, hands over the
  next request with the same resources.
\<close>

section \<open>Definitions\<close>

text \<open>A result entry, as the static functions of \<^verbatim>\<open>session.cpp\<close> hand it to Go.\<close>

datatype reply =
    ReadR read_result_entry            \<comment> \<open>\<^verbatim>\<open>on_read\<close>\<close>
  | LookupR error_info go_lookup_result \<comment> \<open>\<^verbatim>\<open>on_lookup\<close>\<close>
  | RemoveR c_dnet_cmd                 \<comment> \<open>\<^verbatim>\<open>on_remove\<close>\<close>
  | FindR go_find_result               \<comment> \<open>\<^verbatim>\<open>on_find\<close>\<close>
  | EntryR c_index_entry               \<comment> \<open>\<^verbatim>\<open>on_list_indexes\<close>\<close>
  | StatR go_stat_result               \<comment> \<open>\<^verbatim>\<open>on_stat_one\<close>\<close>
  | SetR                               \<comment> \<open>\<^verbatim>\<open>on_set_indexes\<close>, which ignores it\<close>

fun deliver :: "ell_lib \<Rightarrow> reply \<Rightarrow> u64 \<Rightarrow> world \<Rightarrow> world outcome" where
  "deliver L (ReadR r) context = on_read L context r"
| "deliver L (LookupR e r) context = on_lookup L context e r"
| "deliver L (RemoveR r) context = go_remove_callback L r context"
| "deliver L (FindR r) context = go_find_callback r context"
| "deliver L (EntryR r) context = go_index_entry_callback r context"
| "deliver L (StatR r) context = go_stat_callback L r context"
| "deliver L SetR context = skip"

text \<open>Which function each request connects to its results.\<close>

fun connected :: "c_fn \<Rightarrow> reply \<Rightarrow> bool" where
  "connected (C_read_data _ _ _) r = (\<exists>x. r = ReadR x)"
| "connected (C_bulk_read _) r = (\<exists>x. r = ReadR x)"
| "connected (C_write_data _ _ _) r = (\<exists>e x. r = LookupR e x)"
| "connected (C_write_cache _ _ _) r = (\<exists>e x. r = LookupR e x)"
| "connected (C_write_prepare _ _ _ _) r = (\<exists>e x. r = LookupR e x)"
| "connected (C_write_plain _ _ _) r = (\<exists>e x. r = LookupR e x)"
| "connected (C_write_commit _ _ _ _) r = (\<exists>e x. r = LookupR e x)"
| "connected (C_lookup _) r = (\<exists>e x. r = LookupR e x)"
| "connected (C_parallel_lookup _) r = (\<exists>e x. r = LookupR e x)"
| "connected (C_remove _) r = (\<exists>x. r = RemoveR x)"
| "connected (C_bulk_write _ _) r = (\<exists>e x. r = LookupR e x)"
| "connected (C_bulk_remove _) r = (\<exists>x. r = RemoveR x)"
| "connected (C_find_all_indexes _) r = (\<exists>x. r = FindR x)"
| "connected (C_find_any_indexes _) r = (\<exists>x. r = FindR x)"
| "connected (C_set_indexes _ _) r = (r = SetR)"
| "connected (C_update_indexes _ _) r = (r = SetR)"
| "connected (C_list_indexes _) r = (\<exists>x. r = EntryR x)"
| "connected (C_remove_indexes _ _) r = (r = SetR)"
| "connected (C_get_stats _) r = (\<exists>x. r = StatR x)"
| "connected _ r = False"

text \<open>
  The C data is what its types say (\<open>reply_sized\<close>): identifiers and addresses are full arrays,
  sizes are those of the buffers and below \<open>2 ^ 31\<close> (a C \<^verbatim>\<open>int\<close>). An entry of a read can miss its
  parts (\<open>reply_complete\<close>), as entries that are no replies do when the filter lets them through;
  the accessors of the other entries are taken to return.
\<close>

definition entry_wf :: "c_index_entry \<Rightarrow> bool" where
  "entry_wf e \<longleftrightarrow> length (ce_data e) = unat (ce_size e) \<and> unat (ce_size e) < 2147483648"

definition cmd_wf :: "ell_lib \<Rightarrow> c_dnet_cmd \<Rightarrow> bool" where
  "cmd_wf L c \<longleftrightarrow> length (cc_id c) = DNET_ID_SIZE L \<and> 0 < DNET_ID_SIZE L"

fun reply_sized :: "ell_lib \<Rightarrow> reply \<Rightarrow> bool" where
  "reply_sized L (ReadR r) =
     (cmd_wf L (re_command r) \<and> c_addr_ok L (re_address r) \<and>
      (\<forall>d mem. re_file r = Some d \<and> dp_data d = At mem \<longrightarrow>
         length mem = unat (dp_size d) \<and> unat (dp_size d) < 2147483648))"
| "reply_sized L (LookupR e r) =
     (cmd_wf L (glr_cmd r) \<and> c_addr_ok L (glr_addr r) \<and> c_addr_ok L (glr_storage_addr r))"
| "reply_sized L (RemoveR c) = cmd_wf L c"
| "reply_sized L (FindR r) = (\<forall>e \<in> set (gfr_entries r). entry_wf e)"
| "reply_sized L (EntryR e) = entry_wf e"
| "reply_sized L (StatR r) =
     (c_addr_ok L (gst_addr r) \<and>
      (case gst_data r of None \<Rightarrow> True
       | Some mem \<Rightarrow> length mem = unat (gst_size r) \<and> unat (gst_size r) < 2147483648))"
| "reply_sized L SetR = True"

fun reply_complete :: "reply \<Rightarrow> bool" where
  "reply_complete (ReadR r) =
     (re_io_attribute r \<noteq> None \<and>
      (case re_file r of None \<Rightarrow> False | Some d \<Rightarrow> dp_data d = Unset \<longrightarrow> dp_size d = 0))"
| "reply_complete _ = True"

abbreviation reply_wf :: "ell_lib \<Rightarrow> reply \<Rightarrow> bool" where
  "reply_wf L r \<equiv> reply_sized L r \<and> reply_complete r"

text \<open>The end of a request.\<close>

datatype completion =
    Final error_info                                       \<comment> \<open>\<^verbatim>\<open>on_finish\<close>\<close>
  | BackendDone "c_backend_status_list list" error_info    \<comment> \<open>\<^verbatim>\<open>on_backend_status\<close>\<close>

fun run_completion :: "completion \<Rightarrow> u64 \<Rightarrow> world \<Rightarrow> world outcome" where
  "run_completion (Final e) context = on_finish context e"
| "run_completion (BackendDone l e) context = on_backend_status context l e"

text \<open>The library forgets the request and calls its final handler.\<close>

definition complete :: "ccall \<Rightarrow> completion \<Rightarrow> world \<Rightarrow> world outcome" where
  "complete c x w =
     run_completion x (call_final c) (w\<lparr>inflight := filter (\<lambda>d. d \<noteq> c) (inflight w)\<rparr>)"

text \<open>
  A request is ended by the handler it was given, and a status list has the elements it counts
  (\<open>completion_sized\<close>). \<^verbatim>\<open>on_backend_status\<close> reads the first list without a test: there is one
  unless an error is reported (\<open>status_present\<close>).
\<close>

fun completion_sized :: "c_fn \<Rightarrow> completion \<Rightarrow> bool" where
  "completion_sized fn (Final e) = (\<not> is_backend_fn fn)"
| "completion_sized fn (BackendDone l e) =
     (is_backend_fn fn \<and> (\<forall>x \<in> set l. length (cbl_backends x) = unat (cbl_count x)))"

fun status_present :: "completion \<Rightarrow> bool" where
  "status_present (Final e) = True"
| "status_present (BackendDone l e) = (ei_code e = 0 \<longrightarrow> l \<noteq> [])"

abbreviation completion_ok :: "c_fn \<Rightarrow> completion \<Rightarrow> bool" where
  "completion_ok fn x \<equiv> completion_sized fn x \<and> status_present x"

text \<open>Requests whose result closure is stored under the type the callback asserts.\<close>

fun typed_fn :: "c_fn \<Rightarrow> bool" where
  "typed_fn (C_write_data _ _ _) = False"
| "typed_fn (C_write_cache _ _ _) = False"
| "typed_fn _ = True"

text \<open>What a final closure does to the world when it ends its request.\<close>

definition final_effect :: "final_fn \<Rightarrow> world \<Rightarrow> world \<Rightarrow> bool" where
  "final_effect f w w' \<longleftrightarrow>
     counter w' = counter w \<and> next_ptr w' = next_ptr w \<and> sessions w' = sessions w \<and>
     ckeys w' = ckeys w \<and> inflight w' = inflight w \<and>
     pool w' = pool w |` (- set (fin_ctx (wchunks w) f)) \<and>
     (\<forall>p. fin_chan (wchunks w) f \<noteq> Some p \<longrightarrow> chans w' p = chans w p) \<and>
     (\<forall>p. fin_chan (wchunks w) f = Some p \<longrightarrow>
        chans w p \<noteq> None \<and> (\<exists>c'. chans w' p = Some c' \<and> ch_closed c')) \<and>
     (\<forall>p. fin_keys f \<noteq> Some p \<longrightarrow> ckeyss w' p = ckeyss w p) \<and>
     (\<forall>p. ckeyss w p = None \<longrightarrow> ckeyss w' p = None) \<and>
     (\<forall>p. fin_wc f \<noteq> Some p \<longrightarrow> wchunks w' p = wchunks w p) \<and>
     (\<forall>p. wchunks w p = None \<longrightarrow> wchunks w' p = None)"

text \<open>The response channel of a request in flight.\<close>

definition resp_chan :: "world \<Rightarrow> ccall \<Rightarrow> ptr option" where
  "resp_chan w c =
     (case pool w (call_final c) of
        Some (FnFinal f) \<Rightarrow> fin_chan (wchunks w) f
      | Some (FnBackends ch _) \<Rightarrow> Some ch
      | _ \<Rightarrow> None)"

text \<open>It does not panic, and it returns as soon as the channel has room.\<close>

definition waits_for :: "world \<Rightarrow> ptr \<Rightarrow> 'a outcome \<Rightarrow> bool" where
  "waits_for w ch r \<longleftrightarrow>
     \<not> panics r \<and> ((\<exists>c. chans w ch = Some c \<and> chan_has_room c) \<longrightarrow> returns r)"

text \<open>The variables of a chunked write after one more piece of the input, and the request for it.\<close>

definition next_chunk :: "bytes \<Rightarrow> reader \<Rightarrow> wchunk \<Rightarrow> wchunk" where
  "next_chunk bs input v =
     v\<lparr>wc_input := input, wc_n64 := of_nat (length bs), wc_total := wc_total v - of_nat (length bs),
       wc_offset := wc_offset v + of_nat (length bs)\<rparr>"

definition chunk_fn :: "wchunk \<Rightarrow> bytes \<Rightarrow> c_fn" where
  "chunk_fn v bs =
     (if wc_total v \<noteq> 0
      then C_write_plain (KeyRemote (c_string (wc_key v))) (wc_offset v - of_nat (length bs)) bs
      else C_write_commit (KeyRemote (c_string (wc_key v))) (wc_offset v - of_nat (length bs)) (wc_offset v) bs)"

text \<open>The same for a request that may have no channel: it is given room if it has one.\<close>

definition may_proceed :: "world \<Rightarrow> ccall \<Rightarrow> bool" where
  "may_proceed w c \<longleftrightarrow>
     (\<forall>ch. resp_chan w c = Some ch \<longrightarrow> (\<exists>b. chans w ch = Some b \<and> chan_has_room b))"

section \<open>Lemmas\<close>

subsection \<open>Channels of the world\<close>

lemma send_Done:
  "send ch e w = Done w' \<longleftrightarrow>
   (\<exists>c. chans w ch = Some c \<and> chan_has_room c \<and>
      w' = w\<lparr>chans := (chans w)(ch \<mapsto> c\<lparr>ch_buf := ch_buf c @ [e]\<rparr>)\<rparr>)"
  by (auto simp: send_def on_chan_def chan_send_Done split: option.splits)

lemma send_no_panic: "open_chan w ch \<Longrightarrow> \<not> panics (send ch e w)"
  by (auto simp: open_chan_def send_def on_chan_def chan_send_no_panic)

lemma close_chan_Done:
  "close_chan ch w = Done w' \<longleftrightarrow>
   (\<exists>c. chans w ch = Some c \<and> \<not> ch_closed c \<and> w' = w\<lparr>chans := (chans w)(ch \<mapsto> c\<lparr>ch_closed := True\<rparr>)\<rparr>)"
  by (auto simp: close_chan_def on_chan_def chan_close_def split: option.splits if_splits)

lemma close_chan_open: "open_chan w ch \<Longrightarrow> returns (close_chan ch w)"
  by (auto simp: open_chan_def close_chan_def on_chan_def chan_close_def)

lemma similarI:
  assumes "inv w" "w' = w\<lparr>chans := cs\<rparr> \<or> w' = w\<lparr>chans := cs, user_log := l\<rparr>"
    and "\<And>p. chans w p = None \<Longrightarrow> cs p = None"
    and "\<And>p. open_chan w' p = open_chan w p"
  shows "similar w w'"
  using assms invD(1,2)[OF assms(1)]
  by (auto simp: similar_def pool_wf_def issued_def ptrs_ok_def)

lemma send_similar:
  assumes "inv w" "send ch e w = Done w'"
  shows "similar w w'"
  using assms by (auto simp: send_Done chan_has_room_def open_chan_def intro!: similarI split: if_splits)

lemma receive_similar:
  assumes "inv w"
  shows "similar w (receive ch w)"
proof -
  have same: "similar w w"
    using invD(1,2)[OF assms] by (simp add: similar_def)
  show ?thesis
  proof (cases "chans w ch")
    case (Some c)
    show ?thesis
    proof (cases "chan_recv c")
      case (Got v c')
      have "ch_closed c' = ch_closed c" using ch_log_recv[OF Got] by simp
      then show ?thesis
        using Some Got assms
        by (auto simp: receive_def open_chan_def intro!: similarI split: if_splits)
    qed (use Some same in \<open>simp_all add: receive_def\<close>)
  qed (use same in \<open>simp add: receive_def\<close>)
qed

lemma similar_refl: "inv w \<Longrightarrow> similar w w"
  using invD(1,2)[of w] by (simp add: similar_def)

subsection \<open>Result callbacks\<close>

lemma call_read_similar: "inv w \<Longrightarrow> call_read L f r w = Done w' \<Longrightarrow> similar w w'"
  by (cases f) (auto simp: ReadKey_onResult_def BulkRead_onResult_def bindO_sum_Done
      simp del: bindO_eq_Done intro: similar_refl send_similar)

lemma call_lookup_similar: "inv w \<Longrightarrow> call_lookup L f r w = Done w' \<Longrightarrow> similar w w'"
  by (cases f) (auto simp: WriteChunk_onChunkResult_def BulkWrite_onResult_def bindO_sum_Done
      simp del: bindO_eq_Done intro: similar_refl send_similar split: option.splits if_splits)

lemma call_remove_similar: "inv w \<Longrightarrow> call_remove L f r w = Done w' \<Longrightarrow> similar w w'"
  by (cases f) (auto simp: BulkRemove_onResult_def bindO_sum_Done
      simp del: bindO_eq_Done intro: similar_refl send_similar split: option.splits if_splits)

lemma with_context_Done:
  "with_context p k f w = Done w' \<longleftrightarrow> (\<exists>v. pool w k = Some v \<and> f v = Done w')"
  by (auto simp: with_context_def split: sum.splits)

lemma with_context_found: "pool w k = Some v \<Longrightarrow> with_context p k f w = f v"
  by (simp add: with_context_def Get_def)

text \<open>Results only fill channels.\<close>

lemma deliver_similar:
  assumes "inv w" "deliver L r k w = Done w'"
  shows "similar w w'"
proof (cases "r = SetR")
  case True
  then show ?thesis using assms similar_refl by simp
next
  case False
  note defs = on_read_def io_attribute_def go_read_callback_def on_lookup_def go_lookup_callback_def go_lookup_error_def
    go_remove_callback_def go_find_callback_def go_index_entry_callback_def go_stat_callback_def
  obtain v where v: "pool w k = Some v"
    using assms(2) False by (cases r) (auto simp: defs with_context_Done split: if_splits option.splits)
  then show ?thesis
    using assms False call_read_similar[OF assms(1)] call_lookup_similar[OF assms(1)]
      call_remove_similar[OF assms(1)] send_similar[OF assms(1)]
    by (cases r; cases v) (auto simp: defs with_context_found split: if_splits option.splits c_field.splits)
qed

text \<open>
  No result panics: its context is in the pool, the closure there has the asserted type,
  its channel is open and its key array is alive.
\<close>

lemma Keys_Find_total: "i \<noteq> [] \<Longrightarrow> \<exists>r. Keys_Find L keys i = Done r"
  by (simp add: Keys_Find_def)

lemma find_in_total:
  assumes "ckeyss w ks \<noteq> None" "i \<noteq> []"
  shows "\<exists>r. find_in L ks i w = Done r"
  using assms Keys_Find_total by (auto simp: find_in_def)

lemma ID_nonempty: "cmd_wf L c \<Longrightarrow> ID (Cmd_ID (NewDnetCmd L c)) \<noteq> []"
  by (auto simp: cmd_wf_def NewDnetCmd_def GoBytes_array_def)

lemma read_data_parts:
  assumes "reply_wf L (ReadR r)" "re_file r = Some d"
  shows "read_data \<lparr>grr_cmd = a, grr_addr = b, grr_io = io, grr_file = dp_data d, grr_size = dp_size d\<rparr> =
    Done (case dp_data d of At mem \<Rightarrow> mem | _ \<Rightarrow> [])"
  using assms by (cases "dp_data d") (auto simp: read_data_def c_GoBytes_all word_gt_0 unat_eq_0)

text \<open>A complete entry reaches the closure.\<close>

lemma on_read_calls:
  assumes "pool w k = Some (FnRead f)" "reply_wf L (ReadR r)" "NewDnetAddr (re_address r) = Done a"
  shows "\<exists>io d. re_io_attribute r = Some io \<and> re_file r = Some d \<and>
    on_read L k r w = call_read L f \<lparr>rr_cmd = NewDnetCmd L (re_command r), rr_addr = a,
      rr_ioattr = NewDnetIOAttr L io, rr_data = (case dp_data d of At mem \<Rightarrow> mem | _ \<Rightarrow> []),
      rr_err = None, rr_key = []\<rparr> w"
proof -
  obtain io d where r: "re_io_attribute r = Some io" "re_file r = Some d"
    using assms(2) by (cases "re_file r"; cases "re_io_attribute r") auto
  then show ?thesis
    using assms(1,3) read_data_parts[OF assms(2) r(2)]
    by (simp add: on_read_def go_read_callback_def io_attribute_def with_context_found)
qed

lemma stat_bytes_wf:
  "reply_wf L (StatR x) \<Longrightarrow> stat_bytes x = Done (case gst_data x of None \<Rightarrow> [] | Some mem \<Rightarrow> mem)"
  by (auto simp: stat_bytes_def c_GoBytes_all unat_eq_0 split: option.splits)

lemma index_entry_wf: "entry_wf e \<Longrightarrow> index_entry e = Done \<lparr>ie_Data = string_of_bytes (ce_data e), ie_err = None\<rparr>"
  by (simp add: index_entry_def c_GoStringN_def entry_wf_def c_GoBytes_all)

text \<open>What the result closure of a request in flight can be, by the request's C function.\<close>

lemma resp_chan_open: "call_ok w c \<Longrightarrow> resp_chan w c = Some ch \<Longrightarrow> open_chan w ch"
  by (erule call_ok_cases) (auto simp: resp_chan_def dest: fin_callD(8))

lemma resp_chan_typed:
  assumes "call_ok w c" "typed_fn (call_fn c)"
  shows "\<exists>ch. resp_chan w c = Some ch"
  using assms(1)
proof (cases rule: call_ok_cases)
  case (final f)
  then show ?thesis
    using fin_callD(1,9)[OF final(2)] assms(2) by (cases f) (auto simp: resp_chan_def)
qed (simp add: resp_chan_def)

lemma result_closure:
  assumes "call_ok w c" "connected (call_fn c) r" "typed_fn (call_fn c)" "resp_chan w c = Some ch"
  obtains
    (read) x where "pool w (call_result c) = Some (FnRead (ReadKeyRes ch))" "r = ReadR x"
  | (bread) ks x where "pool w (call_result c) = Some (FnRead (BulkReadRes ch ks))"
      "ckeyss w ks \<noteq> None" "r = ReadR x"
  | (chunk) p v e x where "pool w (call_result c) = Some (FnLookup (WriteChunkRes p))"
      "wchunks w p = Some v" "wc_chan v = ch" "r = LookupR e x"
  | (lookup) e x where "pool w (call_result c) = Some (FnLookup (LookupRes ch)) \<or>
      pool w (call_result c) = Some (FnLookup (ParallelLookupRes ch))" "r = LookupR e x"
  | (bwrite) ks e x where "pool w (call_result c) = Some (FnLookup (BulkWriteRes ch ks))"
      "ckeyss w ks \<noteq> None" "r = LookupR e x"
  | (remove) x where "pool w (call_result c) = Some (FnRemove (RemoveKeyRes ch))" "r = RemoveR x"
  | (bremove) ks x where "pool w (call_result c) = Some (FnRemove (BulkRemoveRes ch ks))"
      "ckeyss w ks \<noteq> None" "r = RemoveR x"
  | (find) x where "pool w (call_result c) = Some (FnFind ch)" "r = FindR x"
  | (entry) x where "pool w (call_result c) = Some (FnEntry ch)" "r = EntryR x"
  | (stat) x where "pool w (call_result c) = Some (FnStat ch)" "r = StatR x"
  | (set) "r = SetR"
  using assms(1)
proof (cases rule: call_ok_cases)
  case (final f)
  note D = fin_callD[OF final(2)]
  obtain v where v: "pool w (call_result c) = Some v" "pair_ok f v" using D(5) by blast
  note keys = D(7)[OF v(1)]
  have ch: "fin_chan (wchunks w) f = Some ch" using assms(4) final(1) by (simp add: resp_chan_def)
  show ?thesis
  proof (cases f)
    case (WriteChunkFin p)
    then obtain u e x where "wchunks w p = Some u" "r = LookupR e x" using D(1,9) assms(2) by auto
    then show ?thesis using WriteChunkFin v ch by (intro chunk[of p u e x]) auto
  qed (use v ch D(1) keys assms(2,3) that in auto)
next
  case (backend ch)
  then show ?thesis using assms(2) by (cases "call_fn c") auto
qed

lemma waits_Done [simp]: "waits_for w ch (Done w')"
  by (simp add: waits_for_def)

lemma waits_send: "open_chan w ch \<Longrightarrow> waits_for w ch (send ch e w)"
  using send_no_panic[of w ch e] by (auto simp: waits_for_def send_def on_chan_def chan_send_room)

lemma waits_sum:
  "(\<And>e. waits_for w ch (f e)) \<Longrightarrow> (\<And>y. waits_for w ch (g y)) \<Longrightarrow>
   waits_for w ch (case x of Inl e \<Rightarrow> f e | Inr y \<Rightarrow> g y)"
  by (cases x) auto

text \<open>A result is delivered, or waits for room in its request's channel.\<close>

lemma deliver_waits:
  assumes "call_ok w c" "connected (call_fn c) r" "typed_fn (call_fn c)" "resp_chan w c = Some ch"
    and "reply_wf L r"
  shows "waits_for w ch (deliver L r (call_result c) w)"
proof -
  have op: "open_chan w ch" using resp_chan_open assms(1,4) by blast
  note snd = waits_send[OF op]
  have fnd: "\<exists>r. find_in L ks (ID (Cmd_ID (NewDnetCmd L x))) w = Done r"
    if "ckeyss w ks \<noteq> None" "cmd_wf L x" for ks x
    using find_in_total[OF that(1) ID_nonempty[OF that(2)]] .
  from assms(1-4) show ?thesis
  proof (cases rule: result_closure)
    case (read x)
    then obtain a where "NewDnetAddr (re_address x) = Done a" using assms(5) NewDnetAddr_ok by fastforce
    from on_read_calls[OF _ _ this, of w "call_result c" _ L] show ?thesis
      using read assms(5) snd by (fastforce simp: ReadKey_onResult_def simp del: reply_sized.simps reply_complete.simps)
  next
    case (bread ks x)
    then obtain a where "NewDnetAddr (re_address x) = Done a" using assms(5) NewDnetAddr_ok by fastforce
    moreover have "cmd_wf L (re_command x)" using assms(5) bread by simp
    ultimately show ?thesis
      using on_read_calls[of w "call_result c" _ L x a] bread assms(5) snd fnd[of ks "re_command x"]
      by (fastforce simp: BulkRead_onResult_def intro!: waits_sum simp del: reply_sized.simps reply_complete.simps)
  next
    case (chunk p v e x)
    then show ?thesis using assms(5) snd
      by (auto simp: on_lookup_def go_lookup_error_def go_lookup_callback_def with_context_found
          NewDnetAddr_ok WriteChunk_onChunkResult_def)
  next
    case (lookup e x)
    then show ?thesis using assms(5) snd
      by (auto simp: on_lookup_def go_lookup_error_def go_lookup_callback_def with_context_found
          NewDnetAddr_ok)
  next
    case (bwrite ks e x)
    then show ?thesis using assms(5) snd fnd[of ks "glr_cmd x"]
      by (auto simp: on_lookup_def go_lookup_error_def go_lookup_callback_def with_context_found
          NewDnetAddr_ok BulkWrite_onResult_def lookupResult_err_def intro!: waits_sum)
  next
    case (remove x)
    then show ?thesis using snd by (auto simp: go_remove_callback_def with_context_found)
  next
    case (bremove ks x)
    then show ?thesis using assms(5) snd fnd[of ks x]
      by (auto simp: go_remove_callback_def with_context_found BulkRemove_onResult_def
          intro!: waits_sum)
  next
    case (find x)
    have "mapM index_entry (gfr_entries x) =
        Done (map (\<lambda>e. \<lparr>ie_Data = string_of_bytes (ce_data e), ie_err = None\<rparr>) (gfr_entries x))"
      using assms(5) find by (intro mapM_all_Done) (simp add: index_entry_wf)
    then show ?thesis using find snd by (simp add: go_find_callback_def with_context_found)
  next
    case (entry x)
    then show ?thesis using assms(5) snd
      by (simp add: go_index_entry_callback_def with_context_found index_entry_wf)
  next
    case (stat x)
    then show ?thesis using assms(5) stat_bytes_wf[of L x] snd
      by (auto simp: go_stat_callback_def with_context_found NewDnetAddr_ok)
  qed simp
qed

subsection \<open>Final callbacks\<close>

lemma restrict_two: "m(a := None, b := None) = m |` (- {a, b})"
  by (auto simp: restrict_map_def fun_eq_iff)

lemma restrict_three: "m(a := None, b := None, c := None) = m |` (- {a, b, c})"
  by (auto simp: restrict_map_def fun_eq_iff)

lemma finish_steps:
  assumes "(case err of Some e \<Rightarrow> send ch (g e) | None \<Rightarrow> skip) w = Done w1" "close_chan ch w1 = Done w2"
  shows "\<exists>c'. chans w ch \<noteq> None \<and> ch_closed c' \<and> w2 = w\<lparr>chans := (chans w)(ch \<mapsto> c')\<rparr>"
proof -
  obtain c where c: "chans w1 ch = Some c" "w2 = w1\<lparr>chans := (chans w1)(ch \<mapsto> c\<lparr>ch_closed := True\<rparr>)\<rparr>"
    using assms(2) by (auto simp: close_chan_Done)
  have "w1 = w \<or> (\<exists>b. chans w ch \<noteq> None \<and> w1 = w\<lparr>chans := (chans w)(ch \<mapsto> b)\<rparr>)"
    using assms(1) by (cases err) (auto simp: send_Done)
  then show ?thesis using c by (intro exI[of _ "c\<lparr>ch_closed := True\<rparr>"]) auto
qed

lemma std_finish:
  assumes "steps [case err of Some e \<Rightarrow> send ch (g e) | None \<Rightarrow> skip, close_chan ch,
      delete_ctx c1, delete_ctx c2] w = Done w'"
  shows "\<exists>c'. chans w ch \<noteq> None \<and> ch_closed c' \<and>
    w' = w\<lparr>chans := (chans w)(ch \<mapsto> c'), pool := pool w |` (- {c1, c2})\<rparr>"
proof -
  obtain w1 w2 where 1: "(case err of Some e \<Rightarrow> send ch (g e) | None \<Rightarrow> skip) w = Done w1"
      "close_chan ch w1 = Done w2" "w' = Delete c2 (Delete c1 w2)"
    using assms by (auto simp: delete_ctx_def)
  then show ?thesis using finish_steps[OF 1(1,2)] by (auto simp: Delete_def restrict_two)
qed

lemma keys_finish:
  assumes "steps [case err of Some e \<Rightarrow> send ch (g e) | None \<Rightarrow> skip, close_chan ch, Keys_Free ks,
      delete_ctx c1, delete_ctx c2] w = Done w'"
  shows "\<exists>c'. chans w ch \<noteq> None \<and> ch_closed c' \<and>
    w' = w\<lparr>chans := (chans w)(ch \<mapsto> c'), ckeyss := (ckeyss w)(ks := None), pool := pool w |` (- {c1, c2})\<rparr>"
proof -
  obtain w1 w2 where 1: "(case err of Some e \<Rightarrow> send ch (g e) | None \<Rightarrow> skip) w = Done w1"
      "close_chan ch w1 = Done w2" "w' = Delete c2 (Delete c1 (w2\<lparr>ckeyss := (ckeyss w2)(ks := None)\<rparr>))"
    using assms by (auto simp: delete_ctx_def Keys_Free_def split: if_splits)
  then show ?thesis using finish_steps[OF 1(1,2)] by (auto simp: Delete_def restrict_two)
qed

lemma onResult_effect:
  assumes "(case f of Some f \<Rightarrow> call_onResult f err | None \<Rightarrow> skip) w = Done w'"
  shows "(onResult_chan f = None \<and> (\<exists>l. w' = w\<lparr>user_log := l\<rparr>)) \<or>
    (\<exists>ch c'. onResult_chan f = Some ch \<and> chans w ch \<noteq> None \<and> ch_closed c' \<and> w' = w\<lparr>chans := (chans w)(ch \<mapsto> c')\<rparr>)"
proof (cases f)
  case None
  then show ?thesis using assms by (auto intro: exI[of _ "user_log w"])
next
  case (Some g)
  show ?thesis
  proof (cases g)
    case (WriteKeyFinish ch)
    then obtain w1 where "(case err of Some e \<Rightarrow> send ch (LookupE (lookupResult_err e)) | None \<Rightarrow> skip) w = Done w1"
        "close_chan ch w1 = Done w'"
      using Some assms by (auto simp: call_onResult_def WriteKey_onWriteFinish_def)
    then show ?thesis using Some WriteKeyFinish finish_steps by fastforce
  next
    case (WriteCacheFinish ch)
    then obtain w1 where "(case err of Some e \<Rightarrow> send ch (LookupE (lookupResult_err e)) | None \<Rightarrow> skip) w = Done w1"
        "close_chan ch w1 = Done w'"
      using Some assms by (auto simp: call_onResult_def WriteCache_onWriteFinish_def)
    then show ?thesis using Some WriteCacheFinish finish_steps by fastforce
  next
    case (UserResult u)
    then show ?thesis using Some assms by (auto simp: call_onResult_def)
  qed
qed

lemma write_finish:
  assumes "steps [delete_ctx c1, delete_ctx c2, delete_ctx c3,
      case f of Some f \<Rightarrow> call_onResult f err | None \<Rightarrow> skip] w = Done w'"
  shows "(onResult_chan f = None \<and> (\<exists>l. w' = w\<lparr>pool := pool w |` (- {c1, c2, c3}), user_log := l\<rparr>)) \<or>
    (\<exists>ch c'. onResult_chan f = Some ch \<and> chans w ch \<noteq> None \<and> ch_closed c' \<and>
       w' = w\<lparr>pool := pool w |` (- {c1, c2, c3}), chans := (chans w)(ch \<mapsto> c')\<rparr>)"
  using assms onResult_effect[of err f "Delete c3 (Delete c2 (Delete c1 w))" w']
  by (auto simp: delete_ctx_def Delete_def restrict_three)

lemma call_final_effect:
  assumes "call_final_fn f err w = Done w'" "fin_wc f = None"
  shows "final_effect f w w'"
proof (cases f)
  case (ReadKeyFin ch c1 c2)
  show ?thesis
    using std_finish[OF assms(1)[unfolded ReadKeyFin call_final_fn.simps ReadKey_onFinish_def]] ReadKeyFin
    by (auto simp: final_effect_def)
next
  case (BulkReadFin ch ks c1 c2)
  show ?thesis
    using keys_finish[OF assms(1)[unfolded BulkReadFin call_final_fn.simps BulkRead_onFinish_def]] BulkReadFin
    by (auto simp: final_effect_def)
next
  case (WriteFin g c1 c2 c3)
  show ?thesis
    using write_finish[OF assms(1)[unfolded WriteFin call_final_fn.simps write_onWriteFinish_def]] WriteFin
    by (auto simp: final_effect_def)
next
  case (CacheFin g c1 c2 c3)
  show ?thesis
    using write_finish[OF assms(1)[unfolded CacheFin call_final_fn.simps cache_onWriteFinish_def]] CacheFin
    by (auto simp: final_effect_def)
next
  case (BulkWriteFin ch ks c1 c2)
  show ?thesis
    using keys_finish[OF assms(1)[unfolded BulkWriteFin call_final_fn.simps BulkWrite_onFinish_def]] BulkWriteFin
    by (auto simp: final_effect_def)
next
  case (LookupFin ch c1 c2)
  show ?thesis
    using std_finish[OF assms(1)[unfolded LookupFin call_final_fn.simps Lookup_onFinish_def]] LookupFin
    by (auto simp: final_effect_def)
next
  case (ParallelLookupFin ch c1 c2)
  show ?thesis
    using std_finish[OF assms(1)[unfolded ParallelLookupFin call_final_fn.simps ParallelLookup_onFinish_def]] ParallelLookupFin
    by (auto simp: final_effect_def)
next
  case (RemoveKeyFin ch c1 c2)
  show ?thesis
    using std_finish[OF assms(1)[unfolded RemoveKeyFin call_final_fn.simps RemoveKey_onFinish_def]] RemoveKeyFin
    by (auto simp: final_effect_def)
next
  case (BulkRemoveFin ch c1 c2)
  show ?thesis
    using std_finish[OF assms(1)[unfolded BulkRemoveFin call_final_fn.simps BulkRemove_onFinish_def]] BulkRemoveFin
    by (auto simp: final_effect_def)
next
  case (FindIndexesFin ch c1 c2)
  show ?thesis
    using std_finish[OF assms(1)[unfolded FindIndexesFin call_final_fn.simps findIndexes_onFinish_def]] FindIndexesFin
    by (auto simp: final_effect_def)
next
  case (SetIndexesFin ch c1 c2)
  show ?thesis
    using std_finish[OF assms(1)[unfolded SetIndexesFin call_final_fn.simps setOrUpdateIndexes_onFinish_def]] SetIndexesFin
    by (auto simp: final_effect_def)
next
  case (ListIndexesFin ch c1 c2)
  show ?thesis
    using std_finish[OF assms(1)[unfolded ListIndexesFin call_final_fn.simps ListIndexes_onFinish_def]] ListIndexesFin
    by (auto simp: final_effect_def)
next
  case (RemoveIndexesFin ch c1 c2)
  show ?thesis
    using std_finish[OF assms(1)[unfolded RemoveIndexesFin call_final_fn.simps RemoveIndexes_onFinish_def]] RemoveIndexesFin
    by (auto simp: final_effect_def)
next
  case (StatFin ch c1 c2)
  show ?thesis
    using std_finish[OF assms(1)[unfolded StatFin call_final_fn.simps DnetStat_onFinish_def]] StatFin
    by (auto simp: final_effect_def)
qed (use assms(2) in simp)

subsection \<open>Chunked writes\<close>

lemma wc_finish_effect:
  assumes "wchunks w p = Some v0" "wc_chan v = wc_chan v0" "wc_onChunk v = wc_onChunk v0"
    and "wc_onFinish v = wc_onFinish v0" "wc_chunkctx v = wc_chunkctx v0"
    and "w1 = w\<lparr>wchunks := (wchunks w)(p \<mapsto> u), alloc_fails := xs\<rparr>"
    and "steps [case err of Some e \<Rightarrow> send (wc_chan v) (LookupE (lookupResult_err e)) | None \<Rightarrow> skip,
      wc_finish v] w1 = Done w'"
  shows "final_effect (WriteChunkFin p) w w'"
proof -
  obtain w2 w3 where 1: "(case err of Some e \<Rightarrow> send (wc_chan v) (LookupE (lookupResult_err e)) | None \<Rightarrow> skip) w1 = Done w2"
      "close_chan (wc_chan v) w2 = Done w3"
      "w' = Delete (wc_chunkctx v) (Delete (wc_onFinish v) (Delete (wc_onChunk v) w3))"
    using assms(7) by (auto simp: wc_finish_def delete_ctx_def)
  obtain c' where "chans w1 (wc_chan v) \<noteq> None" "ch_closed c'" "w3 = w1\<lparr>chans := (chans w1)(wc_chan v \<mapsto> c')\<rparr>"
    using finish_steps[OF 1(1,2)] by blast
  then show ?thesis
    using assms(1-6) 1(3) by (auto simp: final_effect_def Delete_def restrict_three)
qed

lemma chunk_finish_cases:
  assumes "wchunks w p = Some v" "ptrs_ok w" "WriteChunk_onChunkFinish p err w = Done w'"
  obtains (ends) "final_effect (WriteChunkFin p) w w'"
  | (continues) bs rerr input xs where "err = None" "wc_total v \<noteq> 0" "Read (wc_input v) = ((bs, rerr), input)"
      "bs \<noteq> [] \<or> rerr = None" "sessions w (wc_session v) \<noteq> None"
      "w' = w\<lparr>wchunks := (wchunks w)(p \<mapsto> next_chunk bs input v), alloc_fails := xs,
        next_ptr := Suc (next_ptr w),
        inflight := inflight w @ [\<lparr>call_session = wc_session v, call_fn = chunk_fn (next_chunk bs input v) bs,
          call_result = wc_onChunk v, call_final = wc_onFinish v\<rparr>]\<rparr>"
proof -
  obtain bs rerr input where rd: "Read (wc_input v) = ((bs, rerr), input)" by (metis prod.exhaust)
  have ef: "final_effect (WriteChunkFin p) w w'"
    if "wc_fail u e w1 = Done w'" "wc_chan u = wc_chan v" "wc_onChunk u = wc_onChunk v"
      "wc_onFinish u = wc_onFinish v" "wc_chunkctx u = wc_chunkctx v"
      "w1 = w\<lparr>wchunks := (wchunks w)(p \<mapsto> u'), alloc_fails := xs\<rparr>"
    for u u' e w1 xs
    using wc_finish_effect[OF assms(1) that(2-6), of "Some e"] that(1) by (simp add: wc_fail_def)
  have same: "w = w\<lparr>wchunks := (wchunks w)(p \<mapsto> v), alloc_fails := alloc_fails w\<rparr>"
    using assms(1) by (simp add: fun_upd_idem)
  show ?thesis
  proof (cases "err = None \<and> wc_total v \<noteq> 0 \<and> (bs \<noteq> [] \<or> rerr = None)")
    case False
    consider (failed) e where "err = Some e" | (ended) "err = None" "wc_total v = 0"
      | (read) e where "err = None" "wc_total v \<noteq> 0" "bs = []" "rerr = Some e"
      using False by (cases err; cases rerr) auto
    then show ?thesis
    proof cases
      case failed
      then have "wc_fail v e w = Done w'" using assms(1,3) by (simp add: WriteChunk_onChunkFinish_def)
      then show ?thesis using ends ef[OF _ refl refl refl refl same] by blast
    next
      case ended
      then have "wc_finish v w = Done w'" using assms(1,3) by (simp add: WriteChunk_onChunkFinish_def)
      then show ?thesis using ends wc_finish_effect[OF assms(1) refl refl refl refl same, of None] by simp
    next
      case read
      then have "wc_fail (v\<lparr>wc_input := input\<rparr>) e (set_wchunk p (v\<lparr>wc_input := input\<rparr>) w) = Done w'"
        using assms(1,3) rd by (simp add: WriteChunk_onChunkFinish_def Let_def)
      then show ?thesis using ends ef[of "v\<lparr>wc_input := input\<rparr>" e _ "alloc_fails w" "v\<lparr>wc_input := input\<rparr>"]
        by (simp add: set_wchunk_def)
    qed
  next
    case True
    let ?v = "next_chunk bs input v"
    note run = WriteChunk_onChunkFinish_def set_wchunk_def next_chunk_def Let_def rd assms(1)
    show ?thesis
    proof (cases rule: NewKey_string[of "wc_key v" "w\<lparr>wchunks := (wchunks w)(p \<mapsto> ?v)\<rparr>"])
      case (err xs)
      then have "wc_fail ?v (EText ''could not create new key'')
          (w\<lparr>wchunks := (wchunks w)(p \<mapsto> ?v), alloc_fails := xs\<rparr>) = Done w'"
        using assms(3) True by (auto simp: run)
      then show ?thesis using ends ef[of ?v _ _ xs ?v] by (simp add: next_chunk_def)
    next
      case (key xs)
      have nk: "(ckeys w)(next_ptr w := None) = ckeys w"
        using assms(2) by (auto simp: ptrs_ok_def fun_eq_iff)
      have sess: "sessions w (wc_session v) \<noteq> None"
        using key assms(3) True by (auto simp: run c_key_request_def deref_key_def c_request_def split: if_splits)
      have "w' = w\<lparr>wchunks := (wchunks w)(p \<mapsto> ?v), alloc_fails := xs,
        next_ptr := Suc (next_ptr w),
        inflight := inflight w @ [\<lparr>call_session = wc_session v, call_fn = chunk_fn ?v bs,
          call_result = wc_onChunk v, call_final = wc_onFinish v\<rparr>], ckeys := (ckeys w)(next_ptr w := None)\<rparr>"
        using key assms(3) True
        by (auto simp: run c_key_request_def deref_key_def c_request_def Key_Free_def chunk_fn_def next_chunk_def
            split: if_splits)
      then show ?thesis
        using True rd sess nk by (intro continues[of bs rerr input xs]) simp_all
    qed
  qed
qed

subsection \<open>The end of a request\<close>

lemma owns_final_iff:
  assumes "pool w (call_final c) = Some (FnFinal f)"
  shows "RCtx k \<in> owns w c \<longleftrightarrow> k \<in> set (fin_ctx (wchunks w) f)"
    and "RChan p \<in> owns w c \<longleftrightarrow> fin_chan (wchunks w) f = Some p"
    and "fin_keys f = Some p \<Longrightarrow> RKeys p \<in> owns w c" "fin_wc f = Some p \<Longrightarrow> RWc p \<in> owns w c"
  unfolding owns_FnFinal[OF assms] by (auto simp: fin_res_def val_res_def split: option.splits)

lemma final_effectD:
  assumes "final_effect f w w'"
  shows "counter w' = counter w" "next_ptr w' = next_ptr w" "sessions w' = sessions w" "ckeys w' = ckeys w"
    and "inflight w' = inflight w" "pool w' = pool w |` (- set (fin_ctx (wchunks w) f))"
    and "fin_chan (wchunks w) f \<noteq> Some p \<Longrightarrow> chans w' p = chans w p"
    and "fin_chan (wchunks w) f = Some p \<Longrightarrow> chans w p \<noteq> None \<and> (\<exists>c'. chans w' p = Some c' \<and> ch_closed c')"
    and "fin_keys f \<noteq> Some p \<Longrightarrow> ckeyss w' p = ckeyss w p" "ckeyss w p = None \<Longrightarrow> ckeyss w' p = None"
    and "fin_wc f \<noteq> Some p \<Longrightarrow> wchunks w' p = wchunks w p" "wchunks w p = None \<Longrightarrow> wchunks w' p = None"
  using assms unfolding final_effect_def by blast+

lemma final_effect_closes:
  assumes "inv w" "c \<in> set (inflight w)" and f: "pool w (call_final c) = Some (FnFinal f)"
    and ef: "final_effect f (w\<lparr>inflight := filter (\<lambda>d. d \<noteq> c) (inflight w)\<rparr>) w'"
  shows "transition [c] [] w w'"
proof -
  note E = final_effectD[OF ef, simplified] and O = owns_final_iff[OF f]
  have ptr: "ptrs_ok w" using invD(2)[OF assms(1)] .
  have chs: "chans w' p = None" if "chans w p = None" for p
    using that E(7,8)[of p] by (cases "fin_chan (wchunks w) f = Some p") auto
  have kw: "ckeyss w' p = ckeyss w p" if "RKeys p \<notin> owns w c" for p
    using that O(3)[of p] E(9)[of p] by blast
  have ww: "wchunks w' p = wchunks w p" if "RWc p \<notin> owns w c" for p
    using that O(4)[of p] E(11)[of p] by blast
  have "only (owns w c) w w'"
    unfolding only_def using E(3,6,7) O(1,2) kw ww by (auto simp: restrict_map_def)
  moreover have "pool w' k = None" if "RCtx k \<in> owns w c" for k
    using that E(6) O by (simp add: restrict_map_def)
  moreover have "\<not> open_chan w' p" if "RChan p \<in> owns w c" for p
    using that E(8)[of p] O by (auto simp: open_chan_def)
  moreover have "ptrs_ok w'"
    unfolding ptrs_ok_def E(2,3,4) using ptr chs E(10,12) by (auto simp: ptrs_ok_def)
  ultimately show ?thesis
    using closes[OF assms(1,2) E(5)] E(1,2) by blast
qed

text \<open>A chunked write goes on with the same resources.\<close>

lemma chunk_continues_transition:
  assumes "inv w" "c \<in> set (inflight w)"
    and f: "pool w (call_final c) = Some (FnFinal (WriteChunkFin p))"
    and ok: "fin_call_ok w c (WriteChunkFin p)" and v: "wchunks w p = Some v"
    and w': "w' = w\<lparr>inflight := filter (\<lambda>d. d \<noteq> c) (inflight w) @ [\<lparr>call_session = wc_session v,
        call_fn = chunk_fn (next_chunk bs input v) bs, call_result = wc_onChunk v, call_final = wc_onFinish v\<rparr>],
      wchunks := (wchunks w)(p \<mapsto> next_chunk bs input v), alloc_fails := xs, next_ptr := Suc (next_ptr w)\<rparr>"
  shows "\<exists>c'. transition [c] [c'] w w'"
proof -
  define c' where "c' = \<lparr>call_session = wc_session v, call_fn = chunk_fn (next_chunk bs input v) bs,
    call_result = wc_onChunk v, call_final = wc_onFinish v\<rparr>"
  note D = fin_callD[OF ok]
  have ctx: "call_result c = wc_onChunk v" "call_final c = wc_onFinish v" using D(2) v by auto
  have sess: "wc_session v = call_session c" "sessions w (call_session c) \<noteq> None"
    using D(9)[of p] v call_ok_session[OF invD(3)[OF assms(1,2)]] by auto
  have f': "pool w' (call_final c') = Some (FnFinal (WriteChunkFin p))"
    using f ctx by (simp add: w' c'_def)
  have ptr: "ptrs_ok w'" "p < next_ptr w"
    using invD(2)[OF assms(1)] v by (auto simp: w' ptrs_ok_def not_le[symmetric])
  have "fin_call_ok w' c' (WriteChunkFin p)"
    using D ctx v by (auto simp: fin_call_ok_def w' c'_def next_chunk_def chunk_fn_def open_chan_def domIff)
  then have "call_ok w' c'" using call_ok_final[of w' c'] f' sess by (simp add: w' c'_def)
  moreover have own: "owns w' c' = owns w c"
    unfolding owns_FnFinal[OF f] owns_FnFinal[OF f'] using ctx v
    by (simp add: w' c'_def fin_res_def next_chunk_def)
  moreover have "only (touched [c] w) w w'"
    using owns_final_iff(4)[OF f, of p] by (auto simp: only_def w' touched_def)
  moreover have "pool_wf w'" using invD(1)[OF assms(1)] by (simp add: w' pool_wf_def issued_def)
  moreover have "pool w k = None" if "RCtx k \<in> fresh_res w" for k
    using that not_issued_pool[OF assms(1)] by simp
  moreover have "\<not> open_chan w' q" if "RChan q \<in> fresh_res w" for q
    using that open_chan_old[OF assms(1), of q] by (simp add: open_chan_def w')
  ultimately have "transition [c] [c'] w w'"
    unfolding transition_def Let_def using assms(2) ptr(1) by (auto simp: touched_def w' c'_def)
  then show ?thesis by blast
qed

lemma backend_finish_closes:
  assumes "inv w" "c \<in> set (inflight w)"
    and b: "pool w (call_final c) = Some (FnBackends ch (call_final c))"
    and fin: "Backends_onFinish ch (call_final c) s (w\<lparr>inflight := filter (\<lambda>d. d \<noteq> c) (inflight w)\<rparr>) = Done w'"
  shows "transition [c] [] w w'"
proof -
  obtain b' where b': "ch_closed b'" "chans w ch \<noteq> None"
      "w' = w\<lparr>inflight := filter (\<lambda>d. d \<noteq> c) (inflight w), chans := (chans w)(ch \<mapsto> b'),
        pool := (pool w)(call_final c := None)\<rparr>"
  proof -
    let ?w = "w\<lparr>inflight := filter (\<lambda>d. d \<noteq> c) (inflight w)\<rparr>"
    obtain w1 w2 where 1: "send ch (BackendsE s) ?w = Done w1" "close_chan ch w1 = Done w2"
        "w' = Delete (call_final c) w2"
      using fin by (auto simp: Backends_onFinish_def delete_ctx_def)
    have "(case Some () of Some e \<Rightarrow> send ch (BackendsE s) | None \<Rightarrow> skip) ?w = Done w1" using 1(1) by simp
    from finish_steps[OF this 1(2)] show ?thesis using that 1(3) by (auto simp: Delete_def)
  qed
  have own: "owns w c = {RChan ch, RCtx (call_final c)}" using owns_FnBackends[OF b] .
  have "only (owns w c) w w'" using b' own by (auto simp: only_def)
  moreover have "ptrs_ok w'" using invD(2)[OF assms(1)] b' by (auto simp: ptrs_ok_def)
  ultimately show ?thesis
    using closes[OF assms(1,2)] b' own by (auto simp: open_chan_def)
qed

lemma fn_ok_not_backend: "fn_ok f fn \<Longrightarrow> \<not> is_backend_fn fn"
  by (cases f) auto

lemma complete_transition:
  assumes "inv w" "c \<in> set (inflight w)" "completion_ok (call_fn c) x" "complete c x w = Done w'"
  shows "\<exists>new. transition [c] new w w'"
  using invD(3)[OF assms(1,2)]
proof (cases rule: call_ok_cases)
  case (final f)
  note D = fin_callD[OF final(2)]
  let ?w = "w\<lparr>inflight := filter (\<lambda>d. d \<noteq> c) (inflight w)\<rparr>"
  obtain e where x: "x = Final e" using assms(3) fn_ok_not_backend[OF D(1)] by (cases x) auto
  then obtain err where run: "call_final_fn f err ?w = Done w'"
    using assms(4) final(1)
    by (auto simp: complete_def on_finish_def go_final_callback_def with_context_found split: if_splits)
  show ?thesis
  proof (cases "fin_wc f")
    case None
    show ?thesis using final_effect_closes[OF assms(1,2) final(1) call_final_effect[OF run None]] by blast
  next
    case (Some p)
    then have f: "f = WriteChunkFin p" by (cases f) auto
    obtain v where v: "wchunks w p = Some v" using D(9)[OF Some] by blast
    have ptr: "ptrs_ok ?w" using invD(2)[OF assms(1)] by (simp add: ptrs_ok_def)
    have v': "wchunks ?w p = Some v" using v by simp
    have run': "WriteChunk_onChunkFinish p err ?w = Done w'" using run f by simp
    from v' ptr run' show ?thesis
    proof (cases rule: chunk_finish_cases)
      case ends
      then show ?thesis using final_effect_closes[OF assms(1,2) final(1)] f by blast
    next
      case (continues bs rerr input xs)
      show ?thesis
        using chunk_continues_transition[OF assms(1,2) _ _ v, where w' = w' and bs = bs and input = input and xs = xs] final f continues(6) by auto
    qed
  qed
next
  case (backend ch)
  then obtain l e where x: "x = BackendDone l e" using assms(3) by (cases x) auto
  have "\<exists>s. Backends_onFinish ch (call_final c) s (w\<lparr>inflight := filter (\<lambda>d. d \<noteq> c) (inflight w)\<rparr>) = Done w'"
    using assms(4) x backend(1)
    by (auto simp: complete_def on_backend_status_def go_backend_status_error_def
        go_backend_status_callback_def with_context_found split: if_splits list.splits)
  then show ?thesis using backend_finish_closes[OF assms(1,2) backend(1)] by blast
qed

subsection \<open>Final callbacks do not panic\<close>

lemma waits_finish:
  assumes "open_chan w ch" "\<And>b. returns (steps rest (w\<lparr>chans := (chans w)(ch \<mapsto> b)\<rparr>))"
  shows "waits_for w ch (steps ((case err of Some e \<Rightarrow> send ch (g e) | None \<Rightarrow> skip) # close_chan ch # rest) w)"
proof -
  obtain c where c: "chans w ch = Some c" "\<not> ch_closed c" using assms(1) by (auto simp: open_chan_def)
  have cl: "close_chan ch w1 = Done (w1\<lparr>chans := (chans w1)(ch \<mapsto> b\<lparr>ch_closed := True\<rparr>)\<rparr>)"
    if "chans w1 ch = Some b" "\<not> ch_closed b" for w1 b
    using that by (simp add: close_chan_def on_chan_def chan_close_def)
  have ret: "waits_for w ch (steps rest (w\<lparr>chans := (chans w)(ch \<mapsto> b)\<rparr>))" for b
    using assms(2)[of b] by (auto simp: waits_for_def returns_iff)
  show ?thesis
  proof (cases err)
    case None
    then show ?thesis using cl[OF c] ret by simp
  next
    case (Some e)
    show ?thesis
    proof (cases "chan_has_room c")
      case True
      then show ?thesis using Some c cl ret by (simp add: send_def on_chan_def chan_send_room)
    next
      case False
      then have "send ch (g e) w = Block" using c by (simp add: send_def on_chan_def chan_send_def chan_has_room_def)
      then show ?thesis using Some False c by (simp add: waits_for_def)
    qed
  qed
qed

lemma returns_deletes:
  "returns (steps [delete_ctx a, delete_ctx b] w)" "returns (steps [delete_ctx a, delete_ctx b, delete_ctx c] w)"
  "returns (steps [delete_ctx a] w)"
  by (simp_all add: delete_ctx_def)

lemma returns_keys_deletes:
  "ckeyss w ks \<noteq> None \<Longrightarrow> returns (steps [Keys_Free ks, delete_ctx a, delete_ctx b] w)"
  by (simp add: Keys_Free_def delete_ctx_def)

lemma waits_wc_finish:
  assumes "open_chan w (wc_chan v)"
  shows "waits_for w (wc_chan v) (wc_finish v w)" "waits_for w (wc_chan v) (wc_fail v e w)"
proof -
  show "waits_for w (wc_chan v) (wc_finish v w)"
    using waits_finish[OF assms, where err = None and g = "\<lambda>e. LookupE (lookupResult_err e)" and rest = "[delete_ctx (wc_onChunk v),
      delete_ctx (wc_onFinish v), delete_ctx (wc_chunkctx v)]"]
    by (simp add: wc_finish_def delete_ctx_def)
  show "waits_for w (wc_chan v) (wc_fail v e w)"
    using waits_finish[OF assms, where err = "Some e" and g = "\<lambda>e. LookupE (lookupResult_err e)"
        and rest = "[delete_ctx (wc_onChunk v), delete_ctx (wc_onFinish v), delete_ctx (wc_chunkctx v)]"]
    by (cases "send (wc_chan v) (LookupE (lookupResult_err e)) w")
      (auto simp: wc_fail_def wc_finish_def delete_ctx_def)
qed

lemma waits_chunk:
  assumes "wchunks w p = Some v" "open_chan w (wc_chan v)" "sessions w (wc_session v) \<noteq> None"
  shows "waits_for w (wc_chan v) (WriteChunk_onChunkFinish p err w)"
proof -
  obtain bs rerr input where rd: "Read (wc_input v) = ((bs, rerr), input)" by (metis prod.exhaust)
  have fail: "waits_for w (wc_chan v) (wc_fail u e w1)" if "wc_chan u = wc_chan v" "chans w1 = chans w" for u e w1
    using waits_wc_finish(2)[of w1 u e] assms(2) that by (simp add: waits_for_def open_chan_def)
  note run = WriteChunk_onChunkFinish_def set_wchunk_def next_chunk_def Let_def rd assms(1)
  show ?thesis
  proof (cases "err = None \<and> wc_total v \<noteq> 0 \<and> (bs \<noteq> [] \<or> rerr = None)")
    case False
    then show ?thesis
      using fail waits_wc_finish[OF assms(2)] by (cases err; cases rerr) (auto simp: run)
  next
    case True
    show ?thesis
    proof (cases rule: NewKey_string[of "wc_key v" "w\<lparr>wchunks := (wchunks w)(p \<mapsto> next_chunk bs input v)\<rparr>"])
      case (err xs)
      then show ?thesis using True fail by (auto simp: run)
    next
      case (key xs)
      then show ?thesis
        using True assms(3)
        by (auto simp: run c_key_request_def deref_key_def c_request_def Key_Free_def)
    qed
  qed
qed

lemma call_final_waits:
  assumes "fin_call_ok w c f" "fin_chan (wchunks w) f = Some ch" "sessions w (call_session c) \<noteq> None"
  shows "waits_for w ch (call_final_fn f err w)"
proof -
  note D = fin_callD[OF assms(1)] and keys = fin_keys_live[OF assms(1)]
  have op: "open_chan w ch" using D(8)[OF assms(2)] .
  note go = waits_finish[OF op]
  have std: "waits_for w ch (steps [case err of Some e \<Rightarrow> send ch (g e) | None \<Rightarrow> skip, close_chan ch,
      delete_ctx c1, delete_ctx c2] w)" for g c1 c2
    by (rule go, rule returns_deletes)
  have bulk: "waits_for w ch (steps [case err of Some e \<Rightarrow> send ch (g e) | None \<Rightarrow> skip, close_chan ch,
      Keys_Free ks, delete_ctx c1, delete_ctx c2] w)" if "fin_keys f = Some ks" for g ks c1 c2
    by (rule go, rule returns_keys_deletes) (use keys[OF that] in simp)
  have wr: "waits_for w ch (steps [delete_ctx c1, delete_ctx c2, delete_ctx c3,
      case h of Some h \<Rightarrow> call_onResult h err | None \<Rightarrow> skip] w)"
    if h0: "onResult_chan h = Some ch" for h c1 c2 c3
  proof -
    let ?w = "Delete c3 (Delete c2 (Delete c1 w))"
    have "waits_for ?w ch (steps [case err of Some e \<Rightarrow> send ch (LookupE (lookupResult_err e)) | None \<Rightarrow> skip, close_chan ch] ?w)"
      using op by (intro waits_finish) (simp_all add: open_chan_def Delete_def)
    then have *: "waits_for w ch (steps [case err of Some e \<Rightarrow> send ch (LookupE (lookupResult_err e)) | None \<Rightarrow> skip, close_chan ch] ?w)"
      by (simp add: waits_for_def Delete_def)
    obtain g where h: "h = Some g" "g = WriteKeyFinish ch \<or> g = WriteCacheFinish ch"
      using h0 by (cases h; cases "the h") auto
    have "steps [delete_ctx c1, delete_ctx c2, delete_ctx c3,
      case h of Some h \<Rightarrow> call_onResult h err | None \<Rightarrow> skip] w = call_onResult g err ?w"
      using h(1) by (simp add: delete_ctx_def)
    then show ?thesis
      using h(2) * by (auto simp only: call_onResult_def WriteKey_onWriteFinish_def WriteCache_onWriteFinish_def
          onResultCallback.case)
  qed
  show ?thesis
  proof (cases f)
    case (WriteChunkFin p)
    then obtain v where "wchunks w p = Some v" "wc_session v = call_session c" using D(9) by auto
    then show ?thesis using WriteChunkFin assms op waits_chunk[of w p v err] by simp
  qed (use assms(2) std bulk wr in \<open>simp_all only: call_final_fn.simps ReadKey_onFinish_def BulkRead_onFinish_def
      write_onWriteFinish_def cache_onWriteFinish_def Lookup_onFinish_def ParallelLookup_onFinish_def
      RemoveKey_onFinish_def BulkWrite_onFinish_def BulkRemove_onFinish_def findIndexes_onFinish_def
      setOrUpdateIndexes_onFinish_def ListIndexes_onFinish_def RemoveIndexes_onFinish_def DnetStat_onFinish_def
      fin_chan.simps fin_keys.simps option.inject\<close>)
qed

lemma call_final_no_chan:
  assumes "fin_call_ok w c f" "fin_chan (wchunks w) f = None"
  shows "returns (call_final_fn f err w)"
proof -
  have "returns (steps [delete_ctx c1, delete_ctx c2, delete_ctx c3,
      case h of Some h \<Rightarrow> call_onResult h err | None \<Rightarrow> skip] w)" if "onResult_chan h = None" for h c1 c2 c3
    using that by (cases h; cases "the h") (auto simp: delete_ctx_def call_onResult_def)
  moreover have "fin_wc f = None"
    using assms(2) fin_callD(9)[OF assms(1)] by (cases f) auto
  ultimately show ?thesis
    using assms(2)
    by (cases f) (auto simp only: call_final_fn.simps write_onWriteFinish_def cache_onWriteFinish_def
        fin_chan.simps fin_wc.simps option.simps)
qed

lemma collect_status_total:
  assumes "length (cbl_backends l) = unat (cbl_count l)" "\<forall>i \<in> set is. i < unat (cbl_count l)"
  shows "collect_status l is = Done (map (\<lambda>i. backend_status (cbl_backends l ! i)) is)"
  using assms(2) by (induction "is") (auto simp: status_from_list_def assms(1))

lemma complete_waits:
  assumes "call_ok w c" "completion_ok (call_fn c) x"
  shows "(\<exists>ch. resp_chan w c = Some ch \<and> waits_for w ch (complete c x w)) \<or>
    resp_chan w c = None \<and> returns (complete c x w)"
  using assms(1)
proof (cases rule: call_ok_cases)
  case (final f)
  let ?w = "w\<lparr>inflight := filter (\<lambda>d. d \<noteq> c) (inflight w)\<rparr>"
  have ok: "fin_call_ok ?w c f" using final(2) by (simp add: fin_call_ok_def open_chan_def)
  obtain e where x: "x = Final e"
    using assms(2) fn_ok_not_backend[OF fin_callD(1)[OF final(2)]] by (cases x) auto
  obtain err where run: "complete c x w = call_final_fn f err ?w"
    using x final(1)
    by (cases "sint (ei_code e) < 0")
      (auto simp: complete_def on_finish_def go_final_callback_def with_context_found)
  show ?thesis
  proof (cases "fin_chan (wchunks w) f")
    case None
    then show ?thesis using call_final_no_chan[OF ok, of err] run final(1) by (simp add: resp_chan_def)
  next
    case (Some ch)
    then have "waits_for ?w ch (call_final_fn f err ?w)"
      using call_final_waits[OF ok, of ch err] call_ok_session[OF assms(1)] by simp
    then show ?thesis using Some run final(1) by (simp add: resp_chan_def waits_for_def)
  qed
next
  case (backend ch)
  let ?w = "w\<lparr>inflight := filter (\<lambda>d. d \<noteq> c) (inflight w)\<rparr>"
  obtain l e where x: "x = BackendDone l e" using assms(2) backend by (cases x) auto
  have go: "waits_for ?w ch (Backends_onFinish ch (call_final c) s ?w)" for s
    using waits_finish[of ?w ch "[delete_ctx (call_final c)]" "\<lambda>_. BackendsE s" "Some ()"] backend(4)
    by (simp add: Backends_onFinish_def open_chan_def delete_ctx_def)
  have "waits_for ?w ch (complete c x w)"
  proof (cases "ei_code e = 0")
    case True
    then obtain s l' where l: "l = s # l'" "length (cbl_backends s) = unat (cbl_count s)"
      using assms(2) x by (cases l) auto
    then show ?thesis
      using go backend(1) x True collect_status_total[OF l(2), of "[0 ..< unat (cbl_count s)]"]
      by (simp add: complete_def on_backend_status_def go_backend_status_callback_def with_context_found)
  next
    case False
    then show ?thesis using go backend(1) x
      by (simp add: complete_def on_backend_status_def go_backend_status_error_def with_context_found)
  qed
  then show ?thesis using backend(1) by (simp add: resp_chan_def waits_for_def)
qed

text \<open>A final callback does not panic, and returns once its channel has room.\<close>

lemma complete_proceeds:
  assumes "call_ok w c" "completion_ok (call_fn c) x"
  shows "\<not> panics (complete c x w)" "may_proceed w c \<Longrightarrow> returns (complete c x w)"
  using complete_waits[OF assms] by (auto simp: waits_for_def may_proceed_def panics_iff returns_iff)

lemma deliver_proceeds:
  assumes "call_ok w c" "connected (call_fn c) r" "typed_fn (call_fn c)" "reply_wf L r"
  shows "\<not> panics (deliver L r (call_result c) w)"
    and "may_proceed w c \<Longrightarrow> returns (deliver L r (call_result c) w)"
proof -
  obtain ch where ch: "resp_chan w c = Some ch" using resp_chan_typed[OF assms(1,3)] by blast
  from deliver_waits[OF assms(1-3) this assms(4)]
  show "\<not> panics (deliver L r (call_result c) w)"
    "may_proceed w c \<Longrightarrow> returns (deliver L r (call_result c) w)"
    using ch by (auto simp: waits_for_def may_proceed_def)
qed

text \<open>
  The results of plain writes and cache writes always panic: what is stored has the type
  \<^verbatim>\<open>onLookupCallback\<close>, what is asserted is \<^verbatim>\<open>func(*lookupResult)\<close>.
\<close>

lemma deliver_untyped:
  assumes "call_ok w c" "connected (call_fn c) r" "\<not> typed_fn (call_fn c)"
  shows "deliver L r (call_result c) w = Panic TypeAssertion"
proof -
  have "\<not> is_backend_fn (call_fn c)" "\<exists>e x. r = LookupR e x" using assms(2,3) by (cases "call_fn c"; auto)+
  with assms(1) obtain f where f: "fin_call_ok w c f" by (cases rule: call_ok_cases) auto
  then obtain v where "pool w (call_result c) = Some v" "pair_ok f v" "fn_ok f (call_fn c)"
    using fin_callD(1,5) by blast
  then have "\<exists>l. pool w (call_result c) = Some (NamedLookup l)"
    using assms(3) by (cases f; cases "call_fn c") auto
  then show ?thesis
    using \<open>\<exists>e x. r = LookupR e x\<close>
    by (auto simp: on_lookup_def go_lookup_error_def go_lookup_callback_def with_context_found)
qed

text \<open>A read entry without its parts ends the program, or leaves the binding.\<close>

lemma deliver_incomplete:
  assumes "call_ok w c" "connected (call_fn c) r" "reply_sized L r" "\<not> reply_complete r"
  shows "panics (deliver L r (call_result c) w)"
proof -
  obtain x where x: "r = ReadR x" using assms(4) by (cases r) auto
  then have typed: "typed_fn (call_fn c)" using assms(2) by (cases "call_fn c") auto
  obtain ch where ch: "resp_chan w c = Some ch" using resp_chan_typed[OF assms(1) typed] by blast
  obtain f where f: "pool w (call_result c) = Some (FnRead f)"
    using assms(1,2) typed ch by (cases rule: result_closure) (use x in auto)
  obtain a where "NewDnetAddr (re_address x) = Done a" using assms(3) x NewDnetAddr_ok by fastforce
  then show ?thesis
    using assms(4) x f
    by (auto simp: on_read_def go_read_callback_def io_attribute_def read_data_def with_context_found word_gt_0
        split: option.splits c_field.splits)
qed

lemma complete_no_status:
  assumes "completion_sized fn x" "\<not> status_present x"
  shows "complete c x w = Panic CUndefined"
  using assms by (cases x) (auto simp: complete_def on_backend_status_def)

text \<open>A result puts at most one value into the channel of its own request.\<close>

lemma deliver_sends:
  assumes "call_ok w c" "connected (call_fn c) r" "deliver L r (call_result c) w = Done w'"
  shows "w' = w \<or> (\<exists>ch e. resp_chan w c = Some ch \<and> send ch e w = Done w')"
proof -
  have typed: "typed_fn (call_fn c)" using deliver_untyped[OF assms(1,2)] assms(3) by force
  obtain ch where ch: "resp_chan w c = Some ch" using resp_chan_typed[OF assms(1) typed] by blast
  note defs = on_read_def io_attribute_def go_read_callback_def on_lookup_def go_lookup_callback_def go_lookup_error_def
    go_remove_callback_def go_find_callback_def go_index_entry_callback_def go_stat_callback_def with_context_found
    ReadKey_onResult_def BulkRead_onResult_def WriteChunk_onChunkResult_def BulkWrite_onResult_def
    BulkRemove_onResult_def bindO_sum_Done
  from assms(1,2) typed ch show ?thesis
    by (cases rule: result_closure;
        use assms(3) ch in \<open>auto simp: defs split: if_splits sum.split_asm option.splits c_field.splits\<close>; metis sum.exhaust)
qed

end
