(* ===== verification/Protocol.thy ===== *)
theory Protocol
  imports Finishes
begin

text \<open>
  The binding as a reactive system. An event is a call of the user, a result or the end
  of a request reported by the client library, or the consumer taking a value out of a
  channel; events of different requests come in any order. \<open>enabled\<close> says when an event
  can happen, \<open>exec\<close> what it does. A state is reachable when some sequence of enabled
  events leads to it from the start of the program.
\<close>

section \<open>Definitions\<close>

text \<open>The calls a user of the package can make.\<close>

datatype api =
    NewKeyA "go_arg list"
  | KeyFreeA ptr
  | NewSessionA "int \<Rightarrow> string" int
  | SetGroupsA Session "u32 list"
  | SetTimeoutA Session i64
  | SetCflagsA Session u64
  | SetIOflagsA Session u32
  | SetTraceIDA Session u64
  | SetNamespaceA Session string
  | SetFilterA Session int
  | ReadKeyA Session ptr u64 u64
  | ReadDataA Session string u64 u64
  | BulkReadA Session "string list"
  | WriteA Session string bytes u64 "nat option" "nat option"  \<comment> \<open>the user's callbacks\<close>
  | WriteKeyA Session ptr reader u64
  | WriteDataA Session string reader u64 u64
  | WriteChunkA Session string reader u64 u64
  | CacheA Session string bytes u64 "nat option" "nat option"
  | WriteCacheA Session string reader u64
  | LookupA Session ptr
  | ParallelLookupA Session string
  | RemoveKeyA Session ptr
  | RemoveA Session string
  | BulkWriteA Session "DnetIOAttr list" "bytes list"
  | BulkRemoveA Session "string list"
  | FindAllIndexesA Session "string list"
  | FindAnyIndexesA Session "string list"
  | SetIndexesA Session string "(string \<times> string) list"
  | UpdateIndexesA Session string "(string \<times> string) list"
  | ListIndexesA Session string
  | RemoveIndexesA Session string "string list"
  | DnetStatA Session go_time "c_route_entry list"  \<comment> \<open>the clock, the routes\<close>
  | GetRoutesA Session ptr go_time "c_route_entry list"
  | BackendsStatusA Session DnetAddr
  | BackendStartDefragA Session DnetAddr i32
  | BackendEnableA Session DnetAddr i32
  | BackendDisableA Session DnetAddr i32
  | BackendMakeWritableA Session DnetAddr i32
  | BackendMakeReadOnlyA Session DnetAddr i32
  | BackendSetDelayA Session DnetAddr i32 u32

fun run_api :: "ell_lib \<Rightarrow> api \<Rightarrow> world \<Rightarrow> world outcome" where
  "run_api L (NewKeyA args) w = Done (snd (NewKey args w))"
| "run_api L (KeyFreeA k) w = Key_Free k w"
| "run_api L (NewSessionA strerror errno) w = Done (snd (NewSession strerror errno w))"
| "run_api L (SetGroupsA s gs) w = mapO snd (SetGroups gs s w)"
| "run_api L (SetTimeoutA s t) w = SetTimeout t s w"
| "run_api L (SetCflagsA s f) w = SetCflags f s w"
| "run_api L (SetIOflagsA s f) w = SetIOflags f s w"
| "run_api L (SetTraceIDA s t) w = SetTraceID t s w"
| "run_api L (SetNamespaceA s n) w = SetNamespace n s w"
| "run_api L (SetFilterA s f) w = SetFilter f s w"
| "run_api L (ReadKeyA s k off sz) w = mapO snd (ReadKey s k off sz w)"
| "run_api L (ReadDataA s k off sz) w = mapO snd (ReadData s k off sz w)"
| "run_api L (BulkReadA s ks) w = mapO snd (BulkRead s ks w)"
| "run_api L (WriteA s k d off l r) w =
     Write s k d off (map_option UserLookup l) (map_option UserResult r) w"
| "run_api L (WriteKeyA s k i off) w = mapO snd (WriteKey s k i off w)"
| "run_api L (WriteDataA s k i off sz) w = mapO snd (WriteData s k i off sz w)"
| "run_api L (WriteChunkA s k i off sz) w = mapO snd (WriteChunk s k i off sz w)"
| "run_api L (CacheA s k d t l r) w =
     Cache s k d t (map_option UserLookup l) (map_option UserResult r) w"
| "run_api L (WriteCacheA s k i t) w = mapO snd (WriteCache s k i t w)"
| "run_api L (LookupA s k) w = mapO snd (Lookup s k w)"
| "run_api L (ParallelLookupA s k) w = mapO snd (ParallelLookup s k w)"
| "run_api L (RemoveKeyA s k) w = mapO snd (RemoveKey s k w)"
| "run_api L (RemoveA s k) w = mapO snd (Remove s k w)"
| "run_api L (BulkWriteA s attrs ds) w = mapO snd (BulkWrite L s attrs ds w)"
| "run_api L (BulkRemoveA s ks) w = mapO snd (BulkRemove s ks w)"
| "run_api L (FindAllIndexesA s is) w = mapO snd (FindAllIndexes s is w)"
| "run_api L (FindAnyIndexesA s is) w = mapO snd (FindAnyIndexes s is w)"
| "run_api L (SetIndexesA s k is) w = mapO snd (SetIndexes s k is w)"
| "run_api L (UpdateIndexesA s k is) w = mapO snd (UpdateIndexes s k is w)"
| "run_api L (ListIndexesA s k) w = mapO snd (ListIndexes s k w)"
| "run_api L (RemoveIndexesA s k is) w = mapO snd (RemoveIndexes s k is w)"
| "run_api L (DnetStatA s now rs) w = mapO (snd \<circ> snd) (DnetStat_request L now rs s w)"
| "run_api L (GetRoutesA s st now rs) w = GetRoutes L now rs s st w"
| "run_api L (BackendsStatusA s a) w = mapO snd (BackendsStatus L s a w)"
| "run_api L (BackendStartDefragA s a b) w = mapO snd (BackendStartDefrag L s a b w)"
| "run_api L (BackendEnableA s a b) w = mapO snd (BackendEnable L s a b w)"
| "run_api L (BackendDisableA s a b) w = mapO snd (BackendDisable L s a b w)"
| "run_api L (BackendMakeWritableA s a b) w = mapO snd (BackendMakeWritable L s a b w)"
| "run_api L (BackendMakeReadOnlyA s a b) w = mapO snd (BackendMakeReadOnly L s a b w)"
| "run_api L (BackendSetDelayA s a b d) w = mapO snd (BackendSetDelay L s a b d w)"

datatype event =
    Api api
  | Reply ccall reply
  | Complete ccall completion
  | Receive ptr
  | DeleteSession Session

fun exec :: "ell_lib \<Rightarrow> event \<Rightarrow> world \<Rightarrow> world outcome" where
  "exec L (Api a) w = run_api L a w"
| "exec L (Reply c r) w = deliver L r (call_result c) w"
| "exec L (Complete c x) w = complete c x w"
| "exec L (Receive ch) w = Done (receive ch w)"
| "exec L (DeleteSession s) w = Session_Delete s w"

text \<open>
  The counter has room for the contexts of one more call; the library reports on requests
  in flight, with the functions it was given; a session is deleted when none of its
  requests is in flight.
\<close>

fun enabled :: "ell_lib \<Rightarrow> event \<Rightarrow> world \<Rightarrow> bool" where
  "enabled L (Api a) w = room 3 w"
| "enabled L (Reply c r) w = (c \<in> set (inflight w) \<and> connected (call_fn c) r \<and> reply_wf L r)"
| "enabled L (Complete c x) w = (c \<in> set (inflight w) \<and> completion_ok (call_fn c) x)"
| "enabled L (Receive ch) w = True"
| "enabled L (DeleteSession s) w = (\<forall>c \<in> set (inflight w). call_session c \<noteq> s_session s)"

definition init_world :: "bool list \<Rightarrow> world" where
  "init_world fails =
     \<lparr>counter = 0, pool = Map.empty, chans = Map.empty, ckeys = Map.empty, ckeyss = Map.empty,
      sessions = Map.empty, wchunks = Map.empty, next_ptr = 0, inflight = [], alloc_fails = fails,
      user_log = [], stats = Map.empty\<rparr>"

inductive reachable :: "ell_lib \<Rightarrow> world \<Rightarrow> bool" for L where
  start: "reachable L (init_world fails)"
| step: "reachable L w \<Longrightarrow> enabled L e w \<Longrightarrow> exec L e w = Done w' \<Longrightarrow> reachable L w'"

text \<open>Sequences of events.\<close>

inductive run :: "ell_lib \<Rightarrow> event list \<Rightarrow> world \<Rightarrow> world \<Rightarrow> bool" for L where
  run_Nil: "run L [] w w"
| run_Cons: "enabled L e w \<Longrightarrow> exec L e w = Done w1 \<Longrightarrow> run L es w1 w2 \<Longrightarrow> run L (e # es) w w2"

inductive_cases run_NilE: "run L [] w w'"
inductive_cases run_ConsE: "run L (e # es) w w'"

text \<open>The events that belong to a request.\<close>

fun concerns :: "ccall \<Rightarrow> event \<Rightarrow> bool" where
  "concerns c (Reply d r) = (c = d)"
| "concerns c (Complete d x) = (c = d)"
| "concerns c _ = False"

text \<open>
  Seen from a request, nothing has happened: it is in flight and what it owns is as
  before. The consumer may have received, so of its channel only the log counts.
\<close>

definition chan_log :: "world \<Rightarrow> ptr \<Rightarrow> elem list option" where
  "chan_log w p = map_option ch_log (chans w p)"

definition undisturbed :: "ccall \<Rightarrow> world \<Rightarrow> world \<Rightarrow> bool" where
  "undisturbed c w w' \<longleftrightarrow>
     c \<in> set (inflight w') \<and> owns w' c = owns w c \<and> resp_chan w' c = resp_chan w c \<and>
     (\<forall>k. RCtx k \<in> owns w c \<longrightarrow> pool w' k = pool w k) \<and>
     (\<forall>p. RChan p \<in> owns w c \<longrightarrow> chan_log w' p = chan_log w p \<and> open_chan w' p) \<and>
     (\<forall>p. RKeys p \<in> owns w c \<longrightarrow> ckeyss w' p = ckeyss w p) \<and>
     (\<forall>p. RWc p \<in> owns w c \<longrightarrow> wchunks w' p = wchunks w p)"

section \<open>Lemmas\<close>

subsection \<open>The invariant\<close>

lemma init_inv: "inv (init_world fails)"
  by (simp add: inv_def init_world_def pool_wf_def ptrs_ok_def open_chan_def)

lemma api_ext:
  assumes "inv w" "room 3 w" "run_api L a w = Done w'"
  shows "extends w w'"
proof -
  have user: "onResult_chan (map_option UserResult r) = None" for r by (cases r) simp_all
  have r1: "room 1 w" using room_mono[OF assms(2)] by simp
  note backend_defs = BackendsStatus_def BackendStartDefrag_def BackendEnable_def BackendDisable_def
    BackendMakeWritable_def BackendMakeReadOnly_def BackendSetDelay_def
  have be: "extends w w'" if "backend_request L s addr fn w = Done (ch, w')" "\<And>x. is_backend_fn (fn x)"
    for s addr fn ch
    using backend_request_ext[OF assms(1,2) that(2,1)] .
  note ops = ReadKey_ext[OF assms(1,2)] ReadData_ext[OF assms(1,2)] BulkRead_ext[OF assms(1,2)]
    WriteKey_ext[OF assms(1,2)] WriteData_ext[OF assms(1,2)] WriteChunk_ext[OF assms(1,2)]
    WriteCache_ext[OF assms(1,2)] Lookup_ext[OF assms(1,2)] ParallelLookup_ext[OF assms(1,2)]
    RemoveKey_ext[OF assms(1,2)] Remove_ext[OF assms(1,2)] BulkWrite_ext[OF assms(1,2)]
    BulkRemove_ext[OF assms(1,2)] FindAllIndexes_ext[OF assms(1,2)] FindAnyIndexes_ext[OF assms(1,2)]
    setOrUpdateIndexes_ext[OF assms(1,2)] ListIndexes_ext[OF assms(1,2)] RemoveIndexes_ext[OF assms(1,2)]
    Write_ext[OF assms(1,2) user] Cache_ext[OF assms(1,2) user] sess_do_ext[OF assms(1)]
    Key_Free_ext[OF assms(1)] DnetStat_request_ext[OF assms(1,2)] GetRoutes_ext[OF assms(1) r1]
  show ?thesis
  proof (cases a)
    case (NewKeyA args)
    then show ?thesis using assms(3) NewKey_ext[OF assms(1)] by (cases "NewKey args w") auto
  next
    case (NewSessionA strerror errno)
    then show ?thesis using assms(3) NewSession_ext[OF assms(1)] by (cases "NewSession strerror errno w") auto
  next
    case (SetFilterA s f)
    then have "w' = w \<or> (\<exists>c. sess_do (s_session s) c w = Done w')"
      using assms(3) by (auto simp: SetFilter_def split: if_splits)
    then show ?thesis using sess_do_ext[OF assms(1)] extends_refl[OF assms(1)] by blast
  qed (use assms(3) in \<open>auto simp: backend_defs SetIndexes_def UpdateIndexes_def SetGroups_def
      SetTimeout_def SetCflags_def SetIOflags_def SetTraceID_def SetNamespace_def
      dest: ops be split: if_splits\<close>)
qed

lemma delete_similar:
  assumes "inv w" "\<forall>c \<in> set (inflight w). call_session c \<noteq> s_session s" "Session_Delete s w = Done w'"
  shows "similar w w'"
proof -
  have "w' = w\<lparr>sessions := (sessions w)(s_session s := None)\<rparr>"
    using assms(3) by (auto simp: Session_Delete_def split: if_splits)
  then show ?thesis
    using assms(2) invD(1,2)[OF assms(1)]
    by (auto simp: similar_def pool_wf_def issued_def ptrs_ok_def open_chan_def)
qed

lemma exec_inv:
  assumes "inv w" "enabled L e w" "exec L e w = Done w'"
  shows "inv w'"
proof (cases e)
  case (Api a)
  then show ?thesis using api_ext[OF assms(1)] assms(2,3) by (auto intro: extends_inv)
next
  case (Reply c r)
  then show ?thesis using similar_inv[OF assms(1) deliver_similar[OF assms(1)]] assms(3) by simp
next
  case (Complete c x)
  then obtain new where "transition [c] new w w'"
    using complete_transition[OF assms(1)] assms(2,3) by fastforce
  then show ?thesis using transition_inv[OF assms(1)] by blast
next
  case (Receive ch)
  then show ?thesis using similar_inv[OF assms(1) receive_similar[OF assms(1)]] assms(3) by auto
next
  case (DeleteSession s)
  then show ?thesis using similar_inv[OF assms(1)] delete_similar[OF assms(1)] assms(2,3) by auto
qed

lemma reachable_inv: "reachable L w \<Longrightarrow> inv w"
  by (induction rule: reachable.induct) (auto intro: init_inv exec_inv)

lemma run_inv: "run L es w w' \<Longrightarrow> inv w \<Longrightarrow> inv w'"
  by (induction rule: run.induct) (auto intro: exec_inv)

lemma run_append: "run L (es @ fs) w w' \<longleftrightarrow> (\<exists>w1. run L es w w1 \<and> run L fs w1 w')"
proof (induction es arbitrary: w)
  case Nil
  show ?case by (auto intro: run_Nil elim: run_NilE)
next
  case (Cons e es)
  then show ?case by (fastforce intro: run_Cons elim: run_ConsE)
qed

lemma reachable_run: "run L es w w' \<Longrightarrow> reachable L w \<Longrightarrow> reachable L w'"
  by (induction rule: run.induct) (auto intro: reachable.step)

subsection \<open>Requests do not disturb each other\<close>

lemma undisturbedI:
  assumes "inv w" "c \<in> set (inflight w)" "c \<in> set (inflight w')"
    and ctx: "\<And>k. RCtx k \<in> owns w c \<Longrightarrow> pool w' k = pool w k"
    and own: "owns w' c = owns w c"
    and ch: "\<And>p. RChan p \<in> owns w c \<Longrightarrow> chan_log w' p = chan_log w p \<and> open_chan w' p"
    and ks: "\<And>p. RKeys p \<in> owns w c \<Longrightarrow> ckeyss w' p = ckeyss w p"
    and wc: "\<And>p. RWc p \<in> owns w c \<Longrightarrow> wchunks w' p = wchunks w p"
  shows "undisturbed c w w'"
proof -
  have ok: "call_ok w c" using invD(3)[OF assms(1,2)] .
  have fin: "pool w' (call_final c) = pool w (call_final c)" using ctx owns_final[OF ok] by blast
  have "resp_chan w' c = resp_chan w c"
    using ok
  proof (cases rule: call_ok_cases)
    case (final f)
    have "fin_chan (wchunks w') f = fin_chan (wchunks w) f"
      by (rule fin_chan_cong) (use wc owns_final_iff(4)[OF final(1)] in blast)
    then show ?thesis using fin final by (simp add: resp_chan_def)
  qed (use fin in \<open>simp add: resp_chan_def\<close>)
  then show ?thesis using assms unfolding undisturbed_def by blast
qed

text \<open>A change of what a request does not own.\<close>

lemma only_undisturbed:
  assumes "inv w" "c \<in> set (inflight w)" "c \<in> set (inflight w')" "only R w w'" "owns w c \<inter> R = {}"
  shows "undisturbed c w w'"
proof (rule undisturbedI[OF assms(1-3)])
  note ok = invD(3)[OF assms(1,2)]
  show "owns w' c = owns w c" using frame[OF ok assms(4,5)] by blast
  show "chan_log w' p = chan_log w p \<and> open_chan w' p" if "RChan p \<in> owns w c" for p
  proof -
    have "RChan p \<notin> R" using that assms(5) by blast
    then show ?thesis
      using onlyD(2)[OF assms(4)] owns_live[OF ok that] by (auto simp: chan_log_def open_chan_def)
  qed
qed (use onlyD[OF assms(4)] assms(5) in blast)+

lemma similar_undisturbed:
  assumes "inv w" "c \<in> set (inflight w)" "similar w w'"
    and "\<And>p. RChan p \<in> owns w c \<Longrightarrow> chan_log w' p = chan_log w p"
  shows "undisturbed c w w'"
proof (rule undisturbedI[OF assms(1,2)])
  note D = similarD[OF assms(3)]
  show "c \<in> set (inflight w')" using assms(2) D(5) by simp
  show "owns w' c = owns w c" using similar_owns[OF assms(3)] .
  show "chan_log w' p = chan_log w p \<and> open_chan w' p" if "RChan p \<in> owns w c" for p
    using assms(4)[OF that] D(7)[of p] owns_live[OF invD(3)[OF assms(1,2)] that] by auto
qed (use similarD[OF assms(3)] in simp_all)

lemma receive_log: "chan_log (receive ch w) p = chan_log w p"
  by (auto simp: chan_log_def receive_def ch_log_recv split: option.splits received.splits)

lemma send_log:
  assumes "send ch e w = Done w'"
  shows "p \<noteq> ch \<Longrightarrow> chan_log w' p = chan_log w p"
    and "chan_log w' ch = map_option (\<lambda>l. l @ [e]) (chan_log w ch)" "chan_log w ch \<noteq> None"
  using assms by (auto simp: send_Done chan_log_def ch_log_def)

lemma resp_chan_owned: "call_ok w c \<Longrightarrow> resp_chan w c = Some ch \<Longrightarrow> RChan ch \<in> owns w c"
  by (erule call_ok_cases) (auto simp: resp_chan_def owns_FnFinal owns_FnBackends fin_resI)

lemma isolation:
  assumes "inv w" "enabled L e w" "exec L e w = Done w'" "c \<in> set (inflight w)" "\<not> concerns c e"
  shows "undisturbed c w w'"
proof (cases e)
  case (Api a)
  then have ext: "extends w w'" using api_ext[OF assms(1)] assms(2,3) by auto
  then have "only (fresh_res w) w w'" by (intro only_fresh) (auto simp: extends_def)
  moreover have "c \<in> set (inflight w')" using ext assms(4) by (auto simp: extends_def)
  ultimately show ?thesis using only_undisturbed owns_not_fresh assms(1,4) by blast
next
  case (Reply d r)
  then have d: "d \<in> set (inflight w)" "d \<noteq> c" using assms(2,5) by auto
  have ok: "call_ok w d" using invD(3)[OF assms(1) d(1)] .
  have "chan_log w' p = chan_log w p" if "RChan p \<in> owns w c" for p
  proof -
    have "RChan p \<notin> owns w d" using that d invD(5)[OF assms(1,4) d(1)] by blast
    moreover have "w' = w \<or> (\<exists>ch e. resp_chan w d = Some ch \<and> send ch e w = Done w')"
      using deliver_sends[OF ok, of r L w'] Reply assms(2,3) by simp
    ultimately show ?thesis using resp_chan_owned[OF ok] send_log(1)[of _ _ w w' p] by metis
  qed
  then show ?thesis
    using similar_undisturbed[OF assms(1,4)] deliver_similar[OF assms(1)] Reply assms(3) by simp
next
  case (Complete d x)
  then have d: "d \<in> set (inflight w)" "d \<noteq> c" using assms(2,5) by auto
  obtain new where tr: "transition [d] new w w'"
    using complete_transition[OF assms(1) d(1)] Complete assms(2,3) by auto
  have "owns w c \<inter> touched [d] w = {}"
    using owns_not_fresh[OF assms(1,4)] invD(5)[OF assms(1,4) d(1)] d(2) by (auto simp: touched_def)
  moreover have "c \<in> set (inflight w')" using transitionD(3)[OF tr] assms(4) d(2) by simp
  ultimately show ?thesis using only_undisturbed[OF assms(1,4) _ transitionD(2)[OF tr]] by blast
next
  case (Receive ch)
  then show ?thesis
    using similar_undisturbed[OF assms(1,4) receive_similar[OF assms(1)]] assms(3) receive_log by auto
next
  case (DeleteSession s)
  then have "w' = w\<lparr>sessions := (sessions w)(s_session s := None)\<rparr>"
    using assms(3) by (auto simp: Session_Delete_def split: if_splits)
  then show ?thesis
    using similar_undisturbed[OF assms(1,4) delete_similar[OF assms(1)]] assms(2,3) DeleteSession
    by (auto simp: chan_log_def)
qed

lemma undisturbed_trans:
  assumes "undisturbed c w w1" "undisturbed c w1 w2"
  shows "undisturbed c w w2"
  using assms unfolding undisturbed_def by metis

end
