(* ===== verification/Results.thy ===== *)
theory Results
  imports World
begin

text \<open>
  The results as their users see them: the methods of the result types of
  \<^verbatim>\<open>session.go\<close>, by which the interfaces \<^verbatim>\<open>ReadResult\<close>, \<^verbatim>\<open>Lookuper\<close>, \<^verbatim>\<open>Remover\<close>, \<^verbatim>\<open>Finder\<close> and
  \<^verbatim>\<open>Indexer\<close> are implemented, and the call of \<^verbatim>\<open>Error()\<close> on a value from a response channel.
\<close>

section \<open>Methods\<close>

definition readResult_Cmd :: "readResult \<Rightarrow> DnetCmd" where "readResult_Cmd r = rr_cmd r"
definition readResult_Addr :: "readResult \<Rightarrow> DnetAddr" where "readResult_Addr r = rr_addr r"
definition readResult_IO :: "readResult \<Rightarrow> DnetIOAttr" where "readResult_IO r = rr_ioattr r"
definition readResult_Data :: "readResult \<Rightarrow> bytes" where "readResult_Data r = rr_data r"
definition readResult_Error :: "readResult \<Rightarrow> error option" where "readResult_Error r = rr_err r"
definition readResult_Key :: "readResult \<Rightarrow> string" where "readResult_Key r = rr_key r"

definition lookupResult_Cmd :: "lookupResult \<Rightarrow> DnetCmd" where "lookupResult_Cmd l = lr_cmd l"
definition lookupResult_Addr :: "lookupResult \<Rightarrow> DnetAddr" where "lookupResult_Addr l = lr_addr l"
definition lookupResult_Info :: "lookupResult \<Rightarrow> DnetFileInfo" where "lookupResult_Info l = lr_info l"
definition lookupResult_StorageAddr :: "lookupResult \<Rightarrow> DnetAddr" where "lookupResult_StorageAddr l = lr_storage_addr l"
definition lookupResult_Path :: "lookupResult \<Rightarrow> string" where "lookupResult_Path l = lr_path l"
definition lookupResult_Error :: "lookupResult \<Rightarrow> error option" where "lookupResult_Error l = lr_err l"
definition lookupResult_Key :: "lookupResult \<Rightarrow> string" where "lookupResult_Key l = lr_key l"

definition removeResult_Cmd :: "removeResult \<Rightarrow> DnetCmd" where "removeResult_Cmd r = rm_cmd r"
definition removeResult_Key :: "removeResult \<Rightarrow> string" where "removeResult_Key r = rm_key r"
definition removeResult_Error :: "removeResult \<Rightarrow> error option" where "removeResult_Error r = rm_err r"

definition IndexEntry_Error :: "IndexEntry \<Rightarrow> error option" where "IndexEntry_Error i = ie_err i"

definition findResult_Data :: "findResult \<Rightarrow> IndexEntry list" where "findResult_Data f = fr_data f"
definition findResult_Error :: "findResult \<Rightarrow> error option" where "findResult_Error f = fr_err f"

definition indexResult_Error :: "indexResult \<Rightarrow> error option" where "indexResult_Error i = ir_err i"

lemmas method_defs [simp] =
  readResult_Cmd_def readResult_Addr_def readResult_IO_def
  readResult_Data_def readResult_Error_def readResult_Key_def
  lookupResult_Cmd_def lookupResult_Addr_def lookupResult_Info_def
  lookupResult_StorageAddr_def lookupResult_Path_def lookupResult_Error_def
  lookupResult_Key_def removeResult_Cmd_def removeResult_Key_def
  removeResult_Error_def IndexEntry_Error_def findResult_Data_def
  findResult_Error_def indexResult_Error_def

text \<open>
  \<^verbatim>\<open>Error()\<close> on a received value. The entries of a status reply and of the statistics have
  no method of that name; their field is read.
\<close>

fun elem_Error :: "elem \<Rightarrow> error option" where
  "elem_Error (ReadE r) = readResult_Error r"
| "elem_Error (LookupE l) = lookupResult_Error l"
| "elem_Error (RemoveE r) = removeResult_Error r"
| "elem_Error (FindE f) = findResult_Error f"
| "elem_Error (IndexE i) = indexResult_Error i"
| "elem_Error (EntryE i) = IndexEntry_Error i"
| "elem_Error (BackendsE b) = bss_Error b"
| "elem_Error (StatE e) = se_err e"

section \<open>Lemmas\<close>

text \<open>The literals for errors carry that error.\<close>

lemma error_literals [simp]:
  "rr_err (readResult_err e) = Some e"
  "lr_err (lookupResult_err e) = Some e"
  "rm_err (removeResult_err k e) = Some e"
  "fr_err (findResult_err e) = Some e"
  "ie_err (IndexEntry_err e) = Some e"
  "se_err (StatEntry_err e) = Some e"
  by (simp_all add: readResult_err_def lookupResult_err_def removeResult_err_def findResult_err_def
      IndexEntry_err_def StatEntry_err_def)

end
