(* ===== verification/Streams.thy ===== *)
theory Streams
  imports Protocol Results
begin

text \<open>
  What the consumer of a response channel sees. The locale \<open>response_stream\<close> is the contract
  of an operation whose result closure forwards every result: its lemmas say that, however
  the events of other requests are interleaved, the channel carries the results of its own
  request in the order they were delivered, then the final error if there is one, and is
  then closed for good. The operations of \<^verbatim>\<open>session.go\<close> that work this way interpret it.
\<close>

section \<open>Definitions\<close>

text \<open>A request whose two closures are \<open>res\<close> and \<open>fin\<close>, with the channel \<open>ch\<close>.\<close>

definition streaming ::
    "(ptr \<Rightarrow> goval) \<Rightarrow> (ptr \<Rightarrow> u64 \<Rightarrow> u64 \<Rightarrow> final_fn) \<Rightarrow> ccall \<Rightarrow> ptr \<Rightarrow> world \<Rightarrow> bool" where
  "streaming res fin c ch w \<longleftrightarrow>
     c \<in> set (inflight w) \<and> pool w (call_result c) = Some (res ch) \<and>
     pool w (call_final c) = Some (FnFinal (fin ch (call_result c) (call_final c)))"

text \<open>The results a sequence of events delivers to a request.\<close>

fun replies_of :: "ccall \<Rightarrow> event list \<Rightarrow> reply list" where
  "replies_of c [] = []"
| "replies_of c (Reply d r # es) = (if d = c then r # replies_of c es else replies_of c es)"
| "replies_of c (_ # es) = replies_of c es"

text \<open>The channel is closed and has carried exactly \<open>l\<close>.\<close>

definition finished_with :: "elem list \<Rightarrow> ptr \<Rightarrow> world \<Rightarrow> bool" where
  "finished_with l ch w \<longleftrightarrow> (\<exists>b. chans w ch = Some b \<and> ch_closed b \<and> ch_log b = l)"

definition no_completion :: "ccall \<Rightarrow> event list \<Rightarrow> bool" where
  "no_completion c es \<longleftrightarrow> list_all (\<lambda>e. case e of Complete d x \<Rightarrow> d \<noteq> c | _ \<Rightarrow> True) es"

text \<open>The error of \<^verbatim>\<open>go_final_callback\<close>: a negative code.\<close>

definition final_error :: "error_info \<Rightarrow> error option" where
  "final_error e =
     (if sint (ei_code e) < 0
      then Some (EDnet \<lparr>Code = sint (ei_code e), Flags = 0, Message = c_string (ei_message e)\<rparr>)
      else None)"

text \<open>What the closures of the operations put into their channels.\<close>

definition addr_of :: "c_dnet_addr \<Rightarrow> DnetAddr" where
  "addr_of a = \<lparr>Addr = take (unat (ca_len a)) (ca_addr a), Family = ca_family a\<rparr>"

fun read_elem :: "ell_lib \<Rightarrow> reply \<Rightarrow> elem" where
  "read_elem L (ReadR g) =
     ReadE \<lparr>rr_cmd = NewDnetCmd L (re_command g),
       rr_addr = addr_of (re_address g),
       rr_ioattr = NewDnetIOAttr L (the (re_io_attribute g)),
       rr_data = (case re_file g of
           Some d \<Rightarrow> (case dp_data d of At mem \<Rightarrow> mem | _ \<Rightarrow> []) | None \<Rightarrow> []),
       rr_err = None, rr_key = []\<rparr>"
| "read_elem L _ = ReadE (readResult_err EEOF)"

fun lookup_elem :: "ell_lib \<Rightarrow> reply \<Rightarrow> elem" where
  "lookup_elem L (LookupR e g) =
     (if ei_code e \<noteq> 0
      then LookupE ((lookupResult_err (EDnet \<lparr>Code = sint (ei_code e), Flags = cc_flags (glr_cmd g),
             Message = c_string (ei_message e)\<rparr>))\<lparr>lr_cmd := NewDnetCmd L (glr_cmd g), lr_addr := addr_of (glr_addr g)\<rparr>)
      else LookupE \<lparr>lr_cmd = NewDnetCmd L (glr_cmd g), lr_addr = addr_of (glr_addr g),
             lr_info = NewDnetFileInfo L (glr_info g), lr_storage_addr = addr_of (glr_storage_addr g),
             lr_path = c_string (glr_path g), lr_err = None, lr_key = []\<rparr>)"
| "lookup_elem L _ = LookupE (lookupResult_err EEOF)"

fun remove_elem :: "ell_lib \<Rightarrow> reply \<Rightarrow> elem" where
  "remove_elem L (RemoveR cmd) = RemoveE \<lparr>rm_cmd = NewDnetCmd L cmd, rm_key = [], rm_err = None\<rparr>"
| "remove_elem L _ = RemoveE (removeResult_err [] EEOF)"

fun find_elem :: "ell_lib \<Rightarrow> reply \<Rightarrow> elem" where
  "find_elem L (FindR g) =
     FindE \<lparr>fr_id = gfr_id g,
       fr_data = map (\<lambda>e. \<lparr>ie_Data = string_of_bytes (ce_data e), ie_err = None\<rparr>) (gfr_entries g), fr_err = None\<rparr>"
| "find_elem L _ = FindE (findResult_err EEOF)"

fun entry_elem :: "ell_lib \<Rightarrow> reply \<Rightarrow> elem" where
  "entry_elem L (EntryR e) = EntryE \<lparr>ie_Data = string_of_bytes (ce_data e), ie_err = None\<rparr>"
| "entry_elem L _ = EntryE (IndexEntry_err EEOF)"

fun stat_elem :: "ell_lib \<Rightarrow> reply \<Rightarrow> elem" where
  "stat_elem L (StatR g) =
     StatE \<lparr>se_cmd = NewDnetCmd L (gst_cmd g), se_addr = addr_of (gst_addr g),
       se_stat = (case gst_data g of None \<Rightarrow> [] | Some mem \<Rightarrow> mem), se_err = None\<rparr>"
| "stat_elem L _ = StatE (StatEntry_err EEOF)"

section \<open>Closed channels\<close>

text \<open>What a closed channel has carried never changes.\<close>

lemma closed_not_owned:
  assumes "inv w" "c \<in> set (inflight w)" "finished_with l ch w"
  shows "RChan ch \<notin> owns w c"
  using owns_live[OF invD(3)[OF assms(1,2)], of "RChan ch"] assms(3) by (auto simp: finished_with_def open_chan_def)

lemma finished_stable:
  assumes "inv w" "enabled L e w" "exec L e w = Done w'" "finished_with l ch w"
  shows "finished_with l ch w'"
proof -
  have old: "\<not> next_ptr w \<le> ch"
    using invD(2)[OF assms(1)] assms(4) by (auto simp: ptrs_ok_def finished_with_def)
  have same: ?thesis if "chans w' ch = chans w ch" using that assms(4) by (simp add: finished_with_def)
  show ?thesis
  proof (cases e)
    case (Api a)
    then have "extends w w'" using api_ext[OF assms(1)] assms(2,3) by simp
    then show ?thesis using same old by (simp add: extends_def heap_ext_def)
  next
    case (Reply c r)
    then have c: "c \<in> set (inflight w)" "connected (call_fn c) r" using assms(2) by auto
    then have "w' = w \<or> (\<exists>p x. resp_chan w c = Some p \<and> send p x w = Done w')"
      using deliver_sends[OF invD(3)[OF assms(1) c(1)] c(2), of L w'] Reply assms(3) by simp
    then show ?thesis
      using assms(4) by (auto simp: send_Done finished_with_def chan_has_room_def)
  next
    case (Complete c x)
    then obtain new where tr: "transition [c] new w w'" and c: "c \<in> set (inflight w)"
      using complete_transition[OF assms(1)] assms(2,3) by fastforce
    have "RChan ch \<notin> touched [c] w" using closed_not_owned[OF assms(1) c assms(4)] old by (simp add: touched_def)
    then show ?thesis using same onlyD(2)[OF transitionD(2)[OF tr]] by blast
  next
    case (Receive p)
    then show ?thesis
      using assms(3,4) by (auto simp: receive_def finished_with_def ch_log_recv split: option.splits received.splits)
  next
    case (DeleteSession s)
    then show ?thesis using same assms(3) by (auto simp: Session_Delete_def split: if_splits)
  qed
qed

lemma finished_run: "run L es w w' \<Longrightarrow> inv w \<Longrightarrow> finished_with l ch w \<Longrightarrow> finished_with l ch w'"
  by (induction rule: run.induct) (auto intro: exec_inv finished_stable)

section \<open>The contract\<close>

locale response_stream =
  fixes res :: "ptr \<Rightarrow> goval"
    and fin :: "ptr \<Rightarrow> u64 \<Rightarrow> u64 \<Rightarrow> final_fn"
    and elem_of :: "ell_lib \<Rightarrow> reply \<Rightarrow> elem"
    and err_elem :: "error \<Rightarrow> elem"
    and accepts :: "reply \<Rightarrow> bool"
  assumes deliver_res: "pool w k = Some (res ch) \<Longrightarrow> accepts r \<Longrightarrow> reply_wf L r \<Longrightarrow>
      deliver L r k w = send ch (elem_of L r) w"
    and final_fin: "call_final_fn (fin ch c1 c2) err =
      steps [case err of Some e \<Rightarrow> send ch (err_elem e) | None \<Rightarrow> skip, close_chan ch,
        delete_ctx c1, delete_ctx c2]"
    and fin_chan_fin: "fin_chan m (fin ch c1 c2) = Some ch"
    and accepts_fin: "fn_ok (fin ch c1 c2) fn \<Longrightarrow> connected fn r \<Longrightarrow> accepts r"
begin

lemma streaming_chan: "streaming res fin c ch w \<Longrightarrow> resp_chan w c = Some ch"
  by (simp add: streaming_def resp_chan_def fin_chan_fin)

lemma streaming_ctx:
  assumes "inv w" "streaming res fin c ch w"
  shows "RCtx (call_result c) \<in> owns w c" "RCtx (call_final c) \<in> owns w c" "RChan ch \<in> owns w c"
    and "fn_ok (fin ch (call_result c) (call_final c)) (call_fn c)"
proof -
  have ok: "call_ok w c" using invD(3) assms by (auto simp: streaming_def)
  show "RCtx (call_result c) \<in> owns w c" "RCtx (call_final c) \<in> owns w c" "RChan ch \<in> owns w c"
    using owns_result[OF ok] owns_final[OF ok] resp_chan_owned[OF ok streaming_chan[OF assms(2)]] by auto
  show "fn_ok (fin ch (call_result c) (call_final c)) (call_fn c)"
    using ok
  proof (cases rule: call_ok_cases)
    case (final f)
    then have "f = fin ch (call_result c) (call_final c)" using assms(2) by (simp add: streaming_def)
    then show ?thesis using fin_callD(1)[OF final(2)] by simp
  next
    case (backend q)
    then have "FnBackends q (call_final c) = FnFinal (fin ch (call_result c) (call_final c))"
      using assms(2) unfolding streaming_def by (metis option.inject)
    then show ?thesis by simp
  qed
qed

text \<open>Events of other requests change nothing.\<close>

lemma stream_other:
  assumes "inv w" "streaming res fin c ch w" "enabled L e w" "exec L e w = Done w'" "\<not> concerns c e"
  shows "streaming res fin c ch w' \<and> chan_log w' ch = chan_log w ch"
proof -
  have "c \<in> set (inflight w)" using assms(2) by (simp add: streaming_def)
  then have "undisturbed c w w'" using isolation[OF assms(1,3,4) _ assms(5)] by blast
  then show ?thesis
    using streaming_ctx[OF assms(1,2)] assms(2) by (simp add: undisturbed_def streaming_def)
qed

text \<open>A result of the request is appended.\<close>

lemma stream_reply:
  assumes "inv w" "streaming res fin c ch w" "enabled L (Reply c r) w" "exec L (Reply c r) w = Done w'"
  shows "streaming res fin c ch w' \<and> chan_log w' ch = map_option (\<lambda>l. l @ [elem_of L r]) (chan_log w ch)"
proof -
  have "accepts r" using accepts_fin[OF streaming_ctx(4)[OF assms(1,2)]] assms(3) by simp
  then have "send ch (elem_of L r) w = Done w'"
    using deliver_res[of w "call_result c" ch r L] assms(2-4) by (simp add: streaming_def)
  then show ?thesis
    using send_log(2)[of ch _ w w'] assms(2) by (auto simp: send_Done streaming_def)
qed

lemma stream_run:
  assumes "run L es w w'" "inv w" "streaming res fin c ch w" "no_completion c es"
  shows "streaming res fin c ch w' \<and>
    chan_log w' ch = map_option (\<lambda>l. l @ map (elem_of L) (replies_of c es)) (chan_log w ch)"
  using assms
proof (induction rule: run.induct)
  case (run_Nil w)
  then show ?case by (simp add: option.map_ident)
next
  case (run_Cons e w w1 es w2)
  have inv1: "inv w1" using exec_inv run_Cons by blast
  have nc: "no_completion c es" using run_Cons.prems(3) by (simp add: no_completion_def)
  show ?case
  proof (cases "concerns c e")
    case True
    then obtain r where e: "e = Reply c r" using run_Cons.prems(3) by (cases e) (auto simp: no_completion_def)
    have s: "streaming res fin c ch w1" "chan_log w1 ch = map_option (\<lambda>l. l @ [elem_of L r]) (chan_log w ch)"
      using stream_reply[OF run_Cons.prems(1,2)] run_Cons.hyps(1,2) e by blast+
    show ?thesis using run_Cons.IH[OF inv1 s(1) nc] s(2) e
      by (cases "chan_log w ch") simp_all
  next
    case False
    have s: "streaming res fin c ch w1" "chan_log w1 ch = chan_log w ch"
      using stream_other[OF run_Cons.prems(1,2) run_Cons.hyps(1,2) False] by blast+
    have "replies_of c (e # es) = replies_of c es" using False by (cases e) auto
    then show ?thesis using run_Cons.IH[OF inv1 s(1) nc] s(2) by simp
  qed
qed

text \<open>The end of the request: the error, if any, and the channel is closed.\<close>

lemma stream_complete:
  assumes "inv w" "streaming res fin c ch w" "complete c (Final e) w = Done w'" "chan_log w ch = Some l"
  shows "finished_with (l @ (case final_error e of None \<Rightarrow> [] | Some x \<Rightarrow> [err_elem x])) ch w'"
proof -
  let ?w = "w\<lparr>inflight := filter (\<lambda>d. d \<noteq> c) (inflight w)\<rparr>"
  have "call_final_fn (fin ch (call_result c) (call_final c)) (final_error e) ?w = Done w'"
    using assms(2,3)
    by (auto simp: complete_def on_finish_def go_final_callback_def with_context_found streaming_def
        final_error_def dnet_error_of_def split: if_splits)
  then obtain w1 w2 where
      "(case final_error e of Some x \<Rightarrow> send ch (err_elem x) | None \<Rightarrow> skip) ?w = Done w1"
      "close_chan ch w1 = Done w2" "chans w' = chans w2"
    by (auto simp: final_fin delete_ctx_def Delete_def)
  then show ?thesis
    using assms(4)
    by (cases "final_error e") (auto simp: close_chan_Done send_Done finished_with_def chan_log_def ch_log_def)
qed

text \<open>The whole life of the request, whatever happens in between and afterwards.\<close>

lemma stream_life:
  assumes "inv w" "streaming res fin c ch w" "chan_log w ch = Some []"
    and "run L (es @ Complete c (Final e) # es') w w'" "no_completion c es"
  shows "finished_with (map (elem_of L) (replies_of c es) @
    (case final_error e of None \<Rightarrow> [] | Some x \<Rightarrow> [err_elem x])) ch w'"
proof -
  obtain w1 w2 where r: "run L es w w1" "enabled L (Complete c (Final e)) w1"
      "exec L (Complete c (Final e)) w1 = Done w2" "run L es' w2 w'"
    using assms(4) by (auto simp: run_append elim!: run_ConsE)
  have inv1: "inv w1" using run_inv[OF r(1) assms(1)] .
  have s1: "streaming res fin c ch w1" "chan_log w1 ch = Some (map (elem_of L) (replies_of c es))"
    using stream_run[OF r(1) assms(1,2,5)] assms(3) by simp_all
  have "finished_with (map (elem_of L) (replies_of c es) @
    (case final_error e of None \<Rightarrow> [] | Some x \<Rightarrow> [err_elem x])) ch w2"
    using stream_complete[OF inv1 s1(1) _ s1(2)] r(3) by simp
  then show ?thesis using finished_run[OF r(4) exec_inv[OF inv1 r(2,3)]] by blast
qed

end

text \<open>
  The documentation of the package promises more: \<^verbatim>\<open>Error()\<close> is nil on every value but the
  last, and not nil on the last one exactly when the request failed. That holds for the
  operations whose results carry no error of their own.
\<close>

lemma run_replies:
  "run L es w w' \<Longrightarrow> r \<in> set (replies_of c es) \<Longrightarrow> connected (call_fn c) r"
proof (induction rule: run.induct)
  case (run_Cons e w w1 es w2)
  then show ?case by (cases e) (auto split: if_splits)
qed simp

definition error_last :: "elem list \<Rightarrow> error option \<Rightarrow> bool" where
  "error_last vs err \<longleftrightarrow>
     (\<forall>i \<in> {0 ..< length vs}. elem_Error (vs ! i) = (if Suc i = length vs then err else None))"

lemma error_last_quiet:
  assumes "\<forall>v \<in> set vs. elem_Error v = None"
  shows "error_last vs None" "elem_Error x = Some e \<Longrightarrow> error_last (vs @ [x]) (Some e)"
  using assms by (auto simp: error_last_def nth_append)

locale quiet_stream = response_stream +
  assumes quiet: "accepts r \<Longrightarrow> elem_Error (elem_of L r) = None"
    and loud: "elem_Error (err_elem e) = Some e"
begin

lemma stream_error_last:
  assumes "inv w" "streaming res fin c ch w" "run L (es @ Complete c (Final e) # es') w w'"
  shows "error_last (map (elem_of L) (replies_of c es) @
    (case final_error e of None \<Rightarrow> [] | Some x \<Rightarrow> [err_elem x])) (final_error e)"
proof -
  obtain w1 where "run L es w w1" using assms(3) by (auto simp: run_append)
  then have "\<forall>r \<in> set (replies_of c es). accepts r"
    using run_replies accepts_fin[OF streaming_ctx(4)[OF assms(1,2)]] by blast
  then have "\<forall>v \<in> set (map (elem_of L) (replies_of c es)). elem_Error v = None" by (auto simp: quiet)
  from error_last_quiet[OF this] show ?thesis by (cases "final_error e") (simp_all add: loud)
qed

end

section \<open>The operations\<close>

lemma deliver_read:
  assumes "pool w k = Some (FnRead (ReadKeyRes ch))" "reply_wf L (ReadR g)"
  shows "deliver L (ReadR g) k w = send ch (read_elem L (ReadR g)) w"
proof -
  have "NewDnetAddr (re_address g) = Done (addr_of (re_address g))"
    using assms(2) by (simp add: NewDnetAddr_ok[of L] addr_of_def)
  from on_read_calls[OF assms this] show ?thesis by (auto simp: ReadKey_onResult_def)
qed

lemma deliver_lookup:
  assumes "pool w k = Some (FnLookup (LookupRes ch)) \<or> pool w k = Some (FnLookup (ParallelLookupRes ch))"
    and "reply_wf L (LookupR e g)"
  shows "deliver L (LookupR e g) k w = send ch (lookup_elem L (LookupR e g)) w"
  using assms by (auto simp: on_lookup_def go_lookup_error_def go_lookup_callback_def with_context_found
      NewDnetAddr_ok addr_of_def dnet_error_of_def)

lemma deliver_find:
  assumes "pool w k = Some (FnFind ch)" "reply_wf L (FindR g)"
  shows "deliver L (FindR g) k w = send ch (find_elem L (FindR g)) w"
proof -
  have "mapM index_entry (gfr_entries g) =
      Done (map (\<lambda>e. \<lparr>ie_Data = string_of_bytes (ce_data e), ie_err = None\<rparr>) (gfr_entries g))"
    using assms(2) by (intro mapM_all_Done) (simp add: index_entry_wf)
  then show ?thesis using assms(1) by (simp add: go_find_callback_def with_context_found)
qed

lemma deliver_stat:
  assumes "pool w k = Some (FnStat ch)" "reply_wf L (StatR g)"
  shows "deliver L (StatR g) k w = send ch (stat_elem L (StatR g)) w"
  using assms stat_bytes_wf[OF assms(2)]
  by (simp add: go_stat_callback_def with_context_found NewDnetAddr_ok[of L] addr_of_def)

lemma elem_Error_quiet:
  "elem_Error (read_elem L (ReadR r)) = None"
  "elem_Error (remove_elem L (RemoveR d)) = None"
  "elem_Error (find_elem L (FindR f)) = None"
  "elem_Error (entry_elem L (EntryR n)) = None"
  "elem_Error (stat_elem L (StatR g)) = None"
  by simp_all

interpretation rd: quiet_stream "\<lambda>ch. FnRead (ReadKeyRes ch)" ReadKeyFin read_elem
  "\<lambda>e. ReadE (readResult_err e)" "\<lambda>r. \<exists>g. r = ReadR g"
  by unfold_locales (auto simp: elem_Error_quiet deliver_read ReadKey_onFinish_def simp del: deliver.simps read_elem.simps reply_sized.simps reply_complete.simps)

interpretation lk: response_stream "\<lambda>ch. FnLookup (LookupRes ch)" LookupFin lookup_elem
  "\<lambda>e. LookupE (lookupResult_err e)" "\<lambda>r. \<exists>e g. r = LookupR e g"
  by unfold_locales (auto simp: deliver_lookup Lookup_onFinish_def simp del: deliver.simps lookup_elem.simps reply_sized.simps reply_complete.simps)

interpretation pk: response_stream "\<lambda>ch. FnLookup (ParallelLookupRes ch)" ParallelLookupFin lookup_elem
  "\<lambda>e. LookupE (lookupResult_err e)" "\<lambda>r. \<exists>e g. r = LookupR e g"
  by unfold_locales
    (auto simp: deliver_lookup ParallelLookup_onFinish_def simp del: deliver.simps lookup_elem.simps reply_sized.simps reply_complete.simps)

interpretation rm: quiet_stream "\<lambda>ch. FnRemove (RemoveKeyRes ch)" RemoveKeyFin remove_elem
  "\<lambda>e. RemoveE (removeResult_err [] e)" "\<lambda>r. \<exists>g. r = RemoveR g"
  by unfold_locales (auto simp: go_remove_callback_def with_context_found RemoveKey_onFinish_def)

interpretation fi: quiet_stream "\<lambda>ch. FnFind ch" FindIndexesFin find_elem
  "\<lambda>e. FindE (findResult_err e)" "\<lambda>r. \<exists>g. r = FindR g"
  by unfold_locales (auto simp: elem_Error_quiet deliver_find findIndexes_onFinish_def simp del: deliver.simps find_elem.simps reply_sized.simps reply_complete.simps)

interpretation li: quiet_stream "\<lambda>ch. FnEntry ch" ListIndexesFin entry_elem
  "\<lambda>e. EntryE (IndexEntry_err e)" "\<lambda>r. \<exists>g. r = EntryR g"
  by unfold_locales (auto simp: go_index_entry_callback_def with_context_found index_entry_wf ListIndexes_onFinish_def)

interpretation sn: quiet_stream "\<lambda>ch. FnStat ch" StatFin stat_elem
  "\<lambda>e. StatE (StatEntry_err e)" "\<lambda>r. \<exists>g. r = StatR g"
  by unfold_locales (auto simp: elem_Error_quiet deliver_stat DnetStat_onFinish_def simp del: deliver.simps stat_elem.simps reply_sized.simps reply_complete.simps)

text \<open>Each operation starts such a request with an empty channel.\<close>

lemma ReadKey_streams:
  assumes "room 3 w" "ReadKey s key offset sz w = Done (ch, w')"
  shows "streaming (\<lambda>ch. FnRead (ReadKeyRes ch)) ReadKeyFin (last (inflight w')) ch w' \<and> chan_log w' ch = Some []"
  using assms(2) ctx_fresh[OF assms(1)]
  by (auto simp: ReadKey_def op_defs streaming_def chan_log_def split: option.splits if_splits)

lemma Lookup_streams:
  assumes "room 3 w" "Lookup s key w = Done (ch, w')"
  shows "streaming (\<lambda>ch. FnLookup (LookupRes ch)) LookupFin (last (inflight w')) ch w' \<and> chan_log w' ch = Some []"
  using assms(2) ctx_fresh[OF assms(1)]
  by (auto simp: Lookup_def op_defs streaming_def chan_log_def split: option.splits if_splits)

lemma RemoveKey_streams:
  assumes "room 3 w" "RemoveKey s key w = Done (ch, w')"
  shows "streaming (\<lambda>ch. FnRemove (RemoveKeyRes ch)) RemoveKeyFin (last (inflight w')) ch w' \<and>
    chan_log w' ch = Some []"
  using assms(2) ctx_fresh[OF assms(1)]
  by (auto simp: RemoveKey_def op_defs streaming_def chan_log_def split: option.splits if_splits)

text \<open>
  A received value of a remove is therefore no sign of failure: one value with a nil error is
  sent for every entry the library reports.
\<close>

lemma RemoveKey_error_last:
  assumes "inv w0" "room 3 w" "RemoveKey s key w = Done (ch, w0)" "c = last (inflight w0)"
    and "run L (es @ Complete c (Final e) # es') w0 w'" "no_completion c es"
  shows "finished_with (map (remove_elem L) (replies_of c es) @
      (case final_error e of None \<Rightarrow> [] | Some x \<Rightarrow> [RemoveE (removeResult_err [] x)])) ch w' \<and>
    error_last (map (remove_elem L) (replies_of c es) @
      (case final_error e of None \<Rightarrow> [] | Some x \<Rightarrow> [RemoveE (removeResult_err [] x)])) (final_error e)"
  using rm.stream_life[OF assms(1) _ _ assms(5,6)] rm.stream_error_last[OF assms(1) _ assms(5)]
    RemoveKey_streams[OF assms(2,3)] assms(4) by blast

lemma FindAllIndexes_streams:
  assumes "room 3 w" "FindAllIndexes s indexes w = Done (ch, w')"
  shows "streaming (\<lambda>ch. FnFind ch) FindIndexesFin (last (inflight w')) ch w' \<and> chan_log w' ch = Some []"
  using assms(2) ctx_fresh[OF assms(1)]
  by (auto simp: FindAllIndexes_def findIndexes_def op_defs streaming_def chan_log_def
      split: option.splits if_splits)

lemma DnetStat_request_streams:
  assumes "room 3 w" "DnetStat_request L now es s w = Done (ch, st, w')"
  shows "streaming (\<lambda>ch. FnStat ch) StatFin (last (inflight w')) ch w' \<and> chan_log w' ch = Some []"
proof -
  obtain w1 where w1: "c_request (s_session s) (C_get_stats stat_categories) (counter w + 1) (counter w + 1 + 1)
        (w\<lparr>next_ptr := Suc (next_ptr w), chans := (chans w)(next_ptr w \<mapsto> chan_make 10), counter := counter w + 1 + 1,
          pool := (pool w)(counter w + 1 \<mapsto> FnStat (next_ptr w), counter w + 1 + 1 \<mapsto>
            FnFinal (StatFin (next_ptr w) (counter w + 1) (counter w + 1 + 1)))\<rparr>) = Done w1"
    and ch: "ch = next_ptr w"
    and r: "GetRoutes L now es s (next_ptr w1)
        (w1\<lparr>next_ptr := Suc (next_ptr w1), stats := (stats w1)(next_ptr w1 \<mapsto> DnetStat_new)\<rparr>) = Done w'"
    using assms(2)
    by (auto simp: DnetStat_request_def make_chan_def new_ptr_def NextContext_def Store_def Let_def)
  obtain m where w': "w' = w1\<lparr>next_ptr := Suc (next_ptr w1), counter := counter w1 + 1, stats := m,
      pool := (pool w1)(counter w1 + 1 := None)\<rparr>"
    using GetRoutes_shape[OF r] by auto
  show ?thesis
    using w1 ctx_fresh[OF assms(1)]
    by (auto simp: w' ch c_request_def streaming_def chan_log_def split: option.splits if_splits)
qed

end
