(* ===== verification/Chunks.thy ===== *)
theory Chunks
  imports Streams
begin

text \<open>
  Chunked writes (\<^verbatim>\<open>WriteChunk\<close> of \<^verbatim>\<open>session.go\<close>). Each successful completion reads one more
  piece of the input and sends it as the next request; \<open>chunk_calls\<close> is the resulting
  sequence as a function of the shared variables alone. The lemmas relate it to the
  protocol, where completions are interleaved with everything else, and show what the
  sequence is for a reader that delivers the announced number of bytes.
\<close>

section \<open>Definitions\<close>

text \<open>The requests that successive successful completions make.\<close>

function chunk_calls :: "wchunk \<Rightarrow> c_fn list" where
  "chunk_calls v =
     (if wc_total v = 0 then []
      else case wc_input v of
             [] \<Rightarrow> []
           | (bs, err) # input \<Rightarrow>
               if bs = [] \<and> err \<noteq> None then []
               else chunk_fn (next_chunk bs input v) bs # chunk_calls (next_chunk bs input v))"
  by pat_completeness auto
termination
  by (relation "measure (\<lambda>v. length (wc_input v))") (auto simp: next_chunk_def)

declare chunk_calls.simps [simp del]

text \<open>
  A request \<open>c\<close>, the requests that continue it when it and they complete without error,
  and whatever else happens in between.
\<close>

inductive chain :: "ell_lib \<Rightarrow> ccall \<Rightarrow> world \<Rightarrow> c_fn list \<Rightarrow> ccall \<Rightarrow> world \<Rightarrow> bool" for L where
  chain_here: "run L es w w' \<Longrightarrow> no_completion c es \<Longrightarrow> chain L c w [] c w'"
| chain_next: "run L es w w1 \<Longrightarrow> no_completion c es \<Longrightarrow> enabled L (Complete c (Final e)) w1 \<Longrightarrow>
    final_error e = None \<Longrightarrow> exec L (Complete c (Final e)) w1 = Done w2 \<Longrightarrow>
    c' \<in> set (inflight w2) \<Longrightarrow> call_final c' = call_final c \<Longrightarrow>
    chain L c' w2 fns d w3 \<Longrightarrow> chain L c w (call_fn c' # fns) d w3"

text \<open>The request \<open>c\<close> belongs to the chunked write with the variables \<open>v\<close> at \<open>p\<close>.\<close>

definition chunking :: "ccall \<Rightarrow> ptr \<Rightarrow> wchunk \<Rightarrow> world \<Rightarrow> bool" where
  "chunking c p v w \<longleftrightarrow>
     c \<in> set (inflight w) \<and> pool w (call_final c) = Some (FnFinal (WriteChunkFin p)) \<and> wchunks w p = Some v"

text \<open>Offset, data and end of the write a request makes.\<close>

fun write_at :: "c_fn \<Rightarrow> (u64 \<times> bytes) option" where
  "write_at (C_write_prepare k off sz d) = Some (off, d)"
| "write_at (C_write_plain k off d) = Some (off, d)"
| "write_at (C_write_commit k off sz d) = Some (off, d)"
| "write_at _ = None"

text \<open>The pieces of an input laid out one after the other.\<close>

fun layout :: "u64 \<Rightarrow> bytes list \<Rightarrow> (u64 \<times> bytes) list" where
  "layout off [] = []"
| "layout off (bs # bss) = (off, bs) # layout (off + of_nat (length bs)) bss"

text \<open>The calls for the pieces: plain writes, the last one a commit of everything written.\<close>

fun plan :: "ell_key \<Rightarrow> u64 \<Rightarrow> bytes list \<Rightarrow> c_fn list" where
  "plan k off [] = []"
| "plan k off (bs # bss) =
     (if bss = [] then [C_write_commit k off (off + of_nat (length bs)) bs]
      else C_write_plain k off bs # plan k (off + of_nat (length bs)) bss)"

section \<open>Lemmas\<close>

subsection \<open>The sequence\<close>

lemma of_nat_u64_0:
  assumes "n < 18446744073709551616"
  shows "(of_nat n :: u64) = 0 \<longleftrightarrow> n = 0"
proof -
  have "(of_nat n :: u64) = 0 \<longleftrightarrow> 18446744073709551616 dvd n"
    by (simp add: word_of_nat_eq_0_iff)
  also have "\<dots> \<longleftrightarrow> n = 0"
    using assms nat_dvd_not_less[of n 18446744073709551616] by (cases "n = 0") auto
  finally show ?thesis .
qed

lemma chunk_calls_plan:
  assumes "\<forall>bs \<in> set bss. bs \<noteq> []" "sum_list (map length bss) < 18446744073709551616"
    and "wc_input v = map (\<lambda>bs. (bs, None)) bss @ rest" "wc_total v = of_nat (sum_list (map length bss))"
  shows "chunk_calls v = plan (KeyRemote (c_string (wc_key v))) (wc_offset v) bss"
  using assms
proof (induction bss arbitrary: v)
  case Nil
  then show ?case by (simp add: chunk_calls.simps)
next
  case (Cons bs bss)
  let ?v = "next_chunk bs (map (\<lambda>bs. (bs, None)) bss @ rest) v"
  have "sum_list (map length (bs # bss)) \<noteq> 0" using Cons.prems(1) by auto
  then have nz: "wc_total v \<noteq> 0" using of_nat_u64_0[OF Cons.prems(2)] Cons.prems(4) by (simp del: of_nat_add)
  have rest: "wc_total ?v = of_nat (sum_list (map length bss))" using Cons.prems(4) by (simp add: next_chunk_def)
  have more: "(of_nat (sum_list (map length bss)) :: u64) = 0 \<longleftrightarrow> bss = []"
  proof -
    have "(of_nat (sum_list (map length bss)) :: u64) = 0 \<longleftrightarrow> sum_list (map length bss) = 0"
      using Cons.prems(2) by (intro of_nat_u64_0) simp
    moreover have "sum_list (map length bss) = 0 \<longleftrightarrow> bss = []" using Cons.prems(1) by (cases bss) auto
    ultimately show ?thesis by simp
  qed
  have ih: "chunk_calls ?v = plan (KeyRemote (c_string (wc_key v))) (wc_offset v + of_nat (length bs)) bss"
    using Cons.IH[of ?v] Cons.prems rest by (simp add: next_chunk_def)
  have "chunk_calls v = chunk_fn ?v bs # chunk_calls ?v"
    using Cons.prems(1,3) nz by (subst chunk_calls.simps) simp
  moreover have "chunk_fn ?v bs = (if bss = [] then C_write_commit (KeyRemote (c_string (wc_key v))) (wc_offset v)
      (wc_offset v + of_nat (length bs)) bs else C_write_plain (KeyRemote (c_string (wc_key v))) (wc_offset v) bs)"
    using more rest by (simp add: chunk_fn_def next_chunk_def)
  ultimately show ?case using ih by auto
qed

lemma plan_layout: "map write_at (plan k off bss) = map Some (layout off bss)"
  by (induction bss arbitrary: off) auto

lemma layout_data: "map snd (layout off bss) = bss"
  by (induction bss arbitrary: off) auto

lemma layout_length [simp]: "length (layout off bss) = length bss"
  by (induction bss arbitrary: off) auto

lemma layout_nth:
  "i < length bss \<Longrightarrow> layout off bss ! i = (off + of_nat (sum_list (map length (take i bss))), bss ! i)"
proof (induction bss arbitrary: off i)
  case (Cons bs bss)
  then show ?case by (cases i) (auto simp: add.assoc)
qed simp

subsection \<open>The protocol follows the sequence\<close>

lemma chunking_step:
  assumes "inv w" "chunking c p v w" "enabled L e w" "exec L e w = Done w'" "no_completion c [e]"
  shows "chunking c p v w'"
proof (cases "concerns c e")
  case True
  then obtain r where "e = Reply c r" using assms(5) by (cases e) (auto simp: no_completion_def)
  then have "similar w w'" using deliver_similar[OF assms(1)] assms(4) by simp
  then show ?thesis using similarD(1,3,5)[of w w'] assms(2) by (simp add: chunking_def)
next
  case False
  have c: "c \<in> set (inflight w)" "pool w (call_final c) = Some (FnFinal (WriteChunkFin p))"
    using assms(2) by (auto simp: chunking_def)
  have "undisturbed c w w'" using isolation[OF assms(1,3,4) c(1) False] .
  moreover have "RCtx (call_final c) \<in> owns w c" using owns_final[OF invD(3)[OF assms(1) c(1)]] .
  moreover have "RWc p \<in> owns w c" using owns_final_iff(4)[OF c(2)] by simp
  ultimately show ?thesis using assms(2) by (simp add: undisturbed_def chunking_def)
qed

lemma chunking_run:
  "run L es w w' \<Longrightarrow> inv w \<Longrightarrow> chunking c p v w \<Longrightarrow> no_completion c es \<Longrightarrow> chunking c p v w'"
proof (induction rule: run.induct)
  case (run_Cons e w w1 es w2)
  have "no_completion c [e]" "no_completion c es" using run_Cons.prems(3) by (auto simp: no_completion_def)
  then show ?case using run_Cons chunking_step exec_inv by blast
qed simp

lemma chunking_next:
  assumes "inv w" "chunking c p v w" "enabled L (Complete c (Final e)) w"
    and "exec L (Complete c (Final e)) w = Done w'" "c' \<in> set (inflight w')" "call_final c' = call_final c"
  shows "\<exists>bs err input. wc_total v \<noteq> 0 \<and> wc_input v = (bs, err) # input \<and> (bs \<noteq> [] \<or> err = None) \<and>
    call_fn c' = chunk_fn (next_chunk bs input v) bs \<and> chunking c' p (next_chunk bs input v) w'"
proof -
  let ?w = "w\<lparr>inflight := filter (\<lambda>d. d \<noteq> c) (inflight w)\<rparr>"
  have c: "c \<in> set (inflight w)" "pool w (call_final c) = Some (FnFinal (WriteChunkFin p))" "wchunks w p = Some v"
    using assms(2) by (auto simp: chunking_def)
  have fin: "fin_call_ok w c (WriteChunkFin p)"
    using invD(3)[OF assms(1) c(1)] c(2) by (auto simp: call_ok_def)
  have inv': "inv w'" using exec_inv[OF assms(1,3,4)] .
  obtain err where run: "WriteChunk_onChunkFinish p err ?w = Done w'"
    using assms(4) c(2)
    by (auto simp: complete_def on_finish_def go_final_callback_def with_context_found split: if_splits)
  have ptr: "ptrs_ok ?w" using invD(2)[OF assms(1)] by (simp add: ptrs_ok_def)
  have "wchunks ?w p = Some v" using c(3) by simp
  from this ptr run show ?thesis
  proof (cases rule: chunk_finish_cases)
    case ends
    have "call_final c \<in> set (fin_ctx (wchunks w) (WriteChunkFin p))"
      using fin_callD(2)[OF fin] c(3) by auto
    then have "pool w' (call_final c') = None"
      using final_effectD(6)[OF ends] assms(6) by simp
    then show ?thesis
      using owns_live[OF invD(3)[OF inv' assms(5)] owns_final[OF invD(3)[OF inv' assms(5)]]] by auto
  next
    case (continues bs rerr input xs)
    let ?c = "\<lparr>call_session = wc_session v, call_fn = chunk_fn (next_chunk bs input v) bs,
      call_result = wc_onChunk v, call_final = wc_onFinish v\<rparr>"
    have "c' = ?c"
    proof (rule ccontr)
      assume "c' \<noteq> ?c"
      then have c': "c' \<in> set (inflight w)" "c' \<noteq> c" using assms(5) continues(6) by auto
      then have "RCtx (call_final c) \<in> owns w c'"
        using owns_final[OF invD(3)[OF assms(1) c'(1)]] assms(6) by simp
      then show False
        using owns_final[OF invD(3)[OF assms(1) c(1)]] invD(5)[OF assms(1) c(1) c'(1)] c'(2) by auto
    qed
    moreover have "call_final c = wc_onFinish v" using fin_callD(2)[OF fin] c(3) by auto
    moreover have "wc_input v = (bs, rerr) # input"
      using continues(3,4) by (cases "wc_input v") auto
    ultimately show ?thesis
      using continues c(2) assms(5) by (auto simp: chunking_def)
  qed
qed

text \<open>What a successful completion does: it sends the next request of the sequence, or ends the write.\<close>

lemma chunk_finish_goes_on:
  assumes "wchunks w p = Some v" "chunk_calls v = f # fs" "fst (c_alloc w)" "WriteChunk_onChunkFinish p None w = Done w'"
  shows "\<exists>c' \<in> set (inflight w'). call_final c' = wc_onFinish v \<and> call_fn c' = f"
proof -
  obtain bs err input where n: "wc_total v \<noteq> 0" "wc_input v = (bs, err) # input" "bs = [] \<longrightarrow> err = None"
      "f = chunk_fn (next_chunk bs input v) bs"
    using assms(2) by (subst (asm) chunk_calls.simps) (auto split: if_splits list.splits)
  let ?w = "w\<lparr>wchunks := (wchunks w)(p \<mapsto> next_chunk bs input v)\<rparr>"
  show ?thesis
  proof (cases rule: NewKey_string[of "wc_key v" ?w])
    case (err xs)
    then show ?thesis
      using assms(3) by (auto simp: NewKey_def new_ckey_def c_alloc_def Let_def new_ptr_def split: list.splits if_splits)
  next
    case (key xs)
    then show ?thesis
      using assms(1,4) n
      by (auto simp: WriteChunk_onChunkFinish_def set_wchunk_def next_chunk_def Let_def c_key_request_def deref_key_def
          c_request_def Key_Free_def chunk_fn_def split: if_splits)
  qed
qed

lemma chunking_end:
  assumes "inv w" "chunking c p v w" "enabled L (Complete c (Final e)) w"
    and "exec L (Complete c (Final e)) w = Done w'" "final_error e = None"
  shows "(chunk_calls v = [] \<longrightarrow> (\<forall>c' \<in> set (inflight w'). call_final c' \<noteq> call_final c) \<and>
      (\<exists>b. chans w' (wc_chan v) = Some b \<and> ch_closed b)) \<and>
    (chunk_calls v \<noteq> [] \<and> fst (c_alloc w) \<longrightarrow>
      (\<exists>c' \<in> set (inflight w'). call_final c' = call_final c \<and> call_fn c' = hd (chunk_calls v)))"
proof -
  let ?w = "w\<lparr>inflight := filter (\<lambda>d. d \<noteq> c) (inflight w)\<rparr>"
  have c: "c \<in> set (inflight w)" "pool w (call_final c) = Some (FnFinal (WriteChunkFin p))" "wchunks ?w p = Some v"
    using assms(2) by (auto simp: chunking_def)
  have fin: "fin_call_ok w c (WriteChunkFin p)"
    using invD(3)[OF assms(1) c(1)] c(2) by (auto simp: call_ok_def)
  have ctx: "call_final c = wc_onFinish v" using fin_callD(2)[OF fin] c(3) by auto
  have inv': "inv w'" using exec_inv[OF assms(1,3,4)] .
  have run: "WriteChunk_onChunkFinish p None ?w = Done w'"
    using assms(4,5) c(2)
    by (auto simp: complete_def on_finish_def go_final_callback_def with_context_found final_error_def split: if_splits)
  have ptr: "ptrs_ok ?w" using invD(2)[OF assms(1)] by (simp add: ptrs_ok_def)
  have "(\<forall>c' \<in> set (inflight w'). call_final c' \<noteq> call_final c) \<and> (\<exists>b. chans w' (wc_chan v) = Some b \<and> ch_closed b)"
    if "chunk_calls v = []"
  proof -
    have E: "final_effect (WriteChunkFin p) ?w w'"
      using c(3) ptr run
    proof (cases rule: chunk_finish_cases)
      case (continues bs rerr input xs)
      then have "chunk_calls v \<noteq> []" by (subst chunk_calls.simps) (cases "wc_input v"; auto)
      then show ?thesis using that by simp
    qed
    have gone: "pool w' (call_final c) = None"
      using final_effectD(6)[OF E] c(3) ctx by simp
    have "call_final c' \<noteq> call_final c" if "c' \<in> set (inflight w')" for c'
      using owns_live[OF invD(3)[OF inv' that] owns_final[OF invD(3)[OF inv' that]]] gone by auto
    moreover have "\<exists>b. chans w' (wc_chan v) = Some b \<and> ch_closed b"
      using final_effectD(8)[OF E, of "wc_chan v"] c(3) by simp
    ultimately show ?thesis by blast
  qed
  moreover have "\<exists>c' \<in> set (inflight w'). call_final c' = call_final c \<and> call_fn c' = hd (chunk_calls v)"
    if "chunk_calls v \<noteq> []" "fst (c_alloc w)"
  proof -
    have "fst (c_alloc ?w)" using that(2) by (simp add: c_alloc_def split: list.splits)
    then show ?thesis
      using chunk_finish_goes_on[OF c(3) _ _ run, of "hd (chunk_calls v)" "tl (chunk_calls v)"] that(1) ctx by simp
  qed
  ultimately show ?thesis by blast
qed

lemma chain_calls:
  "chain L c w fns d w' \<Longrightarrow> inv w \<Longrightarrow> chunking c p v w \<Longrightarrow>
   \<exists>v'. chunk_calls v = fns @ chunk_calls v' \<and> chunking d p v' w' \<and> wc_chan v' = wc_chan v \<and> inv w'"
proof (induction arbitrary: v rule: chain.induct)
  case (chain_here es w w' c)
  then show ?case using chunking_run run_inv by fastforce
next
  case (chain_next es w w1 c e w2 c' fns d w3)
  have c1: "chunking c p v w1" "inv w1"
    using chunking_run[OF chain_next.hyps(1) chain_next.prems chain_next.hyps(2)]
      run_inv[OF chain_next.hyps(1) chain_next.prems(1)] by blast+
  obtain bs err input where n: "wc_total v \<noteq> 0" "wc_input v = (bs, err) # input" "bs \<noteq> [] \<or> err = None"
      "call_fn c' = chunk_fn (next_chunk bs input v) bs" "chunking c' p (next_chunk bs input v) w2"
    using chunking_next[OF c1(2,1) chain_next.hyps(3,5,6,7)] by blast
  have "inv w2" using exec_inv[OF c1(2) chain_next.hyps(3,5)] .
  then obtain v' where "chunk_calls (next_chunk bs input v) = fns @ chunk_calls v'" "chunking d p v' w3"
      "wc_chan v' = wc_chan (next_chunk bs input v)" "inv w3"
    using chain_next.IH n(5) by blast
  moreover have "chunk_calls v = chunk_fn (next_chunk bs input v) bs # chunk_calls (next_chunk bs input v)"
    using n by (subst chunk_calls.simps) simp
  ultimately show ?case using n(4) by (auto simp: next_chunk_def)
qed

lemma WriteChunk_starts:
  assumes "WriteChunk s key input off sz w = Done (ch, w0)" "inflight w0 \<noteq> inflight w" "room 3 w"
  obtains c p bs input' where "Read input = ((bs, None), input')" "inflight w0 = inflight w @ [c]"
    "call_fn c = C_write_prepare (KeyRemote (c_string key)) off sz bs"
    "chunking c p (first_chunk s key input' bs off sz w) w0" "ch = next_ptr w"
  using assms(1)
proof (cases rule: WriteChunk_cases)
  case (started b bs input' xs p)
  let ?c = "\<lparr>call_session = s_session s, call_fn = C_write_prepare (KeyRemote (c_string key)) off sz bs,
    call_result = counter w + 1, call_final = counter w + 1 + 1\<rparr>"
  have infl: "inflight w0 = inflight w @ [?c]" using started(6) by simp
  moreover have "chunking ?c p (first_chunk s key input' bs off sz w) w0"
    using started(6) ctx_fresh[OF assms(3)] by (simp add: chunking_def)
  ultimately show ?thesis using that[OF started(1) infl, of p] started(2) by simp
qed (use assms(2) in simp)

text \<open>All requests of a chunked write whose reader delivers the announced bytes.\<close>

lemma WriteChunk_plan:
  assumes "inv w" "room 3 w" "WriteChunk s key input off sz w = Done (ch, w0)" "inflight w0 \<noteq> inflight w"
    and "input = map (\<lambda>bs. (bs, None)) (b # bss) @ rest" "\<forall>bs \<in> set bss. bs \<noteq> []"
    and "sum_list (map length (b # bss)) < 18446744073709551616"
    and "sz = of_nat (sum_list (map length (b # bss)))" "chain L (last (inflight w0)) w0 fns d w'"
  obtains p v' where "C_write_prepare (KeyRemote (c_string key)) off sz b #
      plan (KeyRemote (c_string key)) (off + of_nat (length b)) bss = call_fn (last (inflight w0)) # fns @ chunk_calls v'"
    "chunking d p v' w'" "wc_chan v' = ch" "inv w'"
proof -
  obtain c p bs input' where s: "Read input = ((bs, None), input')" "inflight w0 = inflight w @ [c]"
      "call_fn c = C_write_prepare (KeyRemote (c_string key)) off sz bs"
      "chunking c p (first_chunk s key input' bs off sz w) w0" "ch = next_ptr w"
    by (rule WriteChunk_starts[OF assms(3,4,2)])
  have b: "bs = b" "input' = map (\<lambda>bs. (bs, None)) bss @ rest" using s(1) assms(5) by auto
  let ?v = "first_chunk s key input' bs off sz w"
  have "inv w0" using WriteChunk_ext[OF assms(1-3)] extends_inv by blast
  then obtain v' where v': "chunk_calls ?v = fns @ chunk_calls v'" "chunking d p v' w'" "wc_chan v' = wc_chan ?v" "inv w'"
    using chain_calls[OF assms(9)] s(2,4) by auto
  have "chunk_calls ?v = plan (KeyRemote (c_string key)) (off + of_nat (length b)) bss"
    using chunk_calls_plan[of bss ?v rest] assms(6-8) b by (simp add: first_chunk_def)
  then show ?thesis using that[of v' p] v' s(2,3,5) b by (simp add: first_chunk_def)
qed

text \<open>The same with what the next successful completion does.\<close>

lemma WriteChunk_follows:
  assumes "inv w" "room 3 w" "WriteChunk s key input off sz w = Done (ch, w0)" "inflight w0 \<noteq> inflight w"
    and "input = map (\<lambda>bs. (bs, None)) (b # bss) @ rest" "\<forall>bs \<in> set bss. bs \<noteq> []"
    and "sum_list (map length (b # bss)) < 18446744073709551616"
    and "sz = of_nat (sum_list (map length (b # bss)))" "chain L (last (inflight w0)) w0 fns d w'"
  shows "\<exists>more. C_write_prepare (KeyRemote (c_string key)) off sz b #
      plan (KeyRemote (c_string key)) (off + of_nat (length b)) bss = call_fn (last (inflight w0)) # fns @ more \<and>
    d \<in> set (inflight w') \<and> (may_proceed w' d \<longrightarrow> returns (exec L (Complete d (Final e)) w')) \<and>
    (\<forall>w''. final_error e = None \<longrightarrow> exec L (Complete d (Final e)) w' = Done w'' \<longrightarrow>
      (more = [] \<longrightarrow> (\<forall>c \<in> set (inflight w''). call_final c \<noteq> call_final d) \<and>
        (\<exists>x. chans w'' ch = Some x \<and> ch_closed x)) \<and>
      (more \<noteq> [] \<longrightarrow> fst (c_alloc w') \<longrightarrow>
        (\<exists>c \<in> set (inflight w''). call_final c = call_final d \<and> call_fn c = hd more)))"
proof -
  obtain p v' where v': "C_write_prepare (KeyRemote (c_string key)) off sz b #
      plan (KeyRemote (c_string key)) (off + of_nat (length b)) bss = call_fn (last (inflight w0)) # fns @ chunk_calls v'"
    "chunking d p v' w'" "wc_chan v' = ch" "inv w'"
    by (rule WriteChunk_plan[OF assms])
  have d: "d \<in> set (inflight w')" "pool w' (call_final d) = Some (FnFinal (WriteChunkFin p))"
    using v'(2) by (simp_all add: chunking_def)
  have ok: "call_ok w' d" using invD(3)[OF v'(4) d(1)] .
  have "fin_call_ok w' d (WriteChunkFin p)" using ok d(2) by (auto simp: call_ok_def)
  then have fin: "completion_ok (call_fn d) (Final e)"
    using fn_ok_not_backend fin_callD(1) by fastforce
  then have "may_proceed w' d \<longrightarrow> returns (exec L (Complete d (Final e)) w')"
    using complete_proceeds(2)[OF ok fin] by simp
  then show ?thesis using chunking_end[OF v'(4,2), of L e] v'(1,3) d(1) fin by fastforce
qed

text \<open>Exactly the last of several remaining pieces is committed.\<close>

lemma plan_commits:
  assumes "bss \<noteq> []"
  shows "plan k off bss =
    map (\<lambda>(o', d). C_write_plain k o' d) (butlast (layout off bss)) @
    [C_write_commit k (fst (last (layout off bss))) (off + of_nat (sum_list (map length bss))) (last bss)]"
  using assms
proof (induction bss arbitrary: off)
  case (Cons bs bss)
  have "layout (off + of_nat (length bs)) bss \<noteq> []" if "bss \<noteq> []" using that by (cases bss) auto
  then show ?case using Cons.IH[of "off + of_nat (length bs)"] by (auto simp: add.assoc)
qed simp

end
