(* ===== verification/Bulk.thy ===== *)
theory Bulk
  imports Chunks
begin

text \<open>
  Bulk writes (\<^verbatim>\<open>BulkWrite\<close> of \<^verbatim>\<open>session.go\<close> with \<^verbatim>\<open>session_bulk_write\<close> of \<^verbatim>\<open>session.cpp\<close>). What is sent:
  while no allocation fails, \<open>BulkWrite_eq\<close> gives the outcome for all arguments. What comes
  back: a result is looked up in a key array that the C++ side never sees, so its keys keep
  the identifier they were made with; \<open>bulk_writing\<close> is kept by all events, and \<open>bulk_reply\<close>
  says what is sent for a result.
\<close>

section \<open>Definitions\<close>

text \<open>What is sent for an attribute.\<close>

definition bulk_entry :: "ell_lib \<Rightarrow> DnetIOAttr \<Rightarrow> bulk_io_attr" where
  "bulk_entry L a =
     \<lparr>bio_start = IO_Start a, bio_num = IO_Num a, bio_user_flags = IO_UserFlags a, bio_flags = IO_Flags a,
      bio_offset = IO_Offset a, bio_size = IO_Size a,
      bio_id = (if IO_ID a = [] then None
        else Some (take (DNET_ID_SIZE L) (key_transform L (c_string (string_of_bytes (IO_ID a))))))\<rparr>"

text \<open>The identifier of an attribute is empty or ends with a NUL, as the C++ side takes for granted.\<close>

definition terminated :: "DnetIOAttr \<Rightarrow> bool" where
  "terminated a \<longleftrightarrow> IO_ID a = [] \<or> 0 \<in> set (IO_ID a)"

definition id_names :: "DnetIOAttr list \<Rightarrow> string list" where
  "id_names attrs = map (\<lambda>a. string_of_bytes (IO_ID a)) attrs"

text \<open>The world with the request: its key array, its channel, its two contexts.\<close>

definition bulk_started :: "ell_lib \<Rightarrow> Session \<Rightarrow> DnetIOAttr list \<Rightarrow> bytes list \<Rightarrow> world \<Rightarrow> world" where
  "bulk_started L s attrs data w =
     (let keys = next_ptr w; ch = Suc keys; c1 = counter w + 1; c2 = counter w + 1 + 1
      in w\<lparr>next_ptr := Suc ch, ckeyss := (ckeyss w)(keys \<mapsto> \<lparr>kk = sort (id_names attrs), kk_transformed = False\<rparr>),
           chans := (chans w)(ch \<mapsto> chan_make 10), counter := c2,
           pool := (pool w)(c1 \<mapsto> FnLookup (BulkWriteRes ch keys), c2 \<mapsto> FnFinal (BulkWriteFin ch keys c1 c2)),
           inflight := inflight w @ [\<lparr>call_session = s_session s,
             call_fn = C_bulk_write (map (bulk_entry L) attrs) data, call_result = c1, call_final = c2\<rparr>]\<rparr>)"

text \<open>The request \<open>c\<close> is a bulk write of the given names.\<close>

definition bulk_writing :: "ccall \<Rightarrow> ptr \<Rightarrow> ptr \<Rightarrow> string list \<Rightarrow> world \<Rightarrow> bool" where
  "bulk_writing c ch keys names w \<longleftrightarrow>
     c \<in> set (inflight w) \<and> pool w (call_result c) = Some (FnLookup (BulkWriteRes ch keys)) \<and>
     pool w (call_final c) = Some (FnFinal (BulkWriteFin ch keys (call_result c) (call_final c))) \<and>
     ckeyss w keys = Some \<lparr>kk = sort names, kk_transformed = False\<rparr>"

section \<open>What is sent\<close>

lemma insert_keys_all:
  "alloc_fails w = [] \<Longrightarrow> insert_keys ks keys w = (keys\<lparr>kk := kk keys @ ks\<rparr>, w)"
  by (induction ks arbitrary: keys) (auto simp: c_alloc_def ell_keys_insert_def)

lemma NewKeys_all:
  assumes "alloc_fails w = []"
  shows "NewKeys names w = (Inr (next_ptr w), w\<lparr>next_ptr := Suc (next_ptr w),
    ckeyss := (ckeyss w)(next_ptr w \<mapsto> \<lparr>kk = sort names, kk_transformed = False\<rparr>)\<rparr>)"
  using assms by (simp add: NewKeys_def c_alloc_def new_ptr_def Let_def insert_keys_all ell_keys_empty_def)

lemma bulk_insert_empty:
  "alloc_fails w = [] \<Longrightarrow> [] \<in> snd ` set xs \<Longrightarrow> bulk_insert xs bulk w = Panic IndexOutOfRange"
  by (induction xs bulk w rule: bulk_insert.induct) (auto simp: c_alloc_def ToIOAttr_def Let_def)

lemma bulk_insert_all:
  "alloc_fails w = [] \<Longrightarrow> [] \<notin> snd ` set xs \<Longrightarrow>
   bulk_insert xs bulk w = Done ((None, bulk @ map (\<lambda>(a, v). (projr (ToIOAttr True a), v)) xs), w)"
  by (induction xs bulk w rule: bulk_insert.induct) (auto simp: c_alloc_def ToIOAttr_def Let_def)

lemma flags_kept: "(ucast (ucast f :: u64) :: u32) = f"
  by (rule bit_word_eqI) (auto simp: bit_simps)

lemma bulk_io_entry:
  "bulk_io L (projr (ToIOAttr True a)) = (if terminated a then Done (bulk_entry L a) else Panic CUndefined)"
  by (auto simp: bulk_io_def bulk_entry_def terminated_def ToIOAttr_def Let_def cpp_string_def ell_io_attr_new_def
      flags_kept)

lemma bulk_ios:
  "mapM (bulk_io L) (map (\<lambda>a. projr (ToIOAttr True a)) attrs) =
   (if \<forall>a \<in> set attrs. terminated a then Done (map (bulk_entry L) attrs) else Panic CUndefined)"
  by (induction attrs) (auto simp: bulk_io_entry)

lemma zip_parts:
  "length xs = length ys \<Longrightarrow> snd ` set (zip xs ys) = set ys \<and>
    map (fst \<circ> (\<lambda>(a, v). (f a, v))) (zip xs ys) = map f xs \<and> map (snd \<circ> (\<lambda>(a, v). (f a, v))) (zip xs ys) = ys"
  by (induction xs ys rule: list_induct2) auto

text \<open>The outcome of \<^verbatim>\<open>BulkWrite\<close> while no allocation fails.\<close>

lemma BulkWrite_eq:
  assumes "alloc_fails w = []"
  shows "BulkWrite L s attrs data w =
    (if length attrs \<noteq> length data \<or> attrs = [] then Panic CUndefined
     else if [] \<in> set data then Panic IndexOutOfRange
     else if sessions w (s_session s) = None \<or> \<not> (\<forall>a \<in> set attrs. terminated a) then Panic CUndefined
     else Done (Suc (next_ptr w), bulk_started L s attrs data w))"
proof -
  have lookuper: "makeLookuperChan None defaultVOLUME v =
      Done (next_ptr v, v\<lparr>next_ptr := Suc (next_ptr v), chans := (chans v)(next_ptr v \<mapsto> chan_make 10)\<rparr>)" for v
    by (simp add: makeLookuperChan_def op_defs)
  show ?thesis
  proof (cases "length attrs \<noteq> length data \<or> attrs = []")
    case True
    have none: "BulkWrite L s [] [] w = Panic CUndefined"
      using assms
      by (cases "sessions w (s_session s) = None")
        (simp_all add: BulkWrite_def c_alloc_def defer_bulk_free_def lookuper NewKeys_all session_bulk_write_def
          c_request_def NextContext_def Store_def Let_def)
    have "BulkWrite L s attrs data w = Panic CUndefined" if "length attrs \<noteq> length data"
      using that assms
      by (simp add: BulkWrite_def c_alloc_def defer_bulk_free_def makeLookuperChan_def op_defs send_def
          close_chan_def on_chan_def chan_send_def chan_close_def)
    then show ?thesis using True none by (cases "length attrs = length data") auto
  next
    case False
    then have len: "length attrs = length data" by simp
    note zip = zip_parts[OF len, of "\<lambda>a. projr (ToIOAttr True a)"]
    show ?thesis
    proof (cases "[] \<in> set data")
      case True
      then show ?thesis using False assms zip bulk_insert_empty[OF assms, of "zip attrs data" "[]"]
        by (simp add: BulkWrite_def c_alloc_def)
    next
      case ok: False
      then have "bulk_insert (zip attrs data) [] w =
          Done ((None, map (\<lambda>(a, v). (projr (ToIOAttr True a), v)) (zip attrs data)), w)"
        using bulk_insert_all[OF assms, of "zip attrs data" "[]"] zip by simp
      then show ?thesis
        using False ok assms zip
        by (auto simp: BulkWrite_def c_alloc_def defer_bulk_free_def NewKeys_all lookuper session_bulk_write_def
            bulk_ios c_request_def NextContext_def Store_def Let_def bulk_started_def id_names_def comp_def)
    qed
  qed
qed

section \<open>What comes back\<close>

lemma bulk_writing_started:
  assumes "room 3 w"
  shows "bulk_writing (last (inflight (bulk_started L s attrs data w))) (Suc (next_ptr w)) (next_ptr w)
    (id_names attrs) (bulk_started L s attrs data w)"
  using ctx_fresh[OF assms] by (simp add: bulk_writing_def bulk_started_def Let_def)

lemma bulk_writing_step:
  assumes "inv w" "bulk_writing c ch keys names w" "enabled L e w" "exec L e w = Done w'" "no_completion c [e]"
  shows "bulk_writing c ch keys names w'"
proof (cases "concerns c e")
  case True
  then obtain r where "e = Reply c r" using assms(5) by (cases e) (auto simp: no_completion_def)
  then have "similar w w'" using deliver_similar[OF assms(1)] assms(4) by simp
  then show ?thesis using similarD(1,4,5)[of w w'] assms(2) by (simp add: bulk_writing_def)
next
  case False
  have c: "c \<in> set (inflight w)" "pool w (call_final c) = Some (FnFinal (BulkWriteFin ch keys (call_result c) (call_final c)))"
    using assms(2) by (auto simp: bulk_writing_def)
  have ok: "call_ok w c" using invD(3)[OF assms(1) c(1)] .
  have "undisturbed c w w'" using isolation[OF assms(1,3,4) c(1) False] .
  moreover have "RCtx (call_final c) \<in> owns w c" "RCtx (call_result c) \<in> owns w c"
    using owns_final[OF ok] owns_result[OF ok] by blast+
  moreover have "RKeys keys \<in> owns w c" using owns_final_iff(3)[OF c(2)] by simp
  ultimately show ?thesis using assms(2) by (simp add: undisturbed_def bulk_writing_def)
qed

lemma bulk_writing_run:
  "run L es w w' \<Longrightarrow> inv w \<Longrightarrow> bulk_writing c ch keys names w \<Longrightarrow> no_completion c es \<Longrightarrow>
   bulk_writing c ch keys names w'"
proof (induction rule: run.induct)
  case (run_Cons e w w1 es w2)
  have "no_completion c [e]" "no_completion c es" using run_Cons.prems(3) by (auto simp: no_completion_def)
  then show ?case using run_Cons bulk_writing_step exec_inv by blast
qed simp

text \<open>In an array that has not been transformed all keys have the same identifier.\<close>

lemma Find_untransformed:
  assumes "\<not> kk_transformed keys" "kk keys \<noteq> []" "x \<noteq> []"
  shows "Keys_Find L keys x =
    Done (if take (DNET_ID_SIZE L) (key_initial_id L) < take (DNET_ID_SIZE L) x \<or> hd (kk keys) = []
          then Inl (EText ''could not find key for given ID'') else Inr (c_string (hd (kk keys))))"
proof -
  have ids: "idents L keys = replicate (length (kk keys)) (take (DNET_ID_SIZE L) (key_initial_id L))"
    using idents_untransformed[OF assms(1)] .
  have sorted: "sorted (idents L keys)" unfolding ids by simp
  show ?thesis
  proof (cases "take (DNET_ID_SIZE L) (key_initial_id L) < take (DNET_ID_SIZE L) x")
    case True
    then show ?thesis using Keys_Find_end[OF sorted assms(3)] ids by simp
  next
    case False
    then have "lower_bound (\<lambda>k. memcmp_less (DNET_ID_SIZE L) (key_ident L (kk_transformed keys) k)
        (take (DNET_ID_SIZE L) x)) (kk keys) = 0"
      using lb.search_hit[OF partitioned_idents[OF sorted], of 0 "take (DNET_ID_SIZE L) x"] assms(2)
        memcmp_ident[of 0 keys L "take (DNET_ID_SIZE L) x"] ids by simp
    then show ?thesis
      using False assms(2,3) by (simp add: Keys_Find_def ell_keys_find_def keys_find_def Let_def hd_conv_nth)
  qed
qed

text \<open>What a successful result of a bulk write sends: its identifier decides only whether it is dropped.\<close>

lemma bulk_reply:
  assumes "bulk_writing c ch keys names w" "names \<noteq> []" "reply_wf L (LookupR e r)" "ei_code e = 0"
  shows "\<exists>x. lookup_elem L (LookupR e r) = LookupE x \<and> exec L (Reply c (LookupR e r)) w =
    (if take (DNET_ID_SIZE L) (key_initial_id L) < take (DNET_ID_SIZE L) (cc_id (glr_cmd r)) \<or> [] \<in> set names
     then Done w else send ch (LookupE (x\<lparr>lr_key := c_string (hd (sort names))\<rparr>)) w)"
proof -
  let ?keys = "\<lparr>kk = sort names, kk_transformed = False\<rparr>"
  let ?id = "ID (Cmd_ID (NewDnetCmd L (glr_cmd r)))"
  have id: "?id \<noteq> []" "take (DNET_ID_SIZE L) ?id = take (DNET_ID_SIZE L) (cc_id (glr_cmd r))"
    using assms(3) ID_nonempty[of L "glr_cmd r"] by (simp_all add: NewDnetCmd_def GoBytes_array_def)
  have first: "hd (sort names) = [] \<longleftrightarrow> [] \<in> set names"
  proof
    show "[] \<in> set names" if "hd (sort names) = []" using that assms(2) by (metis hd_in_set set_sort set_empty)
    show "hd (sort names) = []" if "[] \<in> set names"
    proof (cases "sort names")
      case (Cons k ks)
      moreover have "[] \<in> set (sort names)" "sorted (sort names)" using that by simp_all
      ultimately have "k \<le> []" by auto
      then show ?thesis using Cons by simp
    qed (use assms(2) in \<open>metis set_empty set_sort\<close>)
  qed
  have "sort names \<noteq> []" using assms(2) by (metis set_empty set_sort)
  then have "find_in L keys ?id w =
      Done (if take (DNET_ID_SIZE L) (key_initial_id L) < take (DNET_ID_SIZE L) (cc_id (glr_cmd r)) \<or> [] \<in> set names
        then Inl (EText ''could not find key for given ID'') else Inr (c_string (hd (sort names))))"
    using Find_untransformed[of ?keys ?id L] id assms(1) first by (simp add: find_in_def bulk_writing_def)
  moreover have "NewDnetAddr (glr_addr r) = Done (addr_of (glr_addr r))"
      "NewDnetAddr (glr_storage_addr r) = Done (addr_of (glr_storage_addr r))"
    using assms(3) NewDnetAddr_ok[of L] by (simp_all add: addr_of_def)
  ultimately show ?thesis
    using assms(1,4)
    by (simp add: bulk_writing_def on_lookup_def go_lookup_callback_def with_context_found BulkWrite_onResult_def)
qed

end
