(* ===== verification/Scenario.thy ===== *)
theory Scenario
  imports Bulk
begin

text \<open>
  A small concrete library and a concrete run of the binding: a session is made, a key is
  made, and a read, a lookup and a chunked write are started. The properties are applied to
  the states of this run to show that their hypotheses can hold.
\<close>

section \<open>Definitions\<close>

definition lib0 :: ell_lib where
  "lib0 = \<lparr>DNET_ID_SIZE = 2, DNET_ADDR_SIZE = 4,
     key_transform = (\<lambda>s. [of_nat (length s), 0]), key_initial_id = [0, 0],
     dnet_addr_string = (\<lambda>_. ''a''), dnet_addr_host_string = (\<lambda>_. ''h''),
     dnet_create_addr_str = (\<lambda>_. (0, \<lparr>ca_addr = [1, 2, 3, 4], ca_len = 4, ca_family = 2\<rparr>)),
     dnet_lookup_addr = (\<lambda>_ _. (0, \<lparr>ca_addr = [1, 2, 3, 4], ca_len = 4, ca_family = 2\<rparr>, 7))\<rparr>"

definition sess0 :: Session where
  "sess0 = \<lparr>s_groups = [], s_session = 0\<rparr>"

definition done_world :: "world outcome \<Rightarrow> world \<Rightarrow> world" where
  "done_world r w = (case r of Done w' \<Rightarrow> w' | _ \<Rightarrow> w)"

text \<open>A session at 0 and a key at 1.\<close>

definition ready0 :: world where
  "ready0 = snd (NewKey [ArgString ''key''] (snd (NewSession (\<lambda>_. []) 0 (init_world []))))"

text \<open>Then a read with contexts 1 and 2 and the channel 2.\<close>

definition reading0 :: world where
  "reading0 = done_world (run_api lib0 (ReadKeyA sess0 1 0 0) ready0) ready0"

definition read0 :: ccall where
  "read0 = \<lparr>call_session = 0, call_fn = C_read_data (KeyRemote ''key'') 0 0, call_result = 1, call_final = 2\<rparr>"

text \<open>Then a lookup with contexts 3 and 4 and the channel 3.\<close>

definition both0 :: world where
  "both0 = done_world (run_api lib0 (LookupA sess0 1) reading0) reading0"

definition lookup0 :: ccall where
  "lookup0 = \<lparr>call_session = 0, call_fn = C_lookup (KeyRemote ''key''), call_result = 3, call_final = 4\<rparr>"

definition caddr0 :: c_dnet_addr where
  "caddr0 = \<lparr>ca_addr = [1, 2, 3, 4], ca_len = 4, ca_family = 2\<rparr>"

definition cmd0 :: c_dnet_cmd where
  "cmd0 = \<lparr>cc_id = [3, 0], cc_group = 1, cc_status = 0, cc_cmd = 0, cc_backend = 0, cc_trace = 0,
     cc_flags = 0, cc_trans = 0, cc_size = 0\<rparr>"

definition io0 :: c_dnet_io_attr where
  "io0 = \<lparr>cio_parent = [0, 0], cio_id = [3, 0], cio_start = 0, cio_num = 0, cio_tsec = 5, cio_tnsec = 9,
     cio_user_flags = 0, cio_total_size = 3, cio_flags = 0, cio_offset = 0, cio_size = 3\<rparr>"

definition grr0 :: read_result_entry where
  "grr0 = \<lparr>re_command = cmd0, re_address = caddr0,
     re_file = Some \<lparr>dp_data = At [7, 8, 9], dp_size = 3\<rparr>, re_io_attribute = Some io0\<rparr>"

definition ok0 :: error_info where
  "ok0 = \<lparr>ei_code = 0, ei_message = []\<rparr>"

text \<open>The read gets one result, then ends.\<close>

definition answered0 :: world where
  "answered0 = reading0\<lparr>chans := [2 \<mapsto> (chan_make 10)\<lparr>ch_buf := [read_elem lib0 (ReadR grr0)]\<rparr>]\<rparr>"

definition ended0 :: world where
  "ended0 = reading0\<lparr>inflight := [], pool := Map.empty,
     chans := [2 \<mapsto> (chan_make 10)\<lparr>ch_buf := [read_elem lib0 (ReadR grr0)], ch_closed := True\<rparr>]\<rparr>"

definition enoent0 :: error_info where
  "enoent0 = \<lparr>ei_code = - 2, ei_message = ''not found''\<rparr>"

text \<open>A plain write of one byte, and a chunked write of three bytes in two pieces.\<close>

definition writing0 :: world where
  "writing0 = done_world (run_api lib0 (WriteKeyA sess0 1 [([5], None)] 0) ready0) ready0"

definition write0 :: ccall where
  "write0 = \<lparr>call_session = 0, call_fn = C_write_data (KeyRemote ''key'') 0 [5], call_result = 1, call_final = 2\<rparr>"

definition pieces0 :: "bytes list" where
  "pieces0 = [[1, 2], [3]]"

definition chunks0 :: world where
  "chunks0 = done_world (run_api lib0 (WriteChunkA sess0 ''key'' [([1, 2], None), ([3], None)] 100 3) ready0) ready0"

definition prepare0 :: ccall where
  "prepare0 = \<lparr>call_session = 0, call_fn = C_write_prepare (KeyRemote ''key'') 100 3 [1, 2],
     call_result = 1, call_final = 2\<rparr>"

definition commit0 :: ccall where
  "commit0 = \<lparr>call_session = 0, call_fn = C_write_commit (KeyRemote ''key'') 102 103 [3],
     call_result = 1, call_final = 2\<rparr>"

text \<open>A chunked write of two bytes in one piece.\<close>

definition single0 :: world where
  "single0 = done_world (run_api lib0 (WriteChunkA sess0 ''key'' [([1, 2], None)] 100 2) ready0) ready0"

text \<open>Identifiers in another order than names.\<close>

definition lib1 :: ell_lib where
  "lib1 = lib0\<lparr>key_transform := (\<lambda>s. if s = ''a'' then [2, 0] else [1, 0])\<rparr>"

text \<open>A bulk remove of one key, with its key array at 3.\<close>

definition removing0 :: world where
  "removing0 = done_world (run_api lib0 (BulkRemoveA sess0 [''key'']) ready0) ready0"

definition bremove0 :: ccall where
  "bremove0 = \<lparr>call_session = 0, call_fn = C_bulk_remove [''key''], call_result = 1, call_final = 2\<rparr>"

definition glr0 :: go_lookup_result where
  "glr0 = \<lparr>glr_cmd = cmd0, glr_addr = caddr0, glr_info = \<lparr>cfi_checksum = [], cfi_offset = 0, cfi_size = 1,
     cfi_tsec = 5, cfi_tnsec = 9\<rparr>, glr_storage_addr = caddr0, glr_path = ''p''\<rparr>"

text \<open>A bulk write of one byte each under the names \<^verbatim>\<open>b\<close> and \<^verbatim>\<open>a\<close>, with its key array at 2.\<close>

definition attr0 :: "bytes \<Rightarrow> DnetIOAttr" where
  "attr0 i = \<lparr>IO_Parent = [], IO_ID = i, IO_Start = 0, IO_Num = 0, IO_Timestamp = go_time_zero, IO_UserFlags = 0,
     IO_TotalSize = 0, IO_Flags = 0, IO_Offset = 0, IO_Size = 1\<rparr>"

definition attrs0 :: "DnetIOAttr list" where
  "attrs0 = [attr0 [98, 0], attr0 [97, 0]]"

definition bulk0 :: world where
  "bulk0 = bulk_started lib0 sess0 attrs0 [[1], [2]] ready0"

section \<open>Lemmas\<close>

lemmas demo_defs = lib0_def sess0_def done_world_def ready0_def reading0_def both0_def read0_def lookup0_def
  init_world_def NewSession_def NewKey_def new_ckey_def c_alloc_def new_ptr_def make_chan_def NextContext_def
  Store_def c_key_request_def deref_key_def c_request_def defaultVOLUME_def Let_def

lemma ready0_eq:
  "ready0 = (init_world [])\<lparr>next_ptr := 2, sessions := [0 \<mapsto> []], ckeys := [1 \<mapsto> KeyRemote ''key'']\<rparr>"
  by (simp add: ready0_def NewSession_def NewKey_def new_ckey_def c_alloc_def new_ptr_def init_world_def
      c_string_def numeral_2_eq_2)

lemma reading0_eq:
  "reading0 = ready0\<lparr>next_ptr := 3, chans := [2 \<mapsto> chan_make 10], counter := 2,
     pool := [1 \<mapsto> FnRead (ReadKeyRes 2), 2 \<mapsto> FnFinal (ReadKeyFin 2 1 2)], inflight := [read0]\<rparr>"
  by (simp add: reading0_def ReadKey_def op_defs done_world_def ready0_eq init_world_def sess0_def read0_def
      numeral_3_eq_3 numeral_2_eq_2)

lemma both0_eq:
  "both0 = reading0\<lparr>next_ptr := 4, chans := [2 \<mapsto> chan_make 10, 3 \<mapsto> chan_make 10], counter := 4,
     pool := [1 \<mapsto> FnRead (ReadKeyRes 2), 2 \<mapsto> FnFinal (ReadKeyFin 2 1 2),
       3 \<mapsto> FnLookup (LookupRes 3), 4 \<mapsto> FnFinal (LookupFin 3 3 4)], inflight := [read0, lookup0]\<rparr>"
  by (simp add: both0_def Lookup_def op_defs done_world_def reading0_eq ready0_eq init_world_def sess0_def
      lookup0_def)

lemma ready0_reachable: "reachable lib0 ready0"
proof -
  let ?w = "snd (NewSession (\<lambda>_. []) 0 (init_world []))"
  have "reachable lib0 ?w"
    by (rule reachable.step[OF reachable.start, of _ "Api (NewSessionA (\<lambda>_. []) 0)"])
      (simp_all add: room_def init_world_def)
  then show ?thesis unfolding ready0_def
    by (rule reachable.step[of _ _ "Api (NewKeyA [ArgString ''key''])"])
      (simp_all add: room_def init_world_def NewSession_def new_ptr_def)
qed

lemma reading0_reachable: "reachable lib0 reading0"
proof -
  have "exec lib0 (Api (ReadKeyA sess0 1 0 0)) ready0 = Done reading0"
    unfolding reading0_def
    by (simp add: ReadKey_def op_defs done_world_def ready0_eq init_world_def sess0_def)
  then show ?thesis
    using reachable.step[OF ready0_reachable, of "Api (ReadKeyA sess0 1 0 0)"]
    by (simp add: room_def ready0_eq init_world_def)
qed

lemma both0_reachable: "reachable lib0 both0"
proof -
  have "exec lib0 (Api (LookupA sess0 1)) reading0 = Done both0"
    unfolding both0_def
    by (simp add: Lookup_def op_defs done_world_def reading0_eq ready0_eq init_world_def sess0_def)
  then show ?thesis
    using reachable.step[OF reading0_reachable, of "Api (LookupA sess0 1)"]
    by (simp add: room_def reading0_eq ready0_eq init_world_def)
qed

lemma grr0_wf: "reply_wf lib0 (ReadR grr0)"
  by (simp add: grr0_def cmd_wf_def cmd0_def lib0_def c_addr_ok_def caddr0_def)

lemma reading0_start: "ReadKey sess0 1 0 0 ready0 = Done (2, reading0)"
  by (simp add: ReadKey_def op_defs reading0_eq ready0_eq init_world_def sess0_def read0_def
      numeral_3_eq_3 numeral_2_eq_2)

lemma answered0_run: "deliver lib0 (ReadR grr0) 1 reading0 = Done answered0"
  using deliver_read[of reading0 1 2 lib0 grr0] grr0_wf
  by (simp add: reading0_eq answered0_def send_def on_chan_def chan_send_def del: deliver.simps)

lemma ended0_run: "complete read0 (Final ok0) answered0 = Done ended0"
  by (simp add: answered0_def ended0_def reading0_eq complete_def on_finish_def ok0_def read0_def
      go_final_callback_def with_context_found ReadKey_onFinish_def close_chan_def on_chan_def
      chan_close_def delete_ctx_def Delete_def fun_eq_iff)

lemma reading0_run:
  "run lib0 ([Reply read0 (ReadR grr0)] @ Complete read0 (Final ok0) # []) reading0 ended0"
  using grr0_wf answered0_run ended0_run
  by (auto intro!: run.intros simp: reading0_eq read0_def answered0_def
      simp del: deliver.simps reply_sized.simps reply_complete.simps read_elem.simps)

lemma both0_start: "Lookup sess0 1 reading0 = Done (3, both0)"
  by (simp add: Lookup_def op_defs both0_eq reading0_eq ready0_eq init_world_def sess0_def lookup0_def)

lemma writing0_eq:
  "writing0 = ready0\<lparr>next_ptr := 3, chans := [2 \<mapsto> chan_make 10], counter := 3,
     pool := [1 \<mapsto> NamedLookup (WriteKeyLookup 2), 2 \<mapsto> FnFinal (WriteFin (Some (WriteKeyFinish 2)) 1 2 3),
       3 \<mapsto> Chunk [5]], inflight := [write0]\<rparr>"
  by (simp add: writing0_def WriteKey_def write_go_def op_defs done_world_def ready0_eq init_world_def sess0_def
      write0_def numeral_3_eq_3 numeral_2_eq_2)

lemma writing0_reachable: "reachable lib0 writing0"
proof -
  have "exec lib0 (Api (WriteKeyA sess0 1 [([5], None)] 0)) ready0 = Done writing0"
    unfolding writing0_def
    by (simp add: WriteKey_def write_go_def op_defs done_world_def ready0_eq init_world_def sess0_def)
  then show ?thesis
    using reachable.step[OF ready0_reachable, of "Api (WriteKeyA sess0 1 [([5], None)] 0)"]
    by (simp add: room_def ready0_eq init_world_def)
qed

lemmas chunk_defs = WriteChunk_def op_defs NewKey_def new_ckey_def c_alloc_def set_wchunk_def defer_Free_def
  Key_Free_def c_string_def

lemma chunks0_eq:
  "chunks0 = ready0\<lparr>next_ptr := 5, chans := [2 \<mapsto> chan_make 10], counter := 3,
     ckeys := [1 \<mapsto> KeyRemote ''key''], wchunks := [4 \<mapsto> \<lparr>wc_session = 0, wc_key = ''key'', wc_input = [([3], None)],
       wc_total = 1, wc_offset = 102, wc_n64 = 2, wc_chan = 2, wc_onChunk = 1, wc_onFinish = 2, wc_chunkctx = 3\<rparr>],
     pool := [1 \<mapsto> FnLookup (WriteChunkRes 4), 2 \<mapsto> FnFinal (WriteChunkFin 4), 3 \<mapsto> ChunkBuf 4],
     inflight := [prepare0]\<rparr>"
  by (simp add: chunks0_def chunk_defs done_world_def ready0_eq init_world_def sess0_def
      prepare0_def numeral_eq_Suc fun_eq_iff)

lemma chunks0_start: "WriteChunk sess0 ''key'' [([1, 2], None), ([3], None)] 100 3 ready0 = Done (2, chunks0)"
  by (simp add: chunks0_def chunk_defs done_world_def ready0_eq init_world_def sess0_def numeral_eq_Suc)

text \<open>Its two requests succeed, one after the other.\<close>

lemma chunks0_commit:
  "\<exists>w2. complete prepare0 (Final ok0) chunks0 = Done w2 \<and> inflight w2 = [commit0] \<and> fst (c_alloc w2) \<and>
    (\<exists>w4. complete commit0 (Final ok0) w2 = Done w4 \<and> inflight w4 = [])"
  by (simp add: chunks0_eq complete_def on_finish_def ok0_def prepare0_def commit0_def go_final_callback_def
      with_context_found WriteChunk_onChunkFinish_def chunk_defs ready0_eq init_world_def
      wc_finish_def close_chan_def on_chan_def chan_close_def chan_make_def delete_ctx_def Delete_def)

lemma chunks0_chain:
  "\<exists>w2 w4. chain lib0 prepare0 chunks0 [call_fn commit0] commit0 w2 \<and> fst (c_alloc w2) \<and>
    exec lib0 (Complete commit0 (Final ok0)) w2 = Done w4 \<and> inflight w4 = []"
proof -
  obtain w2 w4 where w2: "complete prepare0 (Final ok0) chunks0 = Done w2" "inflight w2 = [commit0]" "fst (c_alloc w2)"
      "complete commit0 (Final ok0) w2 = Done w4" "inflight w4 = []"
    using chunks0_commit by blast
  have "chain lib0 commit0 w2 [] commit0 w2"
    by (rule chain_here[OF run_Nil]) (simp add: no_completion_def)
  then have "chain lib0 prepare0 chunks0 [call_fn commit0] commit0 w2"
    using w2 by (intro chain_next[where es = "[]" and e = ok0, OF run_Nil])
      (auto simp: no_completion_def chunks0_eq prepare0_def commit0_def final_error_def ok0_def)
  then show ?thesis using w2 by auto
qed

lemma single0_start: "WriteChunk sess0 ''key'' [([1, 2], None)] 100 2 ready0 = Done (2, single0)"
  by (simp add: single0_def chunk_defs done_world_def ready0_eq init_world_def sess0_def numeral_eq_Suc)

lemma single0_inflight: "inflight single0 = [prepare0\<lparr>call_fn := C_write_prepare (KeyRemote ''key'') 100 2 [1, 2]\<rparr>]"
  by (simp add: single0_def chunk_defs done_world_def ready0_eq init_world_def sess0_def prepare0_def numeral_eq_Suc)

lemma bulk0_start: "BulkWrite lib0 sess0 attrs0 [[1], [2]] ready0 = Done (3, bulk0)"
  by (simp add: BulkWrite_eq ready0_eq init_world_def sess0_def attrs0_def attr0_def terminated_def bulk0_def)

lemma names0: "sort (id_names attrs0) = [[CHR ''a'', CHR 0x00], [CHR ''b'', CHR 0x00]]"
  by (simp add: id_names_def attrs0_def attr0_def string_of_bytes_def char_of_eq_iff less_char_def)

lemmas bulk_defs = BulkRemove_def op_defs NewKeys_def c_alloc_def ell_keys_insert_def ell_keys_empty_def
  transform_keys_def sess_do_def names_of_def

lemma removing0_eq:
  "removing0 = ready0\<lparr>next_ptr := 4, chans := [2 \<mapsto> chan_make 10], counter := 2,
     ckeyss := [3 \<mapsto> \<lparr>kk = [''key''], kk_transformed = True\<rparr>], sessions := [0 \<mapsto> [Set_filter_all_with_ack]],
     pool := [1 \<mapsto> FnRemove (BulkRemoveRes 2 3), 2 \<mapsto> FnFinal (BulkRemoveFin 2 1 2)], inflight := [bremove0]\<rparr>"
  by (simp add: removing0_def bulk_defs done_world_def ready0_eq init_world_def sess0_def bremove0_def
      numeral_eq_Suc fun_eq_iff)

lemma removing0_reachable: "reachable lib0 removing0"
proof -
  have "exec lib0 (Api (BulkRemoveA sess0 [''key''])) ready0 = Done removing0"
    unfolding removing0_def
    by (simp add: bulk_defs done_world_def ready0_eq init_world_def sess0_def)
  then show ?thesis
    using reachable.step[OF ready0_reachable, of "Api (BulkRemoveA sess0 [''key''])"]
    by (simp add: room_def ready0_eq init_world_def)
qed

end
