(* ===== verification/Ring.thy ===== *)
theory Ring
  imports Stat
begin

text \<open>
  The shares that \<^verbatim>\<open>StatGroup.Finalize\<close> computes, against their specification. The values of
  a group's identifiers cut the ring of 64-bit numbers into arcs: a point belongs to the
  greatest value that is not above it, and the points below all values to the greatest of all.
  A backend's share is the number of points of its arcs, the topmost number left out.
\<close>

section \<open>Specification\<close>

definition vals :: "StatBackend \<Rightarrow> u64 set" where
  "vals b = {v. \<exists>i \<in> set (SB_ID b). id_val (RawID i) = Done v}"

definition group_vals :: "(AddressBackend \<times> StatBackend) list \<Rightarrow> u64 set" where
  "group_vals xs = (\<Union>(ab, b) \<in> set xs. vals b)"

definition predecessor :: "u64 set \<Rightarrow> u64 \<Rightarrow> u64" where
  "predecessor V x = (if {v \<in> V. v \<le> x} = {} then Max V else Max {v \<in> V. v \<le> x})"

text \<open>The owner of a value: the first backend in the order of iteration that has it.\<close>

definition value_owner :: "(AddressBackend \<times> StatBackend) list \<Rightarrow> u64 \<Rightarrow> AddressBackend option" where
  "value_owner xs v = map_option fst (find (\<lambda>(ab, b). v \<in> vals b) xs)"

definition share :: "(AddressBackend \<times> StatBackend) list \<Rightarrow> AddressBackend \<Rightarrow> u64 set" where
  "share xs ab = {x. x \<noteq> - 1 \<and> group_vals xs \<noteq> {} \<and> value_owner xs (predecessor (group_vals xs) x) = Some ab}"

definition ids_long :: "(AddressBackend \<times> StatBackend) list \<Rightarrow> bool" where
  "ids_long xs \<longleftrightarrow> (\<forall>(ab, b) \<in> set xs. \<forall>i \<in> set (SB_ID b). 8 \<le> length (RawID i))"

section \<open>Collecting the identifiers\<close>

lemma id_val_Done: "8 \<le> length i \<Longrightarrow> \<exists>v. id_val i = Done v"
  by (simp add: id_val_def)

lemma add_ids_spec:
  assumes "\<forall>i \<in> set is. 8 \<le> length (RawID i)" "distinct ids" "dom m = set ids"
  shows "\<exists>m' ids'. add_ids ab is (m, ids) = Done (m', ids') \<and> distinct ids' \<and> dom m' = set ids' \<and>
    m' = (\<lambda>v. if \<exists>i \<in> set is. id_val (RawID i) = Done v then Some ab else None) ++ m"
  using assms
proof (induction "is" arbitrary: m ids)
  case (Cons i "is")
  obtain v where v: "id_val (RawID i) = Done v" using id_val_Done Cons.prems(1) by auto
  define r where "r = (if m v = None then (m(v \<mapsto> ab), ids @ [v]) else (m, ids))"
  have r: "distinct (snd r)" "dom (fst r) = set (snd r)"
    using Cons.prems(2,3) by (auto simp: r_def domIff)
  have "\<forall>i \<in> set is. 8 \<le> length (RawID i)" using Cons.prems(1) by simp
  from Cons.IH[OF this r] obtain m' ids' where
    IH: "add_ids ab is r = Done (m', ids')" "distinct ids'" "dom m' = set ids'"
    "m' = (\<lambda>v. if \<exists>i \<in> set is. id_val (RawID i) = Done v then Some ab else None) ++ fst r"
    by auto
  have "m' = (\<lambda>w. if \<exists>j \<in> set (i # is). id_val (RawID j) = Done w then Some ab else None) ++ m"
    using v IH(4) by (auto simp: r_def map_add_def fun_eq_iff split: option.split if_splits)
  then show ?case using IH(1-3) v by (auto simp: r_def)
qed simp

lemma collect_ids_spec:
  assumes "ids_long xs" "distinct ids" "dom m = set ids"
  shows "\<exists>m' ids'. collect_ids xs (m, ids) = Done (m', ids') \<and> distinct ids' \<and> dom m' = set ids' \<and>
    m' = value_owner xs ++ m"
  using assms
proof (induction xs arbitrary: m ids)
  case Nil
  have "value_owner [] ++ m = m" by (simp add: value_owner_def map_add_def fun_eq_iff split: option.split)
  with Nil show ?case by simp
next
  case (Cons x xs)
  obtain ab b where x: "x = (ab, b)" by (cases x)
  have long: "\<forall>i \<in> set (SB_ID b). 8 \<le> length (RawID i)" "ids_long xs"
    using Cons.prems(1) by (auto simp: x ids_long_def)
  obtain m1 ids1 where 1: "add_ids ab (SB_ID b) (m, ids) = Done (m1, ids1)" "distinct ids1"
    "dom m1 = set ids1" "m1 = (\<lambda>v. if v \<in> vals b then Some ab else None) ++ m"
    using add_ids_spec[OF long(1) Cons.prems(2,3), of ab] by (auto simp: vals_def)
  obtain m2 ids2 where 2: "collect_ids xs (m1, ids1) = Done (m2, ids2)" "distinct ids2"
    "dom m2 = set ids2" "m2 = value_owner xs ++ m1"
    using Cons.IH[OF long(2) 1(2,3)] by auto
  have "m2 = value_owner (x # xs) ++ m"
    using 1(4) 2(4) by (auto simp: x value_owner_def map_add_def fun_eq_iff split: option.split)
  then show ?case using 1(1) 2 by (auto simp: x)
qed

lemma value_owner_dom: "dom (value_owner xs) = group_vals xs"
proof -
  have "value_owner xs v \<noteq> None \<longleftrightarrow> v \<in> group_vals xs" for v
    by (induction xs) (auto simp: value_owner_def group_vals_def)
  then show ?thesis by (auto simp: domIff)
qed

section \<open>Adding up the arcs\<close>

lemma map_entry_map:
  "distinct (map fst xs) \<Longrightarrow> AList.map_entry k f xs = map (\<lambda>(a, b). (a, if a = k then f b else b)) xs"
proof (induction xs)
  case (Cons x xs)
  have "map (\<lambda>(a, b). (a, if a = k then f b else b)) xs = xs" if "k \<notin> fst ` set xs"
    using that by (intro map_idI) force
  with Cons show ?case by (cases x) auto
qed simp

definition gain :: "(u64 \<rightharpoonup> AddressBackend) \<Rightarrow> (u64 \<times> u64) list \<Rightarrow> AddressBackend \<Rightarrow> u64" where
  "gain own cs ab = (\<Sum>(v, d) \<leftarrow> cs. if own v = Some ab then d else 0)"

lemma steps_add_sum:
  assumes "\<forall>(v, d) \<in> set cs. own v \<noteq> None" "distinct (map fst (Ab rg))"
  shows "steps (map (\<lambda>(v, d). add_sum own v d) cs) rg =
    Done (rg\<lparr>Ab := map (\<lambda>(ab, b). (ab, b\<lparr>sb_sum := sb_sum b + gain own cs ab\<rparr>)) (Ab rg)\<rparr>)"
  using assms
proof (induction cs arbitrary: rg)
  case Nil
  have "map (\<lambda>(ab, b). (ab, b\<lparr>sb_sum := sb_sum b\<rparr>)) (Ab rg) = Ab rg" by (intro map_idI) auto
  then show ?case by (simp add: gain_def)
next
  case (Cons c cs)
  obtain v d where c: "c = (v, d)" by (cases c)
  obtain o' where o: "own v = Some o'" using Cons.prems(1) by (auto simp: c)
  define rg1 where "rg1 = rg\<lparr>Ab := map (\<lambda>(a, b). (a, if a = o' then b\<lparr>sb_sum := sb_sum b + d\<rparr> else b)) (Ab rg)\<rparr>"
  have 1: "add_sum own v d rg = Done rg1"
    using Cons.prems(2) by (simp add: add_sum_def o rg1_def map_entry_map)
  have keys: "map fst (Ab rg1) = map fst (Ab rg)" by (auto simp: rg1_def)
  have "map (\<lambda>(ab, b). (ab, b\<lparr>sb_sum := sb_sum b + gain own cs ab\<rparr>)) (Ab rg1) =
      map (\<lambda>(ab, b). (ab, b\<lparr>sb_sum := sb_sum b + gain own (c # cs) ab\<rparr>)) (Ab rg)"
    by (auto simp: rg1_def gain_def c o add.assoc)
  then have "steps (map (\<lambda>(v, d). add_sum own v d) cs) rg1 =
      Done (rg1\<lparr>Ab := map (\<lambda>(ab, b). (ab, b\<lparr>sb_sum := sb_sum b + gain own (c # cs) ab\<rparr>)) (Ab rg)\<rparr>)"
    using Cons.IH[of rg1] Cons.prems unfolding keys by simp
  moreover have "rg1\<lparr>Ab := X\<rparr> = rg\<lparr>Ab := X\<rparr>" for X by (simp add: rg1_def)
  ultimately show ?case by (simp add: c 1)
qed

text \<open>The arcs from a sorted list of values: each value up to the next, the last to the top.\<close>

fun arcs :: "u64 list \<Rightarrow> (u64 \<times> u64) list" where
  "arcs [] = []"
| "arcs [v] = [(v, - 1 - v)]"
| "arcs (v # w # vs) = (v, w - v) # arcs (w # vs)"

fun contribs :: "u64 list \<Rightarrow> (u64 \<times> u64) list" where
  "contribs [] = []"
| "contribs (v # vs) = (last (v # vs), v) # arcs (v # vs)"

lemma arcs_fst: "fst ` set (arcs vs) \<subseteq> set vs"
  by (induction vs rule: arcs.induct) auto

lemma contribs_fst: "fst ` set (contribs vs) \<subseteq> set vs"
proof (cases vs)
  case (Cons v us)
  have "last (v # us) \<in> set (v # us)" by (rule last_in_set) simp
  then show ?thesis using arcs_fst[of "v # us"] by (simp add: Cons)
qed simp

lemma arcs_nth:
  "ids \<noteq> [] \<Longrightarrow> map (\<lambda>i. (ids ! i, ids ! Suc i - ids ! i)) [0 ..< length ids - 1] @ [(last ids, - 1 - last ids)] = arcs ids"
proof (induction ids rule: arcs.induct)
  case (3 v w vs)
  have "[0 ..< length (v # w # vs) - 1] = 0 # map Suc [0 ..< length (w # vs) - 1]"
    by (simp add: upt_conv_Cons map_Suc_upt del: upt_Suc)
  then show ?case using 3 by (simp add: comp_def)
qed auto

lemma ring_loop_contribs:
  "bindO (steps (map (ring_step (own, ids)) [0 ..< length ids]) rg) (ring_last (own, ids)) =
   steps (map (\<lambda>(v, d). add_sum own v d) (contribs ids)) rg"
proof (cases ids)
  case (Cons v vs)
  have "map (ring_step (own, ids)) [0 ..< length ids] =
      map (\<lambda>(v, d). add_sum own v d) ((last ids, v) # map (\<lambda>i. (ids ! i, ids ! Suc i - ids ! i)) [0 ..< length ids - 1])"
    by (rule nth_equalityI)
      (auto simp: Cons ring_step_def fun_eq_iff nth_Cons last_conv_nth simp del: upt_Suc split: nat.splits)
  moreover have "ring_last (own, ids) = steps (map (\<lambda>(v, d). add_sum own v d) [(last ids, - 1 - last ids)])"
    by (simp add: ring_last_def Cons last_conv_nth fun_eq_iff Let_def)
  ultimately have "bindO (steps (map (ring_step (own, ids)) [0 ..< length ids]) rg) (ring_last (own, ids)) =
      steps (map (\<lambda>(v, d). add_sum own v d) ((last ids, v) #
        (map (\<lambda>i. (ids ! i, ids ! Suc i - ids ! i)) [0 ..< length ids - 1] @ [(last ids, - 1 - last ids)]))) rg"
    by (simp only: steps_append[symmetric] map_append[symmetric] append_Cons)
  moreover have "contribs ids = (last ids, v) # arcs ids" by (simp add: Cons)
  moreover have "ids \<noteq> []" by (simp add: Cons)
  ultimately show ?thesis by (simp only: arcs_nth[OF \<open>ids \<noteq> []\<close>])
qed (simp add: ring_last_def)

section \<open>Counting the points of the arcs\<close>

lemma below_max: "x \<noteq> - 1 \<longleftrightarrow> x < - 1" for x :: u64
  using word_order.extremum[of x] by (auto simp: order.order_iff_strict)

lemma card_word_interval:
  fixes v w :: u64
  assumes "v \<le> w"
  shows "card {x. v \<le> x \<and> x < w} = unat w - unat v"
proof -
  have "unat ` {x. v \<le> x \<and> x < w} = {unat v ..< unat w}"
  proof (intro set_eqI iffI)
    fix n assume n: "n \<in> {unat v ..< unat w}"
    then have "n < 2 ^ LENGTH(64)" using unsigned_less[of w, where ?'a = nat] by simp
    then have "unat (of_nat n :: u64) = n" by (simp add: unat_of_nat)
    then show "n \<in> unat ` {x. v \<le> x \<and> x < w}"
      using n by (intro image_eqI[of _ _ "of_nat n"]) (auto simp: word_le_nat_alt word_less_nat_alt)
  qed (auto simp: word_le_nat_alt word_less_nat_alt)
  moreover have "inj_on unat {x. v \<le> x \<and> x < w}" by (simp add: inj_on_def word_unat_eq_iff)
  ultimately show ?thesis using card_image[of unat "{x. v \<le> x \<and> x < w}"] by simp
qed

lemma of_nat_arc:
  fixes v w :: u64
  assumes "v \<le> w"
  shows "of_nat (card {x. v \<le> x \<and> x < w}) = w - v"
proof -
  have "of_nat (unat w - unat v) = (of_nat (unat w) - of_nat (unat v) :: u64)"
    using assms by (intro of_nat_diff) (simp add: word_le_nat_alt)
  then show ?thesis using card_word_interval[OF assms] by simp
qed

lemma predecessor_first:
  "finite V \<Longrightarrow> v \<le> x \<Longrightarrow> \<forall>u \<in> V. x < u \<Longrightarrow> predecessor (insert v V) x = v"
proof -
  assume "finite V" "v \<le> x" "\<forall>u \<in> V. x < u"
  then have "{u \<in> insert v V. u \<le> x} = {v}" by auto
  then show ?thesis by (simp add: predecessor_def)
qed

lemma predecessor_later:
  assumes "finite V" "w \<in> V" "w \<le> x" "v \<le> w"
  shows "predecessor (insert v V) x = predecessor V x"
proof -
  have V: "{u \<in> insert v V. u \<le> x} = insert v {u \<in> V. u \<le> x}" using assms(3,4) by auto
  have "w \<le> Max {u \<in> V. u \<le> x}" using assms(1-3) by (intro Max_ge) auto
  then have "v \<le> Max {u \<in> V. u \<le> x}" using assms(4) by simp
  moreover have "Max (insert v {u \<in> V. u \<le> x}) = max v (Max {u \<in> V. u \<le> x})"
    using assms(1-3) by (intro Max_insert) auto
  ultimately have "Max (insert v {u \<in> V. u \<le> x}) = Max {u \<in> V. u \<le> x}" by (simp add: max_absorb2)
  then show ?thesis using assms(2,3) V by (auto simp: predecessor_def)
qed

lemma predecessor_wrap: "\<forall>u \<in> V. x < u \<Longrightarrow> predecessor V x = Max V"
  by (auto simp: predecessor_def)

text \<open>A sum over the arcs is a number of points, as a word.\<close>

lemma arcs_points:
  assumes "sorted (v # vs)" "distinct (v # vs)"
  shows "of_nat (card {x. v \<le> x \<and> x < - 1 \<and> own (predecessor (set (v # vs)) x) = Some ab}) = gain own (arcs (v # vs)) ab"
  using assms
proof (induction vs arbitrary: v)
  case Nil
  have "predecessor {v} x = v" if "v \<le> x" for x using that predecessor_first[of "{}" v x] by simp
  then have "{x. v \<le> x \<and> x < - 1 \<and> own (predecessor {v} x) = Some ab} =
      (if own v = Some ab then {x. v \<le> x \<and> x < - 1} else {})" by auto
  then show ?case using of_nat_arc[of v "- 1"] by (simp add: gain_def)
next
  case (Cons w vs)
  let ?P = "\<lambda>V x. own (predecessor V x) = Some ab"
  let ?V = "set (w # vs)"
  have vw: "v < w" and ge: "\<forall>u \<in> ?V. w \<le> u" using Cons.prems by auto
  have low: "predecessor (insert v ?V) x = v" if "v \<le> x" "x < w" for x
    using ge that by (intro predecessor_first) auto
  have high: "predecessor (insert v ?V) x = predecessor ?V x" if "w \<le> x" for x
    using vw that by (intro predecessor_later[of _ w]) auto
  have "{x. v \<le> x \<and> x < - 1 \<and> ?P (insert v ?V) x} =
      (if own v = Some ab then {x. v \<le> x \<and> x < w} else {}) \<union> {x. w \<le> x \<and> x < - 1 \<and> ?P ?V x}" (is "?L = ?A \<union> ?B")
    using vw low high by (auto simp: not_less[symmetric] split: if_splits)
      (metis leI less_le_trans word_order.extremum | metis less_imp_le less_le_trans)+
  moreover have "?A \<inter> ?B = {}" by auto
  ultimately have "card ?L = card ?A + card ?B" by (simp add: card_Un_disjoint)
  moreover have "of_nat (card ?A) = (if own v = Some ab then w - v else 0)"
    using of_nat_arc[of v w] vw by simp
  moreover have "of_nat (card ?B) = gain own (arcs (w # vs)) ab" using Cons by simp
  ultimately show ?case by (simp add: gain_def)
qed

lemma Max_sorted: "sorted xs \<Longrightarrow> xs \<noteq> [] \<Longrightarrow> Max (set xs) = last xs"
proof (rule Max_eqI)
  assume "sorted xs" "xs \<noteq> []"
  then show "y \<le> last xs" if "y \<in> set xs" for y
    using that by (auto simp: in_set_conv_nth last_conv_nth intro: sorted_nth_mono)
qed simp_all

lemma contribs_points:
  assumes "sorted ids" "distinct ids"
  shows "gain own (contribs ids) ab =
    of_nat (card {x. x \<noteq> - 1 \<and> set ids \<noteq> {} \<and> own (predecessor (set ids) x) = Some ab})"
proof (cases ids)
  case (Cons v vs)
  let ?B = "{x. v \<le> x \<and> x < - 1 \<and> own (predecessor (set (v # vs)) x) = Some ab}"
  let ?A = "if own (last ids) = Some ab then {x. 0 \<le> x \<and> x < v} else {}"
  have wrap: "predecessor (set ids) x = last ids" if "x < v" for x
    using that assms(1) Max_sorted[OF assms(1)] by (subst predecessor_wrap) (auto simp: Cons)
  have "{x. x \<noteq> - 1 \<and> set ids \<noteq> {} \<and> own (predecessor (set ids) x) = Some ab} = ?A \<union> ?B"
  proof (intro set_eqI)
    fix x :: u64
    have "x \<noteq> - 1 \<longleftrightarrow> x < - 1" by (rule below_max)
    moreover have "x < - 1" if "x < v" using that word_order.extremum[of v] by (rule less_le_trans)
    ultimately show "x \<in> {x. x \<noteq> - 1 \<and> set ids \<noteq> {} \<and> own (predecessor (set ids) x) = Some ab} \<longleftrightarrow> x \<in> ?A \<union> ?B"
      using wrap[of x] by (cases "x < v") (auto simp: Cons)
  qed
  moreover have "?A \<inter> ?B = {}" by auto
  ultimately have "card {x. x \<noteq> - 1 \<and> set ids \<noteq> {} \<and> own (predecessor (set ids) x) = Some ab} = card ?A + card ?B"
    by (simp add: card_Un_disjoint)
  moreover have "of_nat (card ?A) = (if own (last ids) = Some ab then v else 0)"
    using of_nat_arc[of 0 v] by simp
  ultimately show ?thesis using arcs_points[of v vs own ab] assms by (simp add: Cons gain_def)
qed (simp add: gain_def)

section \<open>Finalize in closed form\<close>

definition finalized :: "(AddressBackend \<times> StatBackend) list \<Rightarrow> AddressBackend \<Rightarrow> StatBackend \<Rightarrow> StatBackend" where
  "finalized xs ab b =
     (let s = sb_sum b + of_nat (card (share xs ab))
      in b\<lparr>SB_ID := sort (SB_ID b), sb_sum := s, Percentage := fdiv (f_of_u64 s) (f_of_u64 (- 1 :: u64))\<rparr>)"

lemma vals_sort [simp]: "vals (b\<lparr>SB_ID := sort (SB_ID b)\<rparr>) = vals b"
  by (simp add: vals_def)

lemma value_owner_map:
  "(\<And>ab b. (ab, b) \<in> set xs \<Longrightarrow> vals (f ab b) = vals b) \<Longrightarrow>
   value_owner (map (\<lambda>(ab, b). (ab, f ab b)) xs) = value_owner xs"
  by (induction xs) (auto simp: value_owner_def fun_eq_iff)

lemma share_map:
  "(\<And>ab b. (ab, b) \<in> set xs \<Longrightarrow> vals (f ab b) = vals b) \<Longrightarrow>
   share (map (\<lambda>(ab, b). (ab, f ab b)) xs) = share xs"
  using value_owner_map[of xs f] unfolding share_def value_owner_dom[symmetric] by simp

lemma Finalize_eq:
  assumes "distinct (map fst (Ab rg))" "ids_long (Ab rg)"
  shows "StatGroup_Finalize rg = Done (rg\<lparr>Ab := map (\<lambda>(ab, b). (ab, finalized (Ab rg) ab b)) (Ab rg)\<rparr>)"
proof -
  define rg1 where "rg1 = rg\<lparr>Ab := map (\<lambda>(ab, b). (ab, b\<lparr>SB_ID := sort (SB_ID b)\<rparr>)) (Ab rg)\<rparr>"
  have owner: "value_owner (Ab rg1) = value_owner (Ab rg)" by (simp add: rg1_def value_owner_map)
  have "ids_long (Ab rg1)" using assms(2) by (auto simp: rg1_def ids_long_def)
  then obtain own ids where c: "collect_ids (Ab rg1) (Map.empty, []) = Done (own, ids)" "distinct ids"
    "dom own = set ids" "own = value_owner (Ab rg1)"
    using collect_ids_spec[of "Ab rg1" "[]" Map.empty] by auto
  define vs where "vs = sort ids"
  have V: "set vs = group_vals (Ab rg)" and "sorted vs" "distinct vs"
    using c(2,3) value_owner_dom[of "Ab rg"] by (simp_all add: vs_def c(4) owner)
  then have gain: "gain own (contribs vs) ab = of_nat (card (share (Ab rg) ab))" for ab
    by (simp add: contribs_points share_def c(4) owner)
  have "\<forall>(v, d) \<in> set (contribs vs). own v \<noteq> None" using c(3) contribs_fst[of vs] by (force simp: vs_def)
  moreover have "distinct (map fst (Ab rg1))" using assms(1) by (simp add: rg1_def comp_def case_prod_unfold)
  ultimately have loop: "bindO (steps (map (ring_step (own, vs)) [0 ..< length vs]) rg1) (ring_last (own, vs)) =
      Done (rg1\<lparr>Ab := map (\<lambda>(ab, b). (ab, b\<lparr>sb_sum := sb_sum b + of_nat (card (share (Ab rg) ab))\<rparr>)) (Ab rg1)\<rparr>)"
    unfolding ring_loop_contribs by (simp add: steps_add_sum gain)
  have len: "length ids = length vs" by (simp add: vs_def)
  have "StatGroup_Finalize rg = mapO (\<lambda>rg. rg\<lparr>Ab := map (\<lambda>(ab, b).
      (ab, b\<lparr>Percentage := fdiv (f_of_u64 (sb_sum b)) (f_of_u64 (- 1 :: u64))\<rparr>)) (Ab rg)\<rparr>)
      (bindO (steps (map (ring_step (own, vs)) [0 ..< length vs]) rg1) (ring_last (own, vs)))"
    by (simp add: StatGroup_Finalize_def rg1_def[symmetric] c(1) vs_def[symmetric] len Let_def)
      (cases "steps (map (ring_step (own, vs)) [0 ..< length vs]) rg1"; simp)
  then show ?thesis unfolding loop
    by (simp add: rg1_def finalized_def Let_def comp_def case_prod_unfold)
qed

section \<open>Properties of the shares\<close>

lemma card_u64: "card {x :: u64. x \<noteq> - 1} = 18446744073709551615"
proof -
  have "{x :: u64. x \<noteq> - 1} = {x. 0 \<le> x \<and> x < - 1}"
    by (simp add: below_max)
  then show ?thesis
    using card_word_interval[of 0 "- 1"] by (simp add: unsigned_minus_1_eq_mask mask_eq_exp_minus_1)
qed

lemma card_share_less: "card (share xs ab) < 18446744073709551616"
proof -
  have "card (share xs ab) \<le> card {x :: u64. x \<noteq> - 1}" by (rule card_mono) (auto simp: share_def)
  then show ?thesis unfolding card_u64 by simp
qed

lemma unat_card_share: "unat (of_nat (card (share xs ab)) :: u64) = card (share xs ab)"
  using card_share_less[of xs ab] by (simp add: unat_of_nat)

lemma value_owner_key: "value_owner xs v = Some ab \<Longrightarrow> ab \<in> fst ` set xs"
  by (auto simp: value_owner_def find_Some_iff) (metis fst_conv image_eqI nth_mem)

lemma predecessor_in:
  assumes "finite V" "V \<noteq> {}"
  shows "predecessor V x \<in> V"
proof (cases "{v \<in> V. v \<le> x} = {}")
  case True
  then show ?thesis using Max_in[OF assms] by (simp add: predecessor_def)
next
  case False
  then show ?thesis using Max_in[of "{v \<in> V. v \<le> x}"] assms by (auto simp: predecessor_def)
qed

text \<open>Every point has exactly one owner.\<close>

lemma shares_partition:
  assumes "distinct (map fst xs)" "group_vals xs \<noteq> {}"
  shows "(\<Sum>(ab, b) \<leftarrow> xs. card (share xs ab)) = 18446744073709551615"
proof -
  have owner: "\<exists>ab. value_owner xs (predecessor (group_vals xs) x) = Some ab" for x
    using predecessor_in[OF finite assms(2), of x] value_owner_dom[of xs] by blast
  have "(\<Sum>(ab, b) \<leftarrow> xs. card (share xs ab)) = sum_list (map (\<lambda>ab. card (share xs ab)) (map fst xs))"
    by (simp add: comp_def case_prod_unfold)
  also have "\<dots> = (\<Sum>ab \<in> set (map fst xs). card (share xs ab))"
    using assms(1) by (rule sum_list_distinct_conv_sum_set)
  also have "\<dots> = card (\<Union>ab \<in> set (map fst xs). share xs ab)"
    by (rule card_UN_disjoint[symmetric]) (auto simp: share_def)
  also have "(\<Union>ab \<in> set (map fst xs). share xs ab) = {x. x \<noteq> - 1}"
    using owner value_owner_key[of xs] assms(2) by (fastforce simp: share_def)
  finally show ?thesis by (simp only: card_u64)
qed

text \<open>When no two backends have a value in common, the order of iteration does not matter.\<close>

definition exclusive :: "(AddressBackend \<times> StatBackend) list \<Rightarrow> bool" where
  "exclusive xs \<longleftrightarrow> (\<forall>(ab, b) \<in> set xs. \<forall>(ab', b') \<in> set xs. ab = ab' \<or> vals b \<inter> vals b' = {})"

lemma value_owner_has: "value_owner xs v = Some ab \<Longrightarrow> \<exists>b. (ab, b) \<in> set xs \<and> v \<in> vals b"
  by (auto simp: value_owner_def find_Some_iff) (metis nth_mem)

lemma value_owner_exclusive:
  assumes "exclusive xs"
  shows "value_owner xs v = Some ab \<longleftrightarrow> (\<exists>b. (ab, b) \<in> set xs \<and> v \<in> vals b)"
proof
  assume "\<exists>b. (ab, b) \<in> set xs \<and> v \<in> vals b"
  then obtain b where b: "(ab, b) \<in> set xs" "v \<in> vals b" by auto
  then have "v \<in> dom (value_owner xs)" unfolding value_owner_dom by (auto simp: group_vals_def)
  then obtain ab' where o: "value_owner xs v = Some ab'" by auto
  from value_owner_has[OF o] obtain b' where "(ab', b') \<in> set xs" "v \<in> vals b'" by auto
  with o assms b show "value_owner xs v = Some ab" unfolding exclusive_def by fastforce
qed (rule value_owner_has)

lemma share_order:
  assumes "set xs = set ys" "exclusive xs"
  shows "share xs = share ys"
proof -
  have "exclusive ys" using assms by (simp add: exclusive_def)
  then have "value_owner xs v = Some ab \<longleftrightarrow> value_owner ys v = Some ab" for v ab
    using assms by (simp add: value_owner_exclusive)
  then have "value_owner xs v = value_owner ys v" for v
    by (metis option.exhaust)
  then have "value_owner xs = value_owner ys" by (rule ext)
  then show ?thesis unfolding share_def value_owner_dom[symmetric] by simp
qed

lemma finalized_order:
  "set xs = set ys \<Longrightarrow> exclusive xs \<Longrightarrow> finalized xs ab b = finalized ys ab b"
  by (simp add: finalized_def share_order)

end
