(* ===== verification/StatLaws.thy ===== *)
theory StatLaws
  imports Ring
begin

text \<open>
  The laws of the statistics store. A locale states what a store of objects promises that are
  found (and made on demand) by key and then written through the reference: an object that is
  looked up exists afterwards, a write changes the object of its key only, and the keys stay
  distinct. Its interpretation on \<^verbatim>\<open>FindBackend\<close> gives the effect of every operation that goes
  through it: route entries, monitoring replies, and sequences of them.
\<close>

section \<open>Stores\<close>

locale keyed_store =
  fixes find :: "'k \<Rightarrow> 's \<Rightarrow> 's" and update :: "'k \<Rightarrow> ('b \<Rightarrow> 'b) \<Rightarrow> 's \<Rightarrow> 's"
    and get :: "'k \<Rightarrow> 's \<Rightarrow> 'b option" and new :: 'b and wf :: "'s \<Rightarrow> bool"
    and key_ok :: "'k \<Rightarrow> bool"
  assumes get_find: "wf s \<Longrightarrow> key_ok k \<Longrightarrow>
      get k' (find k s) = (if k' = k \<and> get k s = None then Some new else get k' s)"
    and get_update: "wf s \<Longrightarrow> get k' (update k f s) = (if k' = k then map_option f (get k s) else get k' s)"
    and wf_find: "wf s \<Longrightarrow> key_ok k \<Longrightarrow> wf (find k s)"
    and wf_update: "wf s \<Longrightarrow> wf (update k f s)"
begin

definition modify :: "'k \<Rightarrow> ('b \<Rightarrow> 'b) \<Rightarrow> 's \<Rightarrow> 's" where
  "modify k f s = update k f (find k s)"

definition content :: "'k \<Rightarrow> 's \<Rightarrow> 'b" where
  "content k s = (case get k s of None \<Rightarrow> new | Some b \<Rightarrow> b)"

lemma wf_modify: "wf s \<Longrightarrow> key_ok k \<Longrightarrow> wf (modify k f s)"
  by (simp add: modify_def wf_find wf_update)

lemma get_modify:
  "wf s \<Longrightarrow> key_ok k \<Longrightarrow> get k' (modify k f s) = (if k' = k then Some (f (content k s)) else get k' s)"
  using get_find[of s k k'] get_find[of s k k] get_update[OF wf_find, of s k k' k f]
  by (auto simp: modify_def content_def split: option.split)

text \<open>A sequence of writes: each object gets its own writes, in order.\<close>

lemma wf_modifies:
  "wf s \<Longrightarrow> \<forall>(k, f) \<in> set kfs. key_ok k \<Longrightarrow> wf (fold (\<lambda>(k, f). modify k f) kfs s)"
  by (induction kfs arbitrary: s) (auto simp: wf_modify)

lemma get_modifies:
  assumes "wf s" "\<forall>(k, f) \<in> set kfs. key_ok k"
  shows "get k (fold (\<lambda>(k, f). modify k f) kfs s) =
    (if k \<in> fst ` set kfs then Some (fold (\<lambda>(k', f). if k' = k then f else id) kfs (content k s)) else get k s)"
  using assms
proof (induction kfs arbitrary: s)
  case (Cons x kfs)
  obtain k1 f1 where x: "x = (k1, f1)" by (cases x)
  have wf1: "wf (modify k1 f1 s)" and get1: "get k (modify k1 f1 s) = (if k = k1 then Some (f1 (content k1 s)) else get k s)"
    using Cons.prems by (auto simp: x wf_modify get_modify)
  have idle: "fold (\<lambda>(k', f). if k' = k then f else id) kfs b = b" if "k \<notin> fst ` set kfs" for b
    using that by (induction kfs) auto
  have c1: "content k (modify k1 f1 s) = (if k = k1 then f1 (content k1 s) else content k s)"
    by (simp add: content_def get1)
  have "\<forall>(k, f) \<in> set kfs. key_ok k" using Cons.prems(2) by simp
  note IH = Cons.IH[OF wf1 this]
  show ?case
    using IH get1 c1 idle by (cases "k \<in> fst ` set kfs"; cases "k = k1") (simp_all add: x)
qed auto

end

section \<open>The store of backends\<close>

text \<open>Every key holds an address that fits its array, and no key occurs twice.\<close>

definition ab_wf :: "AddressBackend \<Rightarrow> bool" where
  "ab_wf ab \<longleftrightarrow> length (RA_Addr (AB_Addr ab)) = 32 \<and> 0 \<le> RA_Len (AB_Addr ab) \<and> RA_Len (AB_Addr ab) \<le> 32"

definition group_wf :: "StatGroup \<Rightarrow> bool" where
  "group_wf sg \<longleftrightarrow> distinct (map fst (Ab sg)) \<and> (\<forall>ab \<in> fst ` set (Ab sg). ab_wf ab)"

definition stat_wf :: "DnetStat \<Rightarrow> bool" where
  "stat_wf stat \<longleftrightarrow> distinct (map fst (Group stat)) \<and> (\<forall>sg \<in> snd ` set (Group stat). group_wf sg)"

text \<open>What \<^verbatim>\<open>FindBackend\<close> does once the key is built.\<close>

definition ensure :: "go_time \<Rightarrow> u32 \<times> AddressBackend \<Rightarrow> DnetStat \<Rightarrow> DnetStat" where
  "ensure now k stat =
     (case k of (g, ab) \<Rightarrow>
      let sg = (case map_of (Group stat) g of Some sg \<Rightarrow> sg | None \<Rightarrow> NewStatGroup)
      in if map_of (Ab sg) ab \<noteq> None then stat
         else stat\<lparr>Group := AList.update g (sg\<lparr>Ab := AList.update ab (NewStatBackend now) (Ab sg)\<rparr>) (Group stat)\<rparr>)"

lemma update_update: "AList.update k v (AList.update k u xs) = AList.update k v xs"
  by (induction xs) auto

lemma FindBackend_eq:
  "FindBackend L now g addr i stat =
     mapO (\<lambda>ab. (ab, ensure now (g, ab) stat)) (NewAddressBackend L addr i)"
  by (cases "NewAddressBackend L addr i")
    (auto simp: FindBackend_def ensure_def Let_def NewStatGroup_def update_update split: option.split)

lemma NewAddressBackend_Done:
  "NewAddressBackend L addr i = Done ab \<Longrightarrow> ab_wf ab \<and> RawAddr_DnetAddr (AB_Addr ab) = Done addr \<and> AB_Backend ab = i"
  by (auto simp: NewAddressBackend_def ab_wf_def RawAddr_DnetAddr_def split: if_splits)

lemma map_of_map_entry: "map_of (AList.map_entry k f xs) k' = (if k' = k then map_option f (map_of xs k) else map_of xs k')"
  by (simp add: map_of_map_entry split: option.split)

lemma map_of_update: "map_of (AList.update k v xs) k' = (if k' = k then Some v else map_of xs k')"
  by (simp add: update_conv')

lemma keys_map_entry [simp]: "map fst (AList.map_entry k f xs) = map fst xs"
  by (induction xs) auto

lemma keys_update: "fst ` set (AList.update k v xs) = insert k (fst ` set xs)"
  by (induction xs) auto

lemma group_wf_update: "group_wf sg \<Longrightarrow> ab_wf ab \<Longrightarrow> group_wf (sg\<lparr>Ab := AList.update ab b (Ab sg)\<rparr>)"
  by (simp add: group_wf_def distinct_update keys_update)

lemma group_wf_new: "group_wf NewStatGroup"
  by (simp add: group_wf_def NewStatGroup_def)

lemma group_wf_keys: "map fst (Ab sg') = map fst (Ab sg) \<Longrightarrow> group_wf sg' = group_wf sg"
  unfolding group_wf_def by (metis set_map)

lemma stat_wf_iff:
  "stat_wf stat \<longleftrightarrow> distinct (map fst (Group stat)) \<and> (\<forall>g sg. map_of (Group stat) g = Some sg \<longrightarrow> group_wf sg)"
proof -
  have "(\<forall>sg \<in> snd ` set xs. P sg) \<longleftrightarrow> (\<forall>g sg. map_of xs g = Some sg \<longrightarrow> P sg)"
    if "distinct (map fst xs)" for xs :: "(u32 \<times> StatGroup) list" and P
    using map_of_eq_Some_iff[OF that] by (simp add: image_iff) force
  then show ?thesis unfolding stat_wf_def by (intro conj_cong refl) simp
qed

lemma stat_wf_ensure:
  assumes "stat_wf stat" "ab_wf ab"
  shows "stat_wf (ensure now (g, ab) stat)"
proof -
  define sg where "sg = (case map_of (Group stat) g of Some sg \<Rightarrow> sg | None \<Rightarrow> NewStatGroup)"
  have "group_wf sg" using assms(1) group_wf_new by (auto simp: sg_def stat_wf_iff split: option.split)
  then have "group_wf (sg\<lparr>Ab := AList.update ab (NewStatBackend now) (Ab sg)\<rparr>)"
    using assms(2) by (rule group_wf_update)
  then show ?thesis
    using assms(1) unfolding ensure_def stat_wf_iff
    by (simp add: distinct_update sg_def[symmetric] Let_def map_of_update del: map_of_eq_Some_iff)
qed

lemma stat_wf_update_backend: "stat_wf stat \<Longrightarrow> stat_wf (update_backend g ab f stat)"
proof -
  have "group_wf (sg\<lparr>Ab := AList.map_entry ab f (Ab sg)\<rparr>)" if "group_wf sg" for sg
    using that by (subst group_wf_keys) simp_all
  then show "stat_wf stat \<Longrightarrow> stat_wf (update_backend g ab f stat)"
    unfolding stat_wf_iff update_backend_def
    by (auto simp: map_of_map_entry simp del: map_of_eq_Some_iff)
qed

interpretation bs: keyed_store "ensure now" "\<lambda>(g, ab). update_backend g ab" "\<lambda>(g, ab). backend_of g ab"
    "NewStatBackend now" stat_wf "\<lambda>(g, ab). ab_wf ab" for now
proof unfold_locales
  fix s f and k k' :: "u32 \<times> AddressBackend"
  obtain g ab g' ab' where k: "k = (g, ab)" "k' = (g', ab')" by (cases k; cases k')
  show "(case k' of (g, ab) \<Rightarrow> backend_of g ab) (ensure now k s) =
      (if k' = k \<and> (case k of (g, ab) \<Rightarrow> backend_of g ab) s = None then Some (NewStatBackend now)
       else (case k' of (g, ab) \<Rightarrow> backend_of g ab) s)"
    by (auto simp: k ensure_def backend_of_def map_of_update Let_def NewStatGroup_def split: option.split)
  show "(case k' of (g, ab) \<Rightarrow> backend_of g ab) ((case k of (g, ab) \<Rightarrow> update_backend g ab) f s) =
      (if k' = k then map_option f ((case k of (g, ab) \<Rightarrow> backend_of g ab) s)
       else (case k' of (g, ab) \<Rightarrow> backend_of g ab) s)"
    by (auto simp: k update_backend_def backend_of_def map_of_map_entry split: option.split)
  show "stat_wf s \<Longrightarrow> (case k of (g, ab) \<Rightarrow> ab_wf ab) \<Longrightarrow> stat_wf (ensure now k s)"
    by (simp add: k stat_wf_ensure)
  show "stat_wf s \<Longrightarrow> stat_wf ((case k of (g, ab) \<Rightarrow> update_backend g ab) f s)"
    by (simp add: k stat_wf_update_backend)
qed

section \<open>Operations through the store\<close>

definition ab_of :: "DnetAddr \<Rightarrow> i32 \<Rightarrow> AddressBackend" where
  "ab_of addr i =
     \<lparr>AB_Addr = \<lparr>RA_Addr = Addr addr @ replicate (32 - length (Addr addr)) 0,
        RA_Len = int (length (Addr addr)), RA_Family = Family addr\<rparr>, AB_Backend = i\<rparr>"

lemma NewAddressBackend_eq:
  "length (Addr addr) \<le> 32 \<Longrightarrow> NewAddressBackend L addr i = Done (ab_of addr i)"
  by (simp add: NewAddressBackend_def ab_of_def)

lemma ab_of_wf: "length (Addr addr) \<le> 32 \<Longrightarrow> ab_wf (ab_of addr i)"
  by (simp add: ab_of_def ab_wf_def)

lemma ab_of_inj:
  "length (Addr a) \<le> 32 \<Longrightarrow> length (Addr b) \<le> 32 \<Longrightarrow> ab_of a i = ab_of b j \<longleftrightarrow> a = b \<and> i = j"
  by (auto simp: ab_of_def intro!: DnetAddr.equality)

subsection \<open>Routes\<close>

abbreviation add_id :: "bytes \<Rightarrow> StatBackend \<Rightarrow> StatBackend" where
  "add_id i b \<equiv> b\<lparr>SB_ID := SB_ID b @ [DnetRawID i]\<rparr>"

definition route_key :: "RouteEntry \<Rightarrow> u32 \<times> AddressBackend" where
  "route_key e = (re_group e, ab_of (re_addr e) (re_backend e))"

definition fits :: "DnetAddr \<Rightarrow> bool" where
  "fits a \<longleftrightarrow> length (Addr a) \<le> 32"

lemma AddRouteEntry_eq:
  "fits (re_addr e) \<Longrightarrow> AddRouteEntry L now e stat = Done (bs.modify now (route_key e) (add_id (re_id e)) stat)"
  by (simp add: AddRouteEntry_def FindBackend_eq NewAddressBackend_eq fits_def bs.modify_def route_key_def
      RouteEntry_ID_def)

lemma AddRouteEntries_eq:
  "\<forall>e \<in> set es. fits (re_addr e) \<Longrightarrow> steps (map (AddRouteEntry L now) es) stat =
     Done (fold (\<lambda>(k, f). bs.modify now k f) (map (\<lambda>e. (route_key e, add_id (re_id e))) es) stat)"
  by (induction es arbitrary: stat) (auto simp: AddRouteEntry_eq)

lemma route_keys_ok:
  "\<forall>e \<in> set es. fits (re_addr e) \<Longrightarrow>
   \<forall>(k, f) \<in> set (map (\<lambda>e. (route_key e, add_id (re_id e))) es). case k of (g, ab) \<Rightarrow> ab_wf ab"
  by (auto simp: route_key_def ab_of_wf fits_def)

lemma fold_add_id:
  "fold (\<lambda>(k', f). if k' = k then f else id) (map (\<lambda>e. (route_key e, add_id (re_id e))) es) b =
   b\<lparr>SB_ID := SB_ID b @ map (\<lambda>e. DnetRawID (re_id e)) (filter (\<lambda>e. route_key e = k) es)\<rparr>"
  by (induction es arbitrary: b) auto

text \<open>Every identifier goes to the backend its entry names, and nothing else changes.\<close>

lemma AddRouteEntries_backend:
  assumes "stat_wf stat" "\<forall>e \<in> set es. fits (re_addr e)" "steps (map (AddRouteEntry L now) es) stat = Done stat'"
  shows "stat_wf stat' \<and> backend_of g ab stat' =
    (case filter (\<lambda>e. route_key e = (g, ab)) es of [] \<Rightarrow> backend_of g ab stat
     | mine \<Rightarrow> Some (let b = (case backend_of g ab stat of None \<Rightarrow> NewStatBackend now | Some b \<Rightarrow> b)
                     in b\<lparr>SB_ID := SB_ID b @ map (\<lambda>e. DnetRawID (re_id e)) mine\<rparr>))"
proof -
  let ?kfs = "map (\<lambda>e. (route_key e, add_id (re_id e))) es"
  have stat': "stat' = fold (\<lambda>(k, f). bs.modify now k f) ?kfs stat"
    using assms(2,3) by (simp add: AddRouteEntries_eq)
  have mem: "(g, ab) \<in> fst ` set ?kfs \<longleftrightarrow> filter (\<lambda>e. route_key e = (g, ab)) es \<noteq> []"
    by (auto simp: filter_empty_conv image_iff eq_commute[of "(g, ab)"])
  show ?thesis
    using bs.get_modifies[OF assms(1) route_keys_ok[OF assms(2)], of "(g, ab)"]
      bs.wf_modifies[OF assms(1) route_keys_ok[OF assms(2)]]
    unfolding stat' mem fold_add_id
    by (auto simp: bs.content_def Let_def split: list.split)
qed

subsection \<open>Monitoring replies\<close>

definition vnode_key :: "DnetAddr \<Rightarrow> VNode \<Rightarrow> u32 \<times> AddressBackend" where
  "vnode_key addr vnode = (Cf_Group (Be_Config (VN_Backend vnode)), ab_of addr (ucast (BackendID vnode)))"

definition vnode_write :: "VNode \<Rightarrow> StatBackend \<Rightarrow> StatBackend" where
  "vnode_write vnode b =
     (let err = Be_Error (VN_Backend vnode); b = b\<lparr>SB_Error := err\<rparr>
      in if BE_Code err \<noteq> 0 then b else take_vnode vnode b)"

definition live :: "VNode \<Rightarrow> bool" where
  "live vnode \<longleftrightarrow> State (VN_Status vnode) = BackendStateEnabled"

lemma add_vnode_eq:
  "fits addr \<Longrightarrow> add_vnode L now addr vnode stat =
     Done (if live vnode then bs.modify now (vnode_key addr vnode) (vnode_write vnode) stat else stat)"
  by (simp add: add_vnode_def live_def FindBackend_eq NewAddressBackend_eq fits_def bs.modify_def vnode_key_def
      vnode_write_def[abs_def] Let_def)

lemma AddStatEntry_eq:
  assumes "fits (se_addr entry)" "unmarshal (se_stat entry) = (r, err)"
  shows "AddStatEntry L unmarshal now entry stat =
    (let stat = stat\<lparr>DS_Time := time_Unix (sint (Sec (Timestamp r))) (sint (USec (Timestamp r) * 1000))\<rparr>
     in Done (if MonitorStatus r \<noteq> ''enabled'' then stat
       else fold (\<lambda>(k, f). bs.modify now k f)
         (map (\<lambda>v. (vnode_key (se_addr entry) v, vnode_write v)) (filter live (map snd (Backends r)))) stat))"
proof -
  have "steps (map (\<lambda>(_, vnode). add_vnode L now (se_addr entry) vnode) vs) stat =
      Done (fold (\<lambda>(k, f). bs.modify now k f)
        (map (\<lambda>v. (vnode_key (se_addr entry) v, vnode_write v)) (filter live (map snd vs))) stat)" for vs :: "(string \<times> VNode) list" and stat
    by (induction vs arbitrary: stat) (auto simp: add_vnode_eq[OF assms(1)])
  then show ?thesis by (simp add: AddStatEntry_def assms(2) Let_def)
qed

lemma vnode_keys_ok:
  "fits addr \<Longrightarrow> \<forall>(k, f) \<in> set (map (\<lambda>v. (vnode_key addr v, vnode_write v)) vs). case k of (g, ab) \<Rightarrow> ab_wf ab"
  by (auto simp: vnode_key_def ab_of_wf fits_def)

text \<open>A reply never touches the identifiers and the share of a backend.\<close>

lemma vnode_write_ring:
  "SB_ID (vnode_write v b) = SB_ID b" "sb_sum (vnode_write v b) = sb_sum b"
  "Percentage (vnode_write v b) = Percentage b" "SB_PID (vnode_write v b) = SB_PID b"
  by (simp_all add: vnode_write_def take_vnode_def Let_def)

section \<open>Well-formedness is kept\<close>

lemma keys_map_value [simp]: "map fst (map (\<lambda>(k, v). (k, f k v)) xs) = map fst xs"
  by (induction xs) auto

lemma map_of_map_value:
  "map_of (map (\<lambda>(k, v). (k, f k v)) xs) k = map_option (f k) (map_of xs k)"
  by (induction xs) auto


lemma stat_wf_time [simp]: "stat_wf (stat\<lparr>DS_Time := t\<rparr>) = stat_wf stat"
  by (simp add: stat_wf_def)

lemma stat_wf_add_vnode: "stat_wf stat \<Longrightarrow> add_vnode L now addr v stat = Done stat' \<Longrightarrow> stat_wf stat'"
  using NewAddressBackend_Done[of L addr "ucast (BackendID v)"]
  by (auto simp: add_vnode_def FindBackend_eq Let_def stat_wf_ensure split: if_splits intro!: stat_wf_update_backend)

lemma stat_wf_AddStatEntry:
  assumes "stat_wf stat" "AddStatEntry L unmarshal now entry stat = Done stat'"
  shows "stat_wf stat'"
proof -
  have "stat_wf s'" if "steps (map (\<lambda>(_, v). add_vnode L now (se_addr entry) v) vs) s = Done s'" "stat_wf s"
    for vs :: "(string \<times> VNode) list" and s s'
    using that by (rule steps_invariant) (auto intro: stat_wf_add_vnode)
  then show ?thesis using assms by (auto simp: AddStatEntry_def Let_def split: prod.splits if_splits)
qed

lemma stat_wf_AddRouteEntry:
  assumes "stat_wf stat" "AddRouteEntry L now e stat = Done stat'"
  shows "stat_wf stat'"
proof -
  have "fits (re_addr e)"
    using assms(2) by (auto simp: AddRouteEntry_def FindBackend_eq NewAddressBackend_def fits_def split: if_splits)
  then show ?thesis
    using assms bs.wf_modify[OF assms(1), of "route_key e"]
    by (auto simp: AddRouteEntry_eq route_key_def ab_of_wf fits_def)
qed

lemma add_ids_long: "add_ids ab is r = Done r' \<Longrightarrow> \<forall>i \<in> set is. 8 \<le> length (RawID i)"
proof (induction "is" arbitrary: r)
  case (Cons i "is")
  then show ?case by (cases r) (fastforce simp: id_val_def split: if_splits)
qed simp

lemma collect_ids_long: "collect_ids xs r = Done r' \<Longrightarrow> ids_long xs"
proof (induction xs arbitrary: r)
  case (Cons x xs)
  obtain ab b where x: "x = (ab, b)" by (cases x)
  obtain r1 where "add_ids ab (SB_ID b) r = Done r1" "collect_ids xs r1 = Done r'"
    using Cons.prems by (auto simp: x)
  from add_ids_long[OF this(1)] Cons.IH[OF this(2)] show ?case by (simp add: x ids_long_def)
qed (simp add: ids_long_def)

lemma Finalize_long:
  assumes "StatGroup_Finalize rg = Done rg'"
  shows "ids_long (Ab rg)"
proof -
  let ?xs = "map (\<lambda>(ab, b). (ab, b\<lparr>SB_ID := sort (SB_ID b)\<rparr>)) (Ab rg)"
  obtain r where "collect_ids ?xs (Map.empty, []) = Done r"
    using assms by (auto simp: StatGroup_Finalize_def Let_def)
  then have "ids_long ?xs" by (rule collect_ids_long)
  then show ?thesis by (fastforce simp: ids_long_def)
qed

lemma group_wf_Finalize:
  assumes "group_wf sg" "StatGroup_Finalize sg = Done sg'"
  shows "group_wf sg'"
proof -
  have "distinct (map fst (Ab sg))" using assms(1) by (simp add: group_wf_def)
  from Finalize_eq[OF this Finalize_long[OF assms(2)]] assms(2)
  have "map fst (Ab sg') = map fst (Ab sg)" by (auto simp del: map_map)
  then show ?thesis using assms(1) group_wf_keys by blast
qed

lemma finalize_groups_keys:
  "finalize_groups gs = Done gs' \<Longrightarrow> map fst gs' = map fst gs \<and>
   (\<forall>sg' \<in> snd ` set gs'. \<exists>sg \<in> snd ` set gs. StatGroup_Finalize sg = Done sg')"
  by (induction gs arbitrary: gs' rule: finalize_groups.induct) (auto, force)

lemma stat_wf_Finalize:
  assumes "stat_wf stat" "DnetStat_Finalize stat = Done stat'"
  shows "stat_wf stat'"
proof -
  obtain gs where gs: "finalize_groups (Group stat) = Done gs" "stat' = stat\<lparr>Group := gs\<rparr>"
    using assms(2) by (auto simp: DnetStat_Finalize_def)
  then show ?thesis
    using finalize_groups_keys[OF gs(1)] assms(1) group_wf_Finalize unfolding stat_wf_def by fastforce
qed

section \<open>Differences\<close>

lemma map_of_keep_old:
  "map_of (keep_old_groups old new) g = (case map_of new g of Some sg \<Rightarrow> Some sg | None \<Rightarrow> map_of old g)"
proof (induction old arbitrary: new)
  case (Cons x old)
  obtain h sg where x: "x = (h, sg)" by (cases x)
  have "keep_old_groups (x # old) new =
      keep_old_groups old (if map_of new h = None then AList.update h sg new else new)"
    by (auto simp: keep_old_groups_def x split: option.split)
  then show ?case by (auto simp: Cons x map_of_update split: option.split)
qed (simp add: keep_old_groups_def split: option.split)

lemma Diff_backend:
  "backend_of g ab (Diff (Prev prev) stat) =
     (case map_of (Group stat) g of
        None \<Rightarrow> backend_of g ab prev
      | Some sg \<Rightarrow> map_option (\<lambda>sb. case backend_of g ab prev of None \<Rightarrow> sb
          | Some psb \<Rightarrow> diff_backend (Seconds (time_Sub (DS_Time stat) (DS_Time prev))) psb sb) (map_of (Ab sg) ab))"
  by (auto simp: backend_of_def Let_def map_of_keep_old map_of_map_value diff_group_def option.map_comp option.map_ident
      split: option.split)

lemma stat_wf_Diff:
  assumes "stat_wf stat" "stat_wf prev"
  shows "stat_wf (Diff (Prev prev) stat)"
proof -
  have dist: "distinct (map fst (keep_old_groups old new))" if "distinct (map fst new)" for old new
    using that by (induction old arbitrary: new)
      (auto simp: keep_old_groups_def distinct_update split: option.split)
  have "group_wf (diff_group d psg sg)" if "group_wf sg" for d psg sg
    using that group_wf_keys[of "diff_group d psg sg" sg] by (simp add: diff_group_def del: map_map)
  then show ?thesis
    using assms unfolding stat_wf_iff
    by (auto simp: Let_def map_of_keep_old map_of_map_value simp del: map_of_eq_Some_iff map_map
        intro!: dist split: option.splits)
qed

section \<open>The controller\<close>

text \<open>The pain of a backend is never negative; it may be infinite or not a number.\<close>

fun pain_ok :: "float64 \<Rightarrow> bool" where
  "pain_ok (Fin x) = (0 \<le> x)"
| "pain_ok (Inf neg) = (\<not> neg)"
| "pain_ok NaN = True"

lemma pain_relaxed:
  assumes "pain_ok p"
  shows "pain_ok (fadd (fdiv p (Fin 2)) (Fin 1)) \<and> \<not> fle (fadd (fdiv p (Fin 2)) (Fin 1)) (Fin 0)"
proof (cases p)
  case (Fin x)
  then have "0 \<le> x / 2" using assms by simp
  then consider "fl (x / 2) = Inf False" | y where "0 \<le> y" "fl (x / 2) = Fin y"
    using fl_nonneg by blast
  then show ?thesis
  proof cases
    case 2
    then have "fl (y + 1) = Inf False \<or> (\<exists>z > 0. fl (y + 1) = Fin z)" by (intro fl_pos) simp
    then show ?thesis using Fin 2 by auto
  qed (simp add: Fin)
qed (use assms in auto)

lemma PIDUpdate_pain:
  assumes "pain_ok (PIDPain b)"
  shows "pain_ok (PIDPain (PIDUpdate e since now b)) \<and> \<not> fle (PIDPain (PIDUpdate e since now b)) (Fin 0)"
proof -
  have "pain_ok u" if "\<not> fle u (Fin 0)" for u using that by (cases u) auto
  then show ?thesis using pain_relaxed[of "Pain (SB_PID b)"] assms by (auto simp: PIDPain_def PIDUpdate_def Let_def)
qed

end
