(* ===== verification/Objects.thy ===== *)
theory Objects
  imports Protocol StatLaws
begin

text \<open>
  Two invariants of the objects in the world that every event keeps: every channel has a
  buffer of at least one value, and every statistics object is well formed. One lemma per
  operation; the ones about the parts an operation is made of carry the rest.
\<close>

section \<open>Definitions\<close>

definition objects_ok :: "world \<Rightarrow> bool" where
  "objects_ok w \<longleftrightarrow> (\<forall>p b. chans w p = Some b \<longrightarrow> 0 < ch_cap b) \<and> (\<forall>p st. stats w p = Some st \<longrightarrow> stat_wf st)"

section \<open>Lemmas\<close>

lemma objs_cong: "chans w' = chans w \<Longrightarrow> stats w' = stats w \<Longrightarrow> objects_ok w \<Longrightarrow> objects_ok w'"
  by (simp add: objects_ok_def)

lemma objs_upd: "objects_ok w \<Longrightarrow> chans w' = (chans w)(p \<mapsto> b) \<Longrightarrow> stats w' = stats w \<Longrightarrow> 0 < ch_cap b \<Longrightarrow> objects_ok w'"
  by (simp add: objects_ok_def)

lemma make_chan_objs: "make_chan n w = (p, w') \<Longrightarrow> 0 < n \<Longrightarrow> objects_ok w \<Longrightarrow> objects_ok w'"
  by (auto simp: make_chan_def new_ptr_def intro: objs_upd)

lemma send_objs: "send p e w = Done w' \<Longrightarrow> objects_ok w \<Longrightarrow> objects_ok w'"
  by (auto simp: send_Done objects_ok_def split: if_splits)

lemma close_objs: "close_chan p w = Done w' \<Longrightarrow> objects_ok w \<Longrightarrow> objects_ok w'"
  by (auto simp: close_chan_Done objects_ok_def split: if_splits)

lemma NextContext_objs: "NextContext w = (k, w') \<Longrightarrow> objects_ok w \<Longrightarrow> objects_ok w'"
  by (auto simp: NextContext_def Let_def intro: objs_cong)

lemma Store_objs [simp]: "objects_ok (Store k v w) = objects_ok w"
  by (auto simp: Store_def objects_ok_def)

lemma Delete_objs [simp]: "objects_ok (Delete k w) = objects_ok w"
  by (auto simp: Delete_def objects_ok_def)

lemma request_objs: "c_request s fn a b w = Done w' \<Longrightarrow> objects_ok w \<Longrightarrow> objects_ok w'"
  by (auto simp: c_request_def objects_ok_def split: if_splits)

lemma key_request_objs: "c_key_request s fn k a b w = Done w' \<Longrightarrow> objects_ok w \<Longrightarrow> objects_ok w'"
  by (auto simp: c_key_request_def deref_key_def request_objs split: option.splits)

lemma alloc_objs: "c_alloc w = (ok, w') \<Longrightarrow> objects_ok w \<Longrightarrow> objects_ok w'"
  by (auto simp: c_alloc_def split: list.splits intro: objs_cong)

lemma new_ptr_objs: "new_ptr w = (p, w') \<Longrightarrow> objects_ok w \<Longrightarrow> objects_ok w'"
  by (auto simp: new_ptr_def objects_ok_def)

lemma NewKey_objs: "NewKey as w = (r, w') \<Longrightarrow> objects_ok w \<Longrightarrow> objects_ok w'"
  by (auto simp: NewKey_def new_ckey_def new_ptr_def objects_ok_def c_alloc_def split: list.splits go_arg.splits if_splits)

lemma insert_keys_objs: "insert_keys ks keys w = (r, w') \<Longrightarrow> objects_ok w \<Longrightarrow> objects_ok w'"
  by (induction ks arbitrary: keys w) (auto simp: Let_def split: prod.splits intro: alloc_objs)

lemma NewKeys_objs: "NewKeys ks w = (r, w') \<Longrightarrow> objects_ok w \<Longrightarrow> objects_ok w'"
  by (auto simp: NewKeys_def Let_def objects_ok_def split: prod.splits if_splits
      dest!: insert_keys_objs alloc_objs new_ptr_objs)


lemma fail_chan_objs: "fail_chan c e w = Done (ch, w') \<Longrightarrow> objects_ok w \<Longrightarrow> objects_ok w'"
  by (auto simp: fail_chan_def dest!: send_objs close_objs)

lemma makeLookuperChan_objs: "makeLookuperChan e n w = Done (ch, w') \<Longrightarrow> objects_ok w \<Longrightarrow> objects_ok w'"
  by (auto simp: makeLookuperChan_def Let_def defaultVOLUME_def split: prod.splits option.splits
      dest!: send_objs close_objs make_chan_objs)

lemma Key_Free_objs: "Key_Free k w = Done w' \<Longrightarrow> objects_ok w \<Longrightarrow> objects_ok w'"
  by (auto simp: Key_Free_def objects_ok_def split: if_splits)

lemma defer_Free_objs:
  "defer_Free k r = Done (x, w') \<Longrightarrow> (\<And>w1. r = Done (x, w1) \<Longrightarrow> objects_ok w1) \<Longrightarrow> objects_ok w'"
  by (cases r) (auto simp: defer_Free_def dest!: Key_Free_objs)

lemma sess_do_objs: "sess_do s c w = Done w' \<Longrightarrow> objects_ok w \<Longrightarrow> objects_ok w'"
  by (auto simp: sess_do_def objects_ok_def split: option.splits)

lemma transform_objs: "transform_keys k w = Done w' \<Longrightarrow> objects_ok w \<Longrightarrow> objects_ok w'"
  by (auto simp: transform_keys_def objects_ok_def split: option.splits)

lemmas objs_dests = make_chan_objs send_objs close_objs NextContext_objs request_objs key_request_objs alloc_objs
  new_ptr_objs NewKey_objs NewKeys_objs fail_chan_objs makeLookuperChan_objs Key_Free_objs sess_do_objs
  transform_objs

lemmas objs_unfold = Let_def defaultVOLUME_def

lemma ReadKey_objs: "ReadKey s k off sz w = Done (ch, w') \<Longrightarrow> objects_ok w \<Longrightarrow> objects_ok w'"
  by (auto simp: ReadKey_def objs_unfold split: prod.splits dest!: objs_dests)

lemma BulkRead_objs: "BulkRead s ks w = Done (ch, w') \<Longrightarrow> objects_ok w \<Longrightarrow> objects_ok w'"
  by (auto simp: BulkRead_def objs_unfold split: prod.splits sum.splits dest!: objs_dests)

lemma ReadData_objs: "ReadData s ks off sz w = Done (ch, w') \<Longrightarrow> objects_ok w \<Longrightarrow> objects_ok w'"
  by (auto simp: ReadData_def objs_unfold split: prod.splits sum.splits dest!: objs_dests elim!: defer_Free_objs intro: ReadKey_objs)


lemma set_wchunk_objs [simp]: "objects_ok (set_wchunk p v w) = objects_ok w"
  by (simp add: set_wchunk_def objects_ok_def)

lemma update_objs [simp]:
  "objects_ok (w\<lparr>user_log := l\<rparr>) = objects_ok w" "objects_ok (w\<lparr>counter := k\<rparr>) = objects_ok w"
  "objects_ok (w\<lparr>next_ptr := p\<rparr>) = objects_ok w"
  "objects_ok (w\<lparr>inflight := cs\<rparr>) = objects_ok w"
  by (simp_all add: objects_ok_def)

lemma write_go_objs: "write_go s k d off l r w = Done w' \<Longrightarrow> objects_ok w \<Longrightarrow> objects_ok w'"
  by (auto simp: write_go_def objs_unfold split: prod.splits if_splits dest!: objs_dests)

lemma cache_objs: "cache s k d off l r w = Done w' \<Longrightarrow> objects_ok w \<Longrightarrow> objects_ok w'"
  by (auto simp: cache_def objs_unfold split: prod.splits if_splits dest!: objs_dests)

lemma call_onResult_objs: "call_onResult f e w = Done w' \<Longrightarrow> objects_ok w \<Longrightarrow> objects_ok w'"
  by (auto simp: call_onResult_def WriteKey_onWriteFinish_def WriteCache_onWriteFinish_def
      split: onResultCallback.splits option.splits dest!: objs_dests)

lemma Write_objs: "Write s k d off l r w = Done w' \<Longrightarrow> objects_ok w \<Longrightarrow> objects_ok w'"
  by (auto simp: Write_def split: prod.splits sum.splits option.splits
      dest!: objs_dests write_go_objs call_onResult_objs)

lemma WriteKey_objs: "WriteKey s k i off w = Done (ch, w') \<Longrightarrow> objects_ok w \<Longrightarrow> objects_ok w'"
  by (auto simp: WriteKey_def objs_unfold split: prod.splits option.splits if_splits dest!: objs_dests write_go_objs)

lemma with_key_objs:
  assumes "(case NewKey as w of (Inl e, w) \<Rightarrow> f e w | (Inr key, w) \<Rightarrow> g key w) = Done (ch, w')" "objects_ok w"
    and "\<And>e w. objects_ok w \<Longrightarrow> f e w = Done (ch, w') \<Longrightarrow> objects_ok w'"
    and "\<And>key w. objects_ok w \<Longrightarrow> g key w = Done (ch, w') \<Longrightarrow> objects_ok w'"
  shows "objects_ok w'"
  using assms NewKey_objs[OF _ assms(2), of as] by (auto split: prod.split_asm sum.split_asm)

lemma WriteChunk_objs: "WriteChunk s k i off sz w = Done (ch, w') \<Longrightarrow> objects_ok w \<Longrightarrow> objects_ok w'"
  by (cases "Read i"; cases "fst (Read i)"; cases "make_chan 10 w")
    (auto simp: WriteChunk_def NextContext_def new_ptr_def objs_unfold split: option.split_asm if_split_asm
      dest!: objs_dests elim!: with_key_objs defer_Free_objs)

lemma WriteData_objs: "WriteData s k i off sz w = Done (ch, w') \<Longrightarrow> objects_ok w \<Longrightarrow> objects_ok w'"
  by (auto simp: WriteData_def split: prod.splits if_splits sum.splits
      dest!: objs_dests WriteChunk_objs elim!: defer_Free_objs intro: WriteKey_objs)

lemma Cache_objs: "Cache s k d t l r w = Done w' \<Longrightarrow> objects_ok w \<Longrightarrow> objects_ok w'"
  by (auto simp: Cache_def objs_unfold split: prod.splits sum.splits option.splits if_splits
      dest!: objs_dests cache_objs call_onResult_objs)

lemma WriteCache_objs: "WriteCache s k i t w = Done (ch, w') \<Longrightarrow> objects_ok w \<Longrightarrow> objects_ok w'"
  by (cases "ReadAll i") (auto simp: WriteCache_def objs_unfold split: prod.splits sum.splits option.splits if_splits
      dest!: objs_dests cache_objs elim!: defer_Free_objs)

lemma Lookup_objs: "Lookup s k w = Done (ch, w') \<Longrightarrow> objects_ok w \<Longrightarrow> objects_ok w'"
  by (auto simp: Lookup_def objs_unfold split: prod.splits dest!: objs_dests)

lemma ParallelLookup_objs: "ParallelLookup s k w = Done (ch, w') \<Longrightarrow> objects_ok w \<Longrightarrow> objects_ok w'"
  by (auto simp: ParallelLookup_def objs_unfold split: prod.splits sum.splits dest!: objs_dests elim!: defer_Free_objs)

lemma RemoveKey_objs: "RemoveKey s k w = Done (ch, w') \<Longrightarrow> objects_ok w \<Longrightarrow> objects_ok w'"
  by (auto simp: RemoveKey_def objs_unfold split: prod.splits dest!: objs_dests)

lemma Remove_objs: "Remove s k w = Done (ch, w') \<Longrightarrow> objects_ok w \<Longrightarrow> objects_ok w'"
  by (auto simp: Remove_def objs_unfold split: prod.splits sum.splits dest!: objs_dests
      elim!: defer_Free_objs intro: RemoveKey_objs)

lemma bulk_insert_objs: "bulk_insert xs bulk w = Done (r, w') \<Longrightarrow> objects_ok w \<Longrightarrow> objects_ok w'"
  by (induction xs bulk w arbitrary: r w' rule: bulk_insert.induct)
    (auto simp: Let_def split: prod.splits sum.splits if_splits dest!: alloc_objs)

lemma defer_bulk_free_Done: "defer_bulk_free bulk r = Done x \<Longrightarrow> r = Done x"
  by (cases r) (auto simp: defer_bulk_free_def split: if_splits)

lemma BulkWrite_objs:
  assumes "BulkWrite L s attrs data w = Done (ch, w')" "objects_ok w"
  shows "objects_ok w'"
proof -
  obtain ok w1 where a: "c_alloc w = (ok, w1)" by fastforce
  have w1: "objects_ok w1" using alloc_objs[OF a assms(2)] .
  show ?thesis
  proof (cases "ok \<and> length attrs = length data")
    case False
    then show ?thesis
      using assms(1) a w1 by (auto simp: BulkWrite_def dest!: defer_bulk_free_Done objs_dests split: if_splits)
  next
    case True
    then obtain err bulk w2 where b: "bulk_insert (zip attrs data) [] w1 = Done ((err, bulk), w2)"
      using assms(1) a by (cases "bulk_insert (zip attrs data) [] w1") (auto simp: BulkWrite_def)
    have "objects_ok w2" using bulk_insert_objs[OF b w1] .
    then show ?thesis
      using assms(1) a True b
      by (cases err; cases "NewKeys (map (\<lambda>a. string_of_bytes (IO_ID a)) attrs) w2"; cases "fst (NewKeys (map (\<lambda>a. string_of_bytes (IO_ID a)) attrs) w2)")
        (auto simp: BulkWrite_def session_bulk_write_def NextContext_def objs_unfold dest!: defer_bulk_free_Done objs_dests)
  qed
qed

lemma BulkRemove_objs: "BulkRemove s ks w = Done (ch, w') \<Longrightarrow> objects_ok w \<Longrightarrow> objects_ok w'"
  by (auto simp: BulkRemove_def objs_unfold split: prod.splits sum.splits dest!: objs_dests)

lemma FindAllIndexes_objs: "FindAllIndexes s is w = Done (ch, w') \<Longrightarrow> objects_ok w \<Longrightarrow> objects_ok w'"
  by (auto simp: FindAllIndexes_def findIndexes_def objs_unfold split: prod.splits if_splits dest!: objs_dests)

lemma FindAnyIndexes_objs: "FindAnyIndexes s is w = Done (ch, w') \<Longrightarrow> objects_ok w \<Longrightarrow> objects_ok w'"
  by (auto simp: FindAnyIndexes_def findIndexes_def objs_unfold split: prod.splits if_splits dest!: objs_dests)

lemma setOrUpdateIndexes_objs:
  "setOrUpdateIndexes s opn k is w = Done (ch, w') \<Longrightarrow> objects_ok w \<Longrightarrow> objects_ok w'"
  by (auto simp: setOrUpdateIndexes_def objs_unfold split: prod.splits sum.splits if_splits dest!: objs_dests elim!: defer_Free_objs)

lemma ListIndexes_objs: "ListIndexes s k w = Done (ch, w') \<Longrightarrow> objects_ok w \<Longrightarrow> objects_ok w'"
  by (auto simp: ListIndexes_def objs_unfold split: prod.splits sum.splits dest!: objs_dests elim!: defer_Free_objs)

lemma RemoveIndexes_objs: "RemoveIndexes s k is w = Done (ch, w') \<Longrightarrow> objects_ok w \<Longrightarrow> objects_ok w'"
  by (auto simp: RemoveIndexes_def objs_unfold split: prod.splits sum.splits if_splits dest!: objs_dests elim!: defer_Free_objs)

lemma backend_request_objs: "backend_request L s addr fn w = Done (ch, w') \<Longrightarrow> objects_ok w \<Longrightarrow> objects_ok w'"
  by (auto simp: backend_request_def objs_unfold split: prod.splits dest!: objs_dests)

lemma stats_objs: "objects_ok w \<Longrightarrow> stat_wf st \<Longrightarrow> objects_ok (w\<lparr>stats := (stats w)(p \<mapsto> st)\<rparr>)"
  by (simp add: objects_ok_def)

lemma stat_objs: "objects_ok w \<Longrightarrow> stats w p = Some st \<Longrightarrow> stat_wf st"
  by (simp add: objects_ok_def)

lemma new_stat_objs: "objects_ok w \<Longrightarrow> objects_ok (w\<lparr>next_ptr := q, stats := (stats w)(p \<mapsto> DnetStat_new)\<rparr>)"
  by (simp add: objects_ok_def stat_wf_def DnetStat_new_def)

lemma route_objs:
  assumes "go_route_callback L now e k w = Done w'" "objects_ok w"
  shows "objects_ok w'"
proof -
  obtain entry v where v: "(case v of StatObj stat \<Rightarrow>
      (case stats w stat of None \<Rightarrow> Panic NilPointer
       | Some st \<Rightarrow> mapO (\<lambda>st. w\<lparr>stats := (stats w)(stat \<mapsto> st)\<rparr>) (AddRouteEntry L now entry st))
      | _ \<Rightarrow> Panic TypeAssertion) = Done w'"
    using assms(1) by (auto simp: go_route_callback_def with_context_def Get_def split: option.splits)
  then obtain p st st' where "stats w p = Some st" "AddRouteEntry L now entry st = Done st'"
      "w' = w\<lparr>stats := (stats w)(p \<mapsto> st')\<rparr>"
    by (cases v) (auto split: option.splits)
  then show ?thesis
    using assms(2) stat_wf_AddRouteEntry stat_objs stats_objs by metis
qed

lemma get_routes_objs: "session_get_routes L now es s k w = Done w' \<Longrightarrow> objects_ok w \<Longrightarrow> objects_ok w'"
  by (auto simp: session_get_routes_def route_objs split: if_splits elim!: steps_invariant[where P = objects_ok])

lemma finalize_objs: "finalize_stat st w = Done w' \<Longrightarrow> objects_ok w \<Longrightarrow> objects_ok w'"
  by (auto simp: finalize_stat_def split: option.splits intro: stats_objs stat_wf_Finalize stat_objs)

lemma GetRoutes_objs: "GetRoutes L now es s st w = Done w' \<Longrightarrow> objects_ok w \<Longrightarrow> objects_ok w'"
  by (auto simp: GetRoutes_def Let_def delete_ctx_def split: prod.split_asm
      dest!: NextContext_objs get_routes_objs finalize_objs)

lemma DnetStat_request_objs: "DnetStat_request L now es s w = Done (ch, st, w') \<Longrightarrow> objects_ok w \<Longrightarrow> objects_ok w'"
  by (auto simp: DnetStat_request_def NextContext_def new_ptr_def Let_def split: prod.split_asm dest!: objs_dests GetRoutes_objs
      intro: new_stat_objs)

lemmas op_objs = ReadKey_objs BulkRead_objs ReadData_objs Write_objs WriteKey_objs WriteChunk_objs WriteData_objs
  Cache_objs WriteCache_objs Lookup_objs ParallelLookup_objs RemoveKey_objs Remove_objs BulkWrite_objs
  BulkRemove_objs FindAllIndexes_objs FindAnyIndexes_objs setOrUpdateIndexes_objs ListIndexes_objs
  RemoveIndexes_objs backend_request_objs GetRoutes_objs DnetStat_request_objs sess_do_objs Key_Free_objs

lemma api_objs:
  assumes "run_api L a w = Done w'" "objects_ok w"
  shows "objects_ok w'"
proof (cases a)
  case (NewKeyA args)
  then show ?thesis using assms NewKey_objs by (cases "NewKey args w") auto
next
  case (NewSessionA strerror errno)
  then show ?thesis using assms by (auto simp: NewSession_def new_ptr_def objects_ok_def Let_def split: if_splits)
next
  case (SetFilterA s f)
  then show ?thesis using assms sess_do_objs by (auto simp: SetFilter_def split: if_splits)
qed (use assms in \<open>auto simp: BackendsStatus_def BackendStartDefrag_def BackendEnable_def BackendDisable_def
    BackendMakeWritable_def BackendMakeReadOnly_def BackendSetDelay_def SetIndexes_def UpdateIndexes_def
    SetGroups_def SetTimeout_def SetCflags_def SetIOflags_def SetTraceID_def SetNamespace_def
    dest: op_objs split: if_splits\<close>)


lemma Keys_Free_objs: "Keys_Free k w = Done w' \<Longrightarrow> objects_ok w \<Longrightarrow> objects_ok w'"
  by (auto simp: Keys_Free_def objects_ok_def split: if_splits)

lemma wc_finish_objs: "wc_finish v w = Done w' \<Longrightarrow> objects_ok w \<Longrightarrow> objects_ok w'"
  by (auto simp: wc_finish_def delete_ctx_def dest!: objs_dests)

lemma wc_fail_objs: "wc_fail v e w = Done w' \<Longrightarrow> objects_ok w \<Longrightarrow> objects_ok w'"
  by (auto simp: wc_fail_def dest!: objs_dests wc_finish_objs)

lemma chunk_finish_objs: "WriteChunk_onChunkFinish p e w = Done w' \<Longrightarrow> objects_ok w \<Longrightarrow> objects_ok w'"
  by (auto simp: WriteChunk_onChunkFinish_def Let_def
      split: option.split_asm if_split_asm prod.split_asm sum.split_asm
      dest!: wc_finish_objs wc_fail_objs objs_dests)

lemma delete_ctx_objs: "delete_ctx k w = Done w' \<Longrightarrow> objects_ok w \<Longrightarrow> objects_ok w'"
  by (auto simp: delete_ctx_def)

lemma call_final_objs: "call_final_fn f e w = Done w' \<Longrightarrow> objects_ok w \<Longrightarrow> objects_ok w'"
  by (cases f; cases e)
    (auto simp: ReadKey_onFinish_def BulkRead_onFinish_def write_onWriteFinish_def cache_onWriteFinish_def
      Lookup_onFinish_def ParallelLookup_onFinish_def RemoveKey_onFinish_def BulkWrite_onFinish_def
      BulkRemove_onFinish_def findIndexes_onFinish_def setOrUpdateIndexes_onFinish_def ListIndexes_onFinish_def
      RemoveIndexes_onFinish_def DnetStat_onFinish_def split: option.split_asm
      dest!: objs_dests delete_ctx_objs Keys_Free_objs call_onResult_objs chunk_finish_objs)

lemma Backends_onFinish_objs: "Backends_onFinish ch k s w = Done w' \<Longrightarrow> objects_ok w \<Longrightarrow> objects_ok w'"
  by (auto simp: Backends_onFinish_def dest!: objs_dests delete_ctx_objs)

lemma receive_objs: "objects_ok w \<Longrightarrow> objects_ok (receive ch w)"
  by (auto simp: receive_def objects_ok_def chan_recv_def split: option.splits list.splits if_splits)


lemma complete_objs:
  assumes "inv w" "c \<in> set (inflight w)" "completion_ok (call_fn c) x" "complete c x w = Done w'" "objects_ok w"
  shows "objects_ok w'"
  using invD(3)[OF assms(1,2)]
proof (cases rule: call_ok_cases)
  case (final f)
  obtain e where "x = Final e" using assms(3) fn_ok_not_backend[OF fin_callD(1)[OF final(2)]] by (cases x) auto
  then show ?thesis
    using assms(4,5) final(1) call_final_objs
    by (fastforce simp: complete_def on_finish_def go_final_callback_def with_context_found split: if_splits)
next
  case (backend ch)
  then obtain l e where "x = BackendDone l e" using assms(3) by (cases x) auto
  then show ?thesis
    using assms(4,5) backend(1)
    by (auto simp: complete_def on_backend_status_def go_backend_status_error_def go_backend_status_callback_def
        with_context_found split: if_splits list.splits dest!: Backends_onFinish_objs)
qed

lemma exec_objs:
  assumes "inv w" "enabled L e w" "exec L e w = Done w'" "objects_ok w"
  shows "objects_ok w'"
proof (cases e)
  case (Reply c r)
  then have "w' = w \<or> (\<exists>p x. resp_chan w c = Some p \<and> send p x w = Done w')"
    using deliver_sends[OF invD(3)[OF assms(1)], of c r L w'] assms(2,3) by simp
  then show ?thesis using assms(4) send_objs by blast
next
  case (Complete c x)
  then show ?thesis using complete_objs[OF assms(1)] assms(2-4) by auto
next
  case (DeleteSession s)
  then show ?thesis using assms(3,4) by (auto simp: Session_Delete_def objects_ok_def split: if_splits)
qed (use assms api_objs receive_objs in auto)

lemma reachable_objs: "reachable L w \<Longrightarrow> objects_ok w"
proof (induction rule: reachable.induct)
  case (start fails)
  show ?case by (simp add: objects_ok_def init_world_def)
next
  case (step w e w')
  then show ?case using exec_objs[OF reachable_inv] by blast
qed

lemma run_objs: "run L es w w' \<Longrightarrow> inv w \<Longrightarrow> objects_ok w \<Longrightarrow> objects_ok w'"
  by (induction rule: run.induct) (auto intro: exec_inv exec_objs)

end
