(* ===== verification/StatRun.thy ===== *)
theory StatRun
  imports Objects Streams
begin

text \<open>
  The statistics operations of a session as a whole: what \<^verbatim>\<open>GetRoutes\<close> and \<^verbatim>\<open>DnetStat\<close> leave in
  the statistics object, from what the library reports.
\<close>

section \<open>Definitions\<close>

text \<open>The entries in what a statistics channel yields.\<close>

fun entries_of :: "elem list \<Rightarrow> StatEntry list" where
  "entries_of [] = []"
| "entries_of (StatE x # es) = x # entries_of es"
| "entries_of (_ # es) = entries_of es"

fun is_stat :: "elem \<Rightarrow> bool" where
  "is_stat (StatE x) = True"
| "is_stat _ = False"

text \<open>
  A backend after the routes are added: the identifiers routed to it come after those it has,
  in their order; it is created when it is missing and a route leads to it.
\<close>

definition routed_backend :: "RouteEntry list \<Rightarrow> go_time \<Rightarrow> u32 \<Rightarrow> AddressBackend \<Rightarrow> DnetStat \<Rightarrow> StatBackend option" where
  "routed_backend entries now g ab stat =
     (let mine = filter (\<lambda>e. route_key e = (g, ab)) entries
      in if mine = [] then backend_of g ab stat
         else let b = (case backend_of g ab stat of None \<Rightarrow> NewStatBackend now | Some b \<Rightarrow> b)
              in Some (b\<lparr>SB_ID := SB_ID b @ map (\<lambda>e. DnetRawID (re_id e)) mine\<rparr>))"

section \<open>Routes\<close>

lemma AddRouteEntry_fits: "AddRouteEntry L now e stat = Done stat' \<Longrightarrow> fits (re_addr e)"
  by (auto simp: AddRouteEntry_def FindBackend_eq NewAddressBackend_def fits_def split: if_splits)

lemma AddRouteEntries_fit:
  "steps (map (AddRouteEntry L now) es) stat = Done stat' \<Longrightarrow> \<forall>e \<in> set es. fits (re_addr e)"
  by (induction es arbitrary: stat) (auto dest: AddRouteEntry_fits)

lemma AddRouteEntries_routed:
  assumes "stat_wf stat" "steps (map (AddRouteEntry L now) es) stat = Done stat'"
  shows "stat_wf stat' \<and> backend_of g ab stat' = routed_backend es now g ab stat"
  using AddRouteEntries_backend[OF assms(1) AddRouteEntries_fit[OF assms(2)] assms(2), of g ab]
  by (auto simp: routed_backend_def Let_def split: list.splits)

lemma modify_time: "DS_Time (fold (\<lambda>(k, f). bs.modify now k f) kfs s) = DS_Time s"
  by (induction kfs arbitrary: s) (auto simp: bs.modify_def update_backend_def ensure_def Let_def)

lemma AddRouteEntries_time:
  "steps (map (AddRouteEntry L now) es) stat = Done stat' \<Longrightarrow> DS_Time stat' = DS_Time stat"
  using AddRouteEntries_eq[OF AddRouteEntries_fit] modify_time by fastforce

text \<open>The routes of the library reach the statistics one after the other.\<close>

lemma get_routes_run:
  assumes "steps (map (\<lambda>e. go_route_callback L now e k) es) w = Done w'"
    and "pool w k = Some (StatObj p)" "stats w p = Some stat"
  shows "\<exists>res stat'. mapM (NewRouteEntry L) es = Done res \<and> steps (map (AddRouteEntry L now) res) stat = Done stat' \<and>
    stats w' = (stats w)(p \<mapsto> stat')"
  using assms
proof (induction es arbitrary: w stat)
  case Nil
  have "(stats w)(p \<mapsto> stat) = stats w" using Nil(3) by (simp add: fun_upd_idem)
  moreover have "w' = w" "mapM (NewRouteEntry L) [] = Done []" "steps (map (AddRouteEntry L now) []) stat = Done stat"
    using Nil(1) by simp_all
  ultimately show ?case by metis
next
  case (Cons e es)
  obtain w1 where w1: "go_route_callback L now e k w = Done w1"
      "steps (map (\<lambda>e. go_route_callback L now e k) es) w1 = Done w'"
    using Cons.prems(1) by auto
  obtain re stat1 where 1: "NewRouteEntry L e = Done re" "AddRouteEntry L now re stat = Done stat1"
      "w1 = w\<lparr>stats := (stats w)(p \<mapsto> stat1)\<rparr>"
    using w1(1) Cons.prems(2,3) by (auto simp: go_route_callback_def with_context_found)
  have "pool w1 k = Some (StatObj p)" "stats w1 p = Some stat1" using 1(3) Cons.prems(2) by simp_all
  from Cons.IH[OF w1(2) this] obtain res stat' where
      "mapM (NewRouteEntry L) es = Done res" "steps (map (AddRouteEntry L now) res) stat1 = Done stat'"
      "stats w' = (stats w1)(p \<mapsto> stat')"
    by blast
  then show ?case using 1 by (intro exI[of _ "re # res"] exI[of _ stat']) simp
qed

lemma GetRoutes_run:
  assumes "GetRoutes L now es s p w = Done w'" "stats w p = Some stat"
  shows "\<exists>res stat1 stat2. mapM (NewRouteEntry L) es = Done res \<and>
    steps (map (AddRouteEntry L now) res) stat = Done stat1 \<and> DnetStat_Finalize stat1 = Done stat2 \<and>
    stats w' = (stats w)(p \<mapsto> stat2)"
proof -
  let ?k = "counter w + 1"
  let ?w = "Store ?k (StatObj p) (w\<lparr>counter := ?k\<rparr>)"
  obtain w1 w2 where 1: "steps (map (\<lambda>e. go_route_callback L now e ?k) es) ?w = Done w1"
      "finalize_stat p w1 = Done w2" "w' = Delete ?k w2"
    using assms(1) by (auto simp: GetRoutes_def NextContext_def Let_def session_get_routes_def delete_ctx_def split: if_splits)
  obtain res stat1 where 2: "mapM (NewRouteEntry L) es = Done res"
      "steps (map (AddRouteEntry L now) res) stat = Done stat1" "stats w1 = (stats w)(p \<mapsto> stat1)"
    using get_routes_run[OF 1(1), of p stat] assms(2) by (auto simp: Store_def)
  then show ?thesis using 1(2,3) by (auto simp: finalize_stat_def Delete_def Store_def)
qed

section \<open>Finalizing a cluster\<close>

lemma finalize_groups_map:
  "finalize_groups gs = Done gs' \<Longrightarrow>
   map_of gs' g = map_option (\<lambda>sg. case StatGroup_Finalize sg of Done sg' \<Rightarrow> sg' | _ \<Rightarrow> sg) (map_of gs g) \<and>
   (\<forall>sg. map_of gs g = Some sg \<longrightarrow> (\<exists>sg'. StatGroup_Finalize sg = Done sg'))"
  by (induction gs arbitrary: gs' rule: finalize_groups.induct) auto

lemma Finalize_backend:
  assumes "stat_wf stat" "DnetStat_Finalize stat = Done stat'"
  shows "backend_of g ab stat' = (case map_of (Group stat) g of None \<Rightarrow> None
    | Some sg \<Rightarrow> map_option (finalized (Ab sg) ab) (map_of (Ab sg) ab))"
proof -
  obtain gs where gs: "finalize_groups (Group stat) = Done gs" "stat' = stat\<lparr>Group := gs\<rparr>"
    using assms(2) by (auto simp: DnetStat_Finalize_def)
  show ?thesis
  proof (cases "map_of (Group stat) g")
    case None
    then show ?thesis using finalize_groups_map[OF gs(1), of g] gs(2) by (simp add: backend_of_def)
  next
    case (Some sg)
    then obtain sg' where sg': "StatGroup_Finalize sg = Done sg'" using finalize_groups_map[OF gs(1), of g] by blast
    have "distinct (map fst (Ab sg))" using assms(1) Some by (auto simp: stat_wf_iff group_wf_def)
    from Finalize_eq[OF this Finalize_long[OF sg']] sg'
    have "Ab sg' = map (\<lambda>(ab, b). (ab, finalized (Ab sg) ab b)) (Ab sg)" by auto
    then show ?thesis
      using finalize_groups_map[OF gs(1), of g] gs(2) Some sg' by (simp add: backend_of_def map_of_map_value)
  qed
qed

lemma Finalize_time: "DnetStat_Finalize stat = Done stat' \<Longrightarrow> DS_Time stat' = DS_Time stat"
  by (auto simp: DnetStat_Finalize_def)

section \<open>Entries\<close>

lemma DnetStat_loop_steps:
  "list_all is_stat es \<Longrightarrow>
   DnetStat_loop L unmarshal now es stat = steps (map (AddStatEntry L unmarshal now) (entries_of es)) stat"
proof (induction es arbitrary: stat)
  case (Cons e es)
  then obtain x where "e = StatE x" by (cases e) auto
  then show ?case using Cons by (cases "AddStatEntry L unmarshal now x stat") auto
qed simp

lemma stat_wf_loop: "DnetStat_loop L unmarshal now es stat = Done stat' \<Longrightarrow> stat_wf stat \<Longrightarrow> stat_wf stat'"
proof (induction es arbitrary: stat)
  case (Cons e es)
  obtain x where x: "e = StatE x" using Cons.prems(1) by (cases e) auto
  then obtain stat1 where "AddStatEntry L unmarshal now x stat = Done stat1"
      "DnetStat_loop L unmarshal now es stat1 = Done stat'"
    using Cons.prems(1) by auto
  then show ?case using Cons.IH Cons.prems(2) stat_wf_AddStatEntry by blast
qed simp

lemma AddStatEntry_backend:
  assumes "stat_wf stat" "fits (se_addr entry)" "unmarshal (se_stat entry) = (r, err)"
  shows "\<exists>stat'. AddStatEntry L unmarshal now entry stat = Done stat' \<and>
    DS_Time stat' = time_Unix (sint (Sec (Timestamp r))) (sint (USec (Timestamp r) * 1000)) \<and>
    (MonitorStatus r \<noteq> ''enabled'' \<longrightarrow> Group stat' = Group stat) \<and>
    (MonitorStatus r = ''enabled'' \<longrightarrow> (\<forall>g ab. backend_of g ab stat' =
      (case filter (\<lambda>v. live v \<and> vnode_key (se_addr entry) v = (g, ab)) (map snd (Backends r)) of
         [] \<Rightarrow> backend_of g ab stat
       | mine \<Rightarrow> Some (fold vnode_write mine
           (case backend_of g ab stat of None \<Rightarrow> NewStatBackend now | Some b \<Rightarrow> b)))))"
proof -
  let ?t = "time_Unix (sint (Sec (Timestamp r))) (sint (USec (Timestamp r) * 1000))"
  let ?s = "stat\<lparr>DS_Time := ?t\<rparr>" and ?vs = "filter live (map snd (Backends r))"
  let ?kfs = "map (\<lambda>v. (vnode_key (se_addr entry) v, vnode_write v)) ?vs"
  have fold: "fold (\<lambda>(k', f). if k' = k then f else id) (map (\<lambda>v. (vnode_key a v, vnode_write v)) vs) b =
      fold vnode_write (filter (\<lambda>v. vnode_key a v = k) vs) b" for k a vs b
    by (induction vs arbitrary: b) auto
  have wf: "stat_wf ?s" using assms(1) by simp
  have keys: "\<forall>(k, f) \<in> set ?kfs. case k of (g, ab) \<Rightarrow> ab_wf ab" using vnode_keys_ok[OF assms(2)] .
  have get: "backend_of g ab (fold (\<lambda>(k, f). bs.modify now k f) ?kfs ?s) =
      (case filter (\<lambda>v. vnode_key (se_addr entry) v = (g, ab)) ?vs of
         [] \<Rightarrow> backend_of g ab stat
       | mine \<Rightarrow> Some (fold vnode_write mine
           (case backend_of g ab stat of None \<Rightarrow> NewStatBackend now | Some b \<Rightarrow> b)))" for g ab
  proof -
    have "(g, ab) \<in> fst ` set ?kfs \<longleftrightarrow> filter (\<lambda>v. vnode_key (se_addr entry) v = (g, ab)) ?vs \<noteq> []"
      by (auto simp: filter_empty_conv image_iff)
    then show ?thesis
      using bs.get_modifies[OF wf keys, of "(g, ab)"]
      by (auto simp: fold bs.content_def backend_of_def split: list.split simp del: filter_filter)
  qed
  show ?thesis
    using get modify_time[of now ?kfs ?s] by (auto simp: AddStatEntry_eq[of entry unmarshal r err, OF assms(2,3)] Let_def filter_filter conj_commute)
qed

section \<open>Differences\<close>

text \<open>The difference of two counters that wrap at 64 bits.\<close>

definition counter_gain :: "u64 \<Rightarrow> u64 \<Rightarrow> nat" where
  "counter_gain old new =
     (if old \<le> new then unat new - unat old else 18446744073709551616 - (unat old - unat new))"

lemma unat_counter_gain: "unat (new - old) = counter_gain old new"
proof (cases "old \<le> new")
  case True
  then show ?thesis by (simp add: counter_gain_def unat_sub)
next
  case False
  have "unat new < 18446744073709551616" "unat old < 18446744073709551616"
    using unsigned_less[of new, where ?'a = nat] unsigned_less[of old, where ?'a = nat] by simp_all
  then show ?thesis
    using False unat_sub_if_size[of new old] by (simp add: counter_gain_def word_le_nat_alt word_size)
qed

text \<open>A gain over the time between two statistics.\<close>

definition gain_rate :: "DnetStat \<Rightarrow> DnetStat \<Rightarrow> nat \<Rightarrow> float64" where
  "gain_rate prev stat n = fdiv (fl (of_nat n)) (Seconds (time_Sub (DS_Time stat) (DS_Time prev)))"

text \<open>A disk counter is in sectors; the bytes are counted in 64 bits again.\<close>

definition sector_gain :: "u64 \<Rightarrow> u64 \<Rightarrow> nat" where
  "sector_gain old new = counter_gain old new * 512 mod 18446744073709551616"

lemma diff_CStat_gains:
  "diff_CStat (Seconds (time_Sub (DS_Time stat) (DS_Time prev))) pc c =
     c\<lparr>RPSSuccess := gain_rate prev stat (counter_gain (RequestsSuccess pc) (RequestsSuccess c)),
       RPSFailures := gain_rate prev stat (counter_gain (RequestsFailures pc) (RequestsFailures c)),
       BPS := gain_rate prev stat (counter_gain (Bytes pc) (Bytes c))\<rparr>"
  by (simp add: diff_CStat_def f_of_u64_def unat_counter_gain gain_rate_def)

lemma diff_DStat_gains:
  "diff_DStat (Seconds (time_Sub (DS_Time stat) (DS_Time prev))) p d =
     d\<lparr>WBS := gain_rate prev stat (sector_gain (WSectors p) (WSectors d)),
       RBS := gain_rate prev stat (sector_gain (RSectors p) (RSectors d)),
       Util := fdiv (fdiv (fl (of_nat (counter_gain (IOTicks p) (IOTicks d)))) (Fin 1000))
         (Seconds (time_Sub (DS_Time stat) (DS_Time prev)))\<rparr>"
proof -
  have "unat ((new - old) * StatSectorSize) = sector_gain old new" for old new :: u64
  proof -
    have "unat ((new - old) * StatSectorSize) = unat (new - old) * unat StatSectorSize mod 2 ^ 64"
      using unat_word_ariths(2)[of "new - old" StatSectorSize] by simp
    moreover have "unat StatSectorSize = 512" by (simp add: StatSectorSize_def)
    ultimately show ?thesis by (simp only: unat_counter_gain sector_gain_def) simp
  qed
  then show ?thesis by (simp add: diff_DStat_def f_of_u64_def unat_counter_gain gain_rate_def)
qed

lemma diff_backend_keys: "map fst (SB_Commands (diff_backend d psb sb)) = map fst (SB_Commands sb)"
  by (simp add: diff_backend_def comp_def case_prod_unfold)

lemma diff_backend_commands:
  "map_of (SB_Commands (diff_backend d psb sb)) cmd = map_option (\<lambda>c. case map_of (SB_Commands psb) cmd of
     None \<Rightarrow> c | Some pc \<Rightarrow> diff_CStat d pc c) (map_of (SB_Commands sb) cmd)"
  by (simp add: diff_backend_def map_of_map_value)

end
