(* ===== verification/StatStore.thy ===== *)
theory StatStore
  imports StatLaws
begin

text \<open>
  The group objects of statistics by address. \<^verbatim>\<open>DnetStat.Group\<close> is a map of pointers, and \<^verbatim>\<open>Diff\<close>
  copies such a pointer from one statistics into another. Here the statistics hold addresses
  in a store of groups, and the operations of \<^verbatim>\<open>stat.go\<close> that write go through them. A locale states
  when an operation on addresses implements one of the operations on values of Stat: same
  outcome, and no effect on statistics that share no group with it. \<^verbatim>\<open>AddRouteEntry\<close>,
  \<^verbatim>\<open>AddStatEntry\<close> and \<^verbatim>\<open>Finalize\<close> are such operations; \<^verbatim>\<open>Diff\<close> gives the right values too, but
  leaves groups shared. The objects behind the groups (backends, commands) are reached through
  one group only.
\<close>

section \<open>The store\<close>

record group_store =
  gs_next :: nat
  gs_heap :: "nat \<rightharpoonup> StatGroup"

text \<open>The fields of a \<^verbatim>\<open>DnetStat\<close> object.\<close>

record StatRef =
  SR_Time :: go_time
  SR_Group :: "(u32 \<times> nat) list"

definition new_group :: "StatGroup \<Rightarrow> group_store \<Rightarrow> nat \<times> group_store" where
  "new_group sg h = (gs_next h, \<lparr>gs_next = gs_next h + 1, gs_heap = (gs_heap h)(gs_next h \<mapsto> sg)\<rparr>)"

definition read_group :: "nat \<Rightarrow> group_store \<Rightarrow> StatGroup outcome" where
  "read_group p h = (case gs_heap h p of None \<Rightarrow> Panic NilPointer | Some sg \<Rightarrow> Done sg)"

definition write_group :: "nat \<Rightarrow> StatGroup \<Rightarrow> group_store \<Rightarrow> group_store" where
  "write_group p sg h = h\<lparr>gs_heap := (gs_heap h)(p \<mapsto> sg)\<rparr>"

section \<open>The operations\<close>

text \<open>
  A pointer to a backend is the address of its group and its key there. An operation runs on
  the fields of its receiver and the store.
\<close>

definition FindBackend_ref :: "ell_lib \<Rightarrow> go_time \<Rightarrow> u32 \<Rightarrow> DnetAddr \<Rightarrow> i32 \<Rightarrow> StatRef \<times> group_store \<Rightarrow>
    ((nat \<times> AddressBackend) \<times> StatRef \<times> group_store) outcome" where
  "FindBackend_ref L now grp addr backend_id s =
     (let (stat, h) = s;
          (p, stat, h) = (case map_of (SR_Group stat) grp of
            Some p \<Rightarrow> (p, stat, h)
          | None \<Rightarrow> (let (p, h) = new_group NewStatGroup h
                     in (p, stat\<lparr>SR_Group := AList.update grp p (SR_Group stat)\<rparr>, h)))
      in bindO (NewAddressBackend L addr backend_id) (\<lambda>ab.
         bindO (read_group p h) (\<lambda>sg.
           case map_of (Ab sg) ab of
             Some backend \<Rightarrow> Done ((p, ab), stat, h)
           | None \<Rightarrow> Done ((p, ab), stat,
               write_group p (sg\<lparr>Ab := AList.update ab (NewStatBackend now) (Ab sg)\<rparr>) h))))"

definition write_backend :: "nat \<Rightarrow> AddressBackend \<Rightarrow> (StatBackend \<Rightarrow> StatBackend) \<Rightarrow> group_store \<Rightarrow>
    group_store outcome" where
  "write_backend p ab f h =
     mapO (\<lambda>sg. write_group p (sg\<lparr>Ab := AList.map_entry ab f (Ab sg)\<rparr>) h) (read_group p h)"

definition AddRouteEntry_ref :: "ell_lib \<Rightarrow> go_time \<Rightarrow> RouteEntry \<Rightarrow> StatRef \<times> group_store \<Rightarrow>
    (StatRef \<times> group_store) outcome" where
  "AddRouteEntry_ref L now entry s =
     bindO (FindBackend_ref L now (re_group entry) (re_addr entry) (re_backend entry) s) (\<lambda>((p, ab), stat, h).
       mapO (Pair stat) (write_backend p ab
         (\<lambda>backend. backend\<lparr>SB_ID := SB_ID backend @ [DnetRawID (RouteEntry_ID entry)]\<rparr>) h))"

definition add_vnode_ref :: "ell_lib \<Rightarrow> go_time \<Rightarrow> DnetAddr \<Rightarrow> VNode \<Rightarrow> StatRef \<times> group_store \<Rightarrow>
    (StatRef \<times> group_store) outcome" where
  "add_vnode_ref L now addr vnode s =
     (if State (VN_Status vnode) = BackendStateEnabled
      then let grp = Cf_Group (Be_Config (VN_Backend vnode)); err = Be_Error (VN_Backend vnode)
           in bindO (FindBackend_ref L now grp addr (ucast (BackendID vnode)) s) (\<lambda>((p, ab), stat, h).
                mapO (Pair stat) (write_backend p ab (\<lambda>backend.
                  let backend = backend\<lparr>SB_Error := err\<rparr>
                  in if BE_Code err \<noteq> 0 then backend else take_vnode vnode backend) h))
      else Done s)"

definition AddStatEntry_ref :: "ell_lib \<Rightarrow> json_decoder \<Rightarrow> go_time \<Rightarrow> StatEntry \<Rightarrow> StatRef \<times> group_store \<Rightarrow>
    (StatRef \<times> group_store) outcome" where
  "AddStatEntry_ref L unmarshal now entry s =
     (let (stat, h) = s; (r, err) = unmarshal (se_stat entry);
          stat = stat\<lparr>SR_Time := time_Unix (sint (Sec (Timestamp r))) (sint (USec (Timestamp r) * 1000))\<rparr>
      in if MonitorStatus r \<noteq> ''enabled'' then Done (stat, h)
         else steps (map (\<lambda>(_, vnode). add_vnode_ref L now (se_addr entry) vnode) (Backends r)) (stat, h))"

definition finalize_ref :: "u32 \<times> nat \<Rightarrow> group_store \<Rightarrow> group_store outcome" where
  "finalize_ref x h = (case x of (_, p) \<Rightarrow>
     bindO (read_group p h) (\<lambda>sg. mapO (\<lambda>sg. write_group p sg h) (StatGroup_Finalize sg)))"

definition DnetStat_Finalize_ref :: "StatRef \<times> group_store \<Rightarrow> (StatRef \<times> group_store) outcome" where
  "DnetStat_Finalize_ref s =
     (case s of (stat, h) \<Rightarrow> mapO (Pair stat) (steps (map finalize_ref (SR_Group stat)) h))"

text \<open>One round of the first loop of \<^verbatim>\<open>Diff\<close>, and \<^verbatim>\<open>Diff\<close>, which may be given the address of another object.\<close>

definition diff_ref :: "float64 \<Rightarrow> (u32 \<times> nat) list \<Rightarrow> u32 \<times> nat \<Rightarrow> group_store \<Rightarrow> group_store outcome" where
  "diff_ref duration old x h = (case x of (grp, p) \<Rightarrow>
     (case map_of old grp of
        None \<Rightarrow> Done h
      | Some pp \<Rightarrow> bindO (read_group pp h) (\<lambda>psg. bindO (read_group p h) (\<lambda>sg.
          Done (write_group p (diff_group duration psg sg) h)))))"

fun Diff_ref :: "StatRef diff_arg \<Rightarrow> StatRef \<times> group_store \<Rightarrow> (StatRef \<times> group_store) outcome" where
  "Diff_ref PrevNil s = Done s"
| "Diff_ref PrevSelf s = Done s"
| "Diff_ref (Prev prev) (stat, h) =
     (let duration = Seconds (time_Sub (SR_Time stat) (SR_Time prev))
      in mapO (Pair (stat\<lparr>SR_Group := keep_old_groups (SR_Group prev) (SR_Group stat)\<rparr>))
           (steps (map (diff_ref duration (SR_Group prev)) (SR_Group stat)) h))"

section \<open>Abstraction\<close>

text \<open>The value of the statistics in a store, and the addresses they hold.\<close>

definition group_at :: "group_store \<Rightarrow> nat \<Rightarrow> StatGroup" where
  "group_at h p = (case gs_heap h p of None \<Rightarrow> NewStatGroup | Some sg \<Rightarrow> sg)"

abbreviation groups_at :: "group_store \<Rightarrow> (u32 \<times> nat) list \<Rightarrow> (u32 \<times> StatGroup) list" where
  "groups_at h gs \<equiv> map (\<lambda>(g, p). (g, group_at h p)) gs"

definition view :: "group_store \<Rightarrow> StatRef \<Rightarrow> DnetStat" where
  "view h stat = \<lparr>DS_Time = SR_Time stat, Group = groups_at h (SR_Group stat)\<rparr>"

definition refs :: "StatRef \<Rightarrow> nat set" where
  "refs stat = snd ` set (SR_Group stat)"

definition store_ok :: "StatRef \<Rightarrow> group_store \<Rightarrow> bool" where
  "store_ok stat h \<longleftrightarrow> distinct (map fst (SR_Group stat)) \<and> distinct (map snd (SR_Group stat)) \<and>
     (\<forall>p \<in> refs stat. p < gs_next h \<and> gs_heap h p \<noteq> None)"

text \<open>What an operation may do to the store: write the groups it had, and make new ones.\<close>

definition confined :: "StatRef \<Rightarrow> group_store \<Rightarrow> StatRef \<Rightarrow> group_store \<Rightarrow> bool" where
  "confined stat h stat' h' \<longleftrightarrow> store_ok stat' h' \<and> gs_next h \<le> gs_next h' \<and>
     (\<forall>p. p < gs_next h \<and> p \<notin> refs stat \<longrightarrow> gs_heap h' p = gs_heap h p) \<and>
     refs stat' \<subseteq> refs stat \<union> {gs_next h ..}"

lemma confined_refl: "store_ok stat h \<Longrightarrow> confined stat h stat h"
  by (simp add: confined_def)

lemma confined_trans:
  assumes "confined r h r' h'" "confined r' h' r'' h''"
  shows "confined r h r'' h''"
proof -
  have a: "gs_next h \<le> gs_next h'" "refs r' \<subseteq> refs r \<union> {gs_next h ..}" "refs r'' \<subseteq> refs r' \<union> {gs_next h' ..}"
    using assms by (auto simp: confined_def)
  have "gs_heap h'' p = gs_heap h p" if "p < gs_next h" "p \<notin> refs r" for p
  proof -
    have "p \<notin> refs r'" "p < gs_next h'" using that a(1,2) by auto
    then show ?thesis using assms that by (simp add: confined_def)
  qed
  moreover have "{gs_next h' ..} \<subseteq> {gs_next h ..}" using a(1) by auto
  ultimately show ?thesis using assms a by (auto simp: confined_def)
qed

section \<open>Implementing an operation on values\<close>

locale stat_operation =
  fixes rop :: "StatRef \<times> group_store \<Rightarrow> (StatRef \<times> group_store) outcome"
    and vop :: "DnetStat \<Rightarrow> DnetStat outcome"
  assumes simulates: "store_ok stat h \<Longrightarrow> mapO (\<lambda>(stat, h). view h stat) (rop (stat, h)) = vop (view h stat)"
    and keeps: "store_ok stat h \<Longrightarrow> rop (stat, h) = Done (stat', h') \<Longrightarrow> confined stat h stat' h'"
begin

lemma result: "store_ok stat h \<Longrightarrow> rop (stat, h) = Done (stat', h') \<Longrightarrow> vop (view h stat) = Done (view h' stat')"
  using simulates[of stat h] by simp

text \<open>Statistics that share no group with the receiver keep their value and stay separate.\<close>

lemma others_untouched:
  assumes "store_ok stat h" "store_ok other h" "refs stat \<inter> refs other = {}" "rop (stat, h) = Done (stat', h')"
  shows "view h' other = view h other \<and> store_ok other h' \<and> refs stat' \<inter> refs other = {}"
proof -
  have c: "confined stat h stat' h'" using keeps[OF assms(1,4)] .
  have same: "gs_heap h' p = gs_heap h p" if "p \<in> refs other" for p
    using that c assms(2,3) by (auto simp: confined_def store_ok_def)
  have "view h' other = view h other"
    using same by (force simp: view_def group_at_def refs_def)
  moreover have "store_ok other h'" using same assms(2) c by (auto simp: store_ok_def confined_def)
  moreover have "refs stat' \<inter> refs other = {}" using c assms(2,3) by (fastforce simp: confined_def store_ok_def)
  ultimately show ?thesis by blast
qed

end

text \<open>Implementations compose.\<close>

lemma stat_operation_skip: "stat_operation Done Done"
  by unfold_locales (auto simp: confined_refl)

lemma stat_operation_bind:
  assumes "stat_operation f f'" "stat_operation g g'"
  shows "stat_operation (\<lambda>s. bindO (f s) g) (\<lambda>v. bindO (f' v) g')"
proof
  fix stat h assume ok: "store_ok stat h"
  have sim: "mapO (\<lambda>(stat, h). view h stat) (f (stat, h)) = f' (view h stat)"
    using stat_operation.simulates[OF assms(1) ok] .
  show "mapO (\<lambda>(stat, h). view h stat) (bindO (f (stat, h)) g) = bindO (f' (view h stat)) g'"
  proof (cases "f (stat, h)")
    case (Done s)
    obtain stat1 h1 where s: "s = (stat1, h1)" by (cases s)
    have "store_ok stat1 h1" using stat_operation.keeps[OF assms(1) ok] Done s by (auto simp: confined_def)
    from stat_operation.simulates[OF assms(2) this] show ?thesis by (simp add: Done s sim[symmetric])
  qed (simp_all add: sim[symmetric])
  fix stat2 h2 assume "bindO (f (stat, h)) g = Done (stat2, h2)"
  then obtain stat1 h1 where s: "f (stat, h) = Done (stat1, h1)" "g (stat1, h1) = Done (stat2, h2)" by auto
  have c: "confined stat h stat1 h1" using stat_operation.keeps[OF assms(1) ok s(1)] .
  then have "store_ok stat1 h1" by (simp add: confined_def)
  from confined_trans[OF c stat_operation.keeps[OF assms(2) this s(2)]] show "confined stat h stat2 h2" .
qed

lemma steps_Cons: "steps (f # fs) = (\<lambda>s. bindO (f s) (steps fs))"
  by (simp add: fun_eq_iff)

lemma stat_operation_steps:
  "(\<And>x. x \<in> set xs \<Longrightarrow> stat_operation (f x) (g x)) \<Longrightarrow> stat_operation (steps (map f xs)) (steps (map g xs))"
proof (induction xs)
  case Nil
  show ?case using stat_operation_skip by (simp add: stat_operation_def)
next
  case (Cons x xs)
  have "stat_operation (f x) (g x)" "stat_operation (steps (map f xs)) (steps (map g xs))" using Cons by simp_all
  from stat_operation_bind[OF this] show ?case by (simp add: steps_Cons)
qed

section \<open>Route entries and replies\<close>

lemma groups_at_update: "groups_at h (AList.update g p gs) = AList.update g (group_at h p) (groups_at h gs)"
  by (induction gs) auto

lemma map_of_groups_at: "map_of (groups_at h gs) g = map_option (group_at h) (map_of gs g)"
  using map_of_map_value[of "\<lambda>_. group_at h" gs g] by simp

lemma keys_groups_at [simp]: "map fst (groups_at h gs) = map fst gs"
  by (induction gs) auto

lemma group_at_write [simp]: "group_at (write_group p sg h) q = (if q = p then sg else group_at h q)"
  by (simp add: group_at_def write_group_def)

lemma write_group_simps [simp]:
  "gs_next (write_group p sg h) = gs_next h"
  "gs_heap (write_group p sg h) = (gs_heap h)(p \<mapsto> sg)"
  by (simp_all add: write_group_def)

lemma groups_at_other: "p \<notin> snd ` set gs \<Longrightarrow> groups_at (write_group p sg h) gs = groups_at h gs"
  by (induction gs) auto

lemma groups_at_write:
  "distinct (map snd gs) \<Longrightarrow> map_of gs g = Some p \<Longrightarrow>
   groups_at (write_group p sg h) gs = AList.update g sg (groups_at h gs)"
proof (induction gs)
  case (Cons x gs)
  show ?case
  proof (cases "fst x = g")
    case True
    then have "p \<notin> snd ` set gs" using Cons.prems by (cases x) auto
    from groups_at_other[OF this] show ?thesis using True Cons.prems by (cases x) simp
  next
    case False
    then have "map_of gs g = Some p" using Cons.prems by (cases x) simp
    then have "p \<in> snd ` set gs" by (force dest: map_of_SomeD)
    then have "p \<noteq> snd x" using Cons.prems(1) by (auto simp del: set_map simp flip: set_map)
    then show ?thesis using Cons False by (cases x) simp
  qed
qed simp

lemma update_new: "map_of xs k = None \<Longrightarrow> AList.update k v xs = xs @ [(k, v)]"
  by (induction xs) (auto split: if_splits)

lemma map_entry_update: "map_of xs k = Some v \<Longrightarrow> AList.map_entry k f xs = AList.update k (f v) xs"
  by (induction xs) (auto split: if_splits)

lemma store_ok_ref: "store_ok stat h \<Longrightarrow> map_of (SR_Group stat) g = Some p \<Longrightarrow>
  p \<in> refs stat \<and> p < gs_next h \<and> gs_heap h p = Some (group_at h p)"
  by (force simp: store_ok_def refs_def group_at_def dest: map_of_SomeD)

lemma read_group_ref: "store_ok stat h \<Longrightarrow> map_of (SR_Group stat) g = Some p \<Longrightarrow> read_group p h = Done (group_at h p)"
  by (simp add: store_ok_ref read_group_def)

text \<open>A write to a group of the receiver, and a new group.\<close>

lemma write_ref:
  assumes "store_ok stat h" "map_of (SR_Group stat) g = Some p"
  shows "confined stat h stat (write_group p sg h)"
    "view (write_group p sg h) stat = (view h stat)\<lparr>Group := AList.update g sg (Group (view h stat))\<rparr>"
proof -
  have "distinct (map snd (SR_Group stat))" using assms(1) by (simp add: store_ok_def)
  from groups_at_write[OF this assms(2)]
  show "view (write_group p sg h) stat = (view h stat)\<lparr>Group := AList.update g sg (Group (view h stat))\<rparr>"
    by (simp add: view_def)
  show "confined stat h stat (write_group p sg h)"
    using assms(1) store_ok_ref[OF assms] by (auto simp: confined_def store_ok_def)
qed

lemma new_ref:
  assumes "store_ok stat h" "map_of (SR_Group stat) g = None" "new_group sg h = (p, h')"
    and "stat' = stat\<lparr>SR_Group := AList.update g p (SR_Group stat)\<rparr>"
  shows "confined stat h stat' h'" "map_of (SR_Group stat') g = Some p"
    "view h' stat' = (view h stat)\<lparr>Group := AList.update g sg (Group (view h stat))\<rparr>"
proof -
  have p: "p = gs_next h" "gs_next h' = gs_next h + 1" "gs_heap h' = (gs_heap h)(p \<mapsto> sg)"
    using assms(3) by (auto simp: new_group_def)
  have fresh: "p \<notin> refs stat" using assms(1) p by (auto simp: store_ok_def)
  have app: "AList.update g (gs_next h) (SR_Group stat) = SR_Group stat @ [(g, gs_next h)]"
    using assms(2) by (rule update_new)
  have g: "g \<notin> fst ` set (SR_Group stat)" using assms(2) by (simp add: map_of_eq_None_iff)
  show "confined stat h stat' h'"
    using assms(1) fresh g by (auto simp: confined_def store_ok_def assms(4) app p refs_def)
  show "map_of (SR_Group stat') g = Some p" by (simp add: assms(4) map_of_update)
  have at: "group_at h' p = sg" by (simp add: group_at_def p)
  have "groups_at h' (SR_Group stat) = groups_at h (SR_Group stat)"
    using fresh by (force simp: group_at_def p refs_def)
  then show "view h' stat' = (view h stat)\<lparr>Group := AList.update g sg (Group (view h stat))\<rparr>"
    using at by (simp del: map_eq_conv add: view_def assms(4) groups_at_update)
qed


lemma FindBackend_ref_sim:
  assumes "store_ok stat h"
  shows "FindBackend L now g addr i (view h stat) =
      mapO (\<lambda>((p, ab), stat, h). (ab, view h stat)) (FindBackend_ref L now g addr i (stat, h))"
    and "FindBackend_ref L now g addr i (stat, h) = Done ((p, ab), stat', h') \<Longrightarrow>
      confined stat h stat' h' \<and> map_of (SR_Group stat') g = Some p"
proof -
  define s1 where "s1 = (case map_of (SR_Group stat) g of Some p \<Rightarrow> (p, stat, h)
    | None \<Rightarrow> (let (p, h) = new_group NewStatGroup h in (p, stat\<lparr>SR_Group := AList.update g p (SR_Group stat)\<rparr>, h)))"
  obtain q stat1 h1 where s1: "s1 = (q, stat1, h1)" by (cases s1)
  define v1 where "v1 = (case map_of (Group (view h stat)) g of Some sg \<Rightarrow> (sg, view h stat)
    | None \<Rightarrow> (NewStatGroup, (view h stat)\<lparr>Group := AList.update g NewStatGroup (Group (view h stat))\<rparr>))"
  have 1: "confined stat h stat1 h1 \<and> map_of (SR_Group stat1) g = Some q \<and> v1 = (group_at h1 q, view h1 stat1)"
  proof (cases "map_of (SR_Group stat) g")
    case None
    obtain h0 where n: "new_group NewStatGroup h = (gs_next h, h0)" by (simp add: new_group_def)
    have q: "stat1 = stat\<lparr>SR_Group := AList.update g q (SR_Group stat)\<rparr>" "h1 = h0" "q = gs_next h"
      using s1 None n by (auto simp: s1_def)
    have "group_at h1 q = NewStatGroup" using n q by (auto simp: new_group_def group_at_def)
    moreover have "map_of (Group (view h stat)) g = None" using None by (simp add: view_def map_of_groups_at)
    moreover note new_ref[OF assms None n q(1)[unfolded q(3)]]
    ultimately show ?thesis using q by (simp add: v1_def)
  next
    case (Some p)
    then show ?thesis
      using s1 assms by (auto simp: v1_def s1_def view_def map_of_groups_at confined_refl)
  qed
  then have ok: "store_ok stat1 h1" and c: "confined stat h stat1 h1" and q: "map_of (SR_Group stat1) g = Some q"
    and v1: "v1 = (group_at h1 q, view h1 stat1)" by (auto simp: confined_def)
  note go = read_group_ref[OF ok q] write_ref[OF ok q] FindBackend_def FindBackend_ref_def
  show "FindBackend L now g addr i (view h stat) =
      mapO (\<lambda>((p, ab), stat, h). (ab, view h stat)) (FindBackend_ref L now g addr i (stat, h))"
    unfolding go(4,5) Let_def v1_def[symmetric] case_prod_conv s1_def[unfolded Let_def, symmetric] s1 v1
    by (cases "NewAddressBackend L addr i") (simp_all add: go(1-3) split: option.split)
  show "FindBackend_ref L now g addr i (stat, h) = Done ((p, ab), stat', h') \<Longrightarrow>
      confined stat h stat' h' \<and> map_of (SR_Group stat') g = Some p"
    using c q go(2)[THEN confined_trans[OF c]]
    unfolding go(5) Let_def case_prod_conv s1_def[unfolded Let_def, symmetric] s1
    by (auto simp: go(1) split: option.splits)
qed

text \<open>A backend that is looked up and written through its pointer.\<close>

lemma find_write:
  "stat_operation
     (\<lambda>s. bindO (FindBackend_ref L now g addr i s) (\<lambda>((p, ab), stat, h). mapO (Pair stat) (write_backend p ab f h)))
     (\<lambda>v. mapO (\<lambda>(ab, v). update_backend g ab f v) (FindBackend L now g addr i v))"
proof
  fix stat h assume ok: "store_ok stat h"
  have wr: "confined stat h stat1 (write_group p sg h1)" "write_backend p ab f h1 = Done (write_group p sg h1)"
    "view (write_group p sg h1) stat1 = update_backend g ab f (view h1 stat1)"
    if r: "FindBackend_ref L now g addr i (stat, h) = Done ((p, ab), stat1, h1)"
      and sg: "sg = (group_at h1 p)\<lparr>Ab := AList.map_entry ab f (Ab (group_at h1 p))\<rparr>" for p ab stat1 h1 sg
  proof -
    have c: "confined stat h stat1 h1" and q: "map_of (SR_Group stat1) g = Some p" and ok1: "store_ok stat1 h1"
      using FindBackend_ref_sim(2)[OF ok r] by (auto simp: confined_def)
    show "confined stat h stat1 (write_group p sg h1)" using confined_trans[OF c write_ref(1)[OF ok1 q]] .
    show "write_backend p ab f h1 = Done (write_group p sg h1)"
      by (simp add: write_backend_def read_group_ref[OF ok1 q] sg)
    have "map_of (Group (view h1 stat1)) g = Some (group_at h1 p)" by (simp add: view_def map_of_groups_at q)
    from map_entry_update[OF this] show "view (write_group p sg h1) stat1 = update_backend g ab f (view h1 stat1)"
      by (simp add: write_ref(2)[OF ok1 q] update_backend_def sg)
  qed
  note go = FindBackend_ref_sim(1)[OF ok, of L now g addr i] wr
  show "mapO (\<lambda>(stat, h). view h stat)
      (bindO (FindBackend_ref L now g addr i (stat, h)) (\<lambda>((p, ab), stat, h). mapO (Pair stat) (write_backend p ab f h))) =
    mapO (\<lambda>(ab, v). update_backend g ab f v) (FindBackend L now g addr i (view h stat))"
    by (cases "FindBackend_ref L now g addr i (stat, h)") (auto simp: go(1) go(3,4)[OF _ refl])
  fix stat' h'
  assume "bindO (FindBackend_ref L now g addr i (stat, h)) (\<lambda>((p, ab), stat, h). mapO (Pair stat) (write_backend p ab f h)) =
    Done (stat', h')"
  then show "confined stat h stat' h'" by (auto simp: go(2,3)[OF _ refl])
qed

interpretation route_op: stat_operation "AddRouteEntry_ref L now e" "AddRouteEntry L now e" for L now e
  using find_write by (simp add: AddRouteEntry_ref_def[abs_def] AddRouteEntry_def[abs_def])

lemma add_vnode_operation: "stat_operation (add_vnode_ref L now addr v) (add_vnode L now addr v)"
  using find_write stat_operation_skip
  by (cases "State (VN_Status v) = BackendStateEnabled")
    (simp_all add: add_vnode_ref_def[abs_def] add_vnode_def[abs_def] Let_def)

lemma set_time_operation: "stat_operation (\<lambda>(stat, h). Done (stat\<lparr>SR_Time := t\<rparr>, h)) (\<lambda>v. Done (v\<lparr>DS_Time := t\<rparr>))"
  by unfold_locales (auto simp: view_def confined_def store_ok_def refs_def)

interpretation entry_op: stat_operation "AddStatEntry_ref L unmarshal now e" "AddStatEntry L unmarshal now e"
  for L unmarshal now e
proof -
  obtain r err where r: "unmarshal (se_stat e) = (r, err)" by fastforce
  let ?t = "time_Unix (sint (Sec (Timestamp r))) (sint (USec (Timestamp r) * 1000))"
  let ?loop = "\<lambda>f. if MonitorStatus r \<noteq> ''enabled'' then Done
    else steps (map (\<lambda>x. f L now (se_addr e) (snd x)) (Backends r))"
  have "stat_operation (?loop add_vnode_ref) (?loop add_vnode)"
    by (auto intro!: stat_operation_skip stat_operation_steps add_vnode_operation)
  from stat_operation_bind[OF set_time_operation this, of ?t]
  show "stat_operation (AddStatEntry_ref L unmarshal now e) (AddStatEntry L unmarshal now e)"
    by (simp add: AddStatEntry_ref_def[abs_def] AddStatEntry_def[abs_def] r Let_def case_prod_beta' if_distrib
        cong: if_cong)
qed

section \<open>Loops over the groups\<close>

text \<open>
  A loop that replaces each group \<open>p\<close> of a list by \<open>F g\<close> of it. Its body may rely on the groups
  outside a set \<open>W\<close> of the groups it writes.
\<close>

lemma group_loop:
  assumes "distinct (map snd gs)" "snd ` set gs \<subseteq> W" "\<forall>p \<in> snd ` set gs. gs_heap h p \<noteq> None"
    and "\<And>g p k. (g, p) \<in> set gs \<Longrightarrow> gs_heap k p \<noteq> None \<Longrightarrow> \<forall>q. q \<notin> W \<longrightarrow> gs_heap k q = gs_heap h0 q \<Longrightarrow>
      body (g, p) k = mapO (\<lambda>sg. write_group p sg k) (F g (group_at k p))"
    and "\<forall>q. q \<notin> W \<longrightarrow> gs_heap h q = gs_heap h0 q"
  shows "mapO (\<lambda>h'. groups_at h' gs) (steps (map body gs) h) =
      mapM (\<lambda>(g, sg). mapO (Pair g) (F g sg)) (groups_at h gs) \<and>
    (\<forall>h'. steps (map body gs) h = Done h' \<longrightarrow> gs_next h' = gs_next h \<and>
      (\<forall>q. q \<notin> snd ` set gs \<longrightarrow> gs_heap h' q = gs_heap h q) \<and> (\<forall>p \<in> snd ` set gs. gs_heap h' p \<noteq> None))"
  using assms
proof (induction gs arbitrary: h)
  case (Cons x gs)
  obtain g p where x: "x = (g, p)" by (cases x)
  have p: "p \<in> W" "p \<notin> snd ` set gs" using Cons.prems(1,2) by (auto simp: x)
  have body: "body (g, p) h = mapO (\<lambda>sg. write_group p sg h) (F g (group_at h p))"
    by (rule Cons.prems(4)) (use Cons.prems(3,5) in \<open>auto simp: x\<close>)
  show ?case
  proof (cases "F g (group_at h p)")
    case (Done sg)
    let ?h = "write_group p sg h"
    have "\<forall>q. q \<notin> W \<longrightarrow> gs_heap ?h q = gs_heap h0 q" "\<forall>p \<in> snd ` set gs. gs_heap ?h p \<noteq> None"
      using Cons.prems(3,5) p by (auto simp: x)
    note h = this
    have d: "distinct (map snd gs)" "snd ` set gs \<subseteq> W" using Cons.prems(1,2) by (auto simp: x)
    have "mapO (\<lambda>h'. groups_at h' gs) (steps (map body gs) ?h) =
        mapM (\<lambda>(g, sg). mapO (Pair g) (F g sg)) (groups_at ?h gs) \<and>
      (\<forall>h'. steps (map body gs) ?h = Done h' \<longrightarrow> gs_next h' = gs_next ?h \<and>
        (\<forall>q. q \<notin> snd ` set gs \<longrightarrow> gs_heap h' q = gs_heap ?h q) \<and> (\<forall>p \<in> snd ` set gs. gs_heap h' p \<noteq> None))"
      by (rule Cons.IH[OF d h(2) _ h(1)]) (rule Cons.prems(4), simp_all)
    note IH = this[THEN conjunct1] this[THEN conjunct2, rule_format]
    have at: "group_at h' p = sg" if "steps (map body gs) ?h = Done h'" for h'
      using IH(2)[OF that] p by (simp add: group_at_def)
    show ?thesis
      using IH(2) at p
      by (cases "steps (map body gs) ?h")
        (auto simp: x body Done IH(1)[unfolded groups_at_other[OF p(2)], symmetric] simp del: map_eq_conv)
  qed (simp_all add: x body)
qed simp

lemma finalize_groups_mapM: "finalize_groups gs = mapM (\<lambda>(g, sg). mapO (Pair g) (StatGroup_Finalize sg)) gs"
proof (induction gs rule: finalize_groups.induct)
  case (2 g sg gs)
  then show ?case by (cases "StatGroup_Finalize sg") simp_all
qed simp

interpretation finalize_op: stat_operation DnetStat_Finalize_ref DnetStat_Finalize
proof
  fix stat h assume ok: "store_ok stat h"
  have "finalize_ref (g, p) k = mapO (\<lambda>sg. write_group p sg k) (StatGroup_Finalize (group_at k p))"
    if "gs_heap k p \<noteq> None" for g p k
    using that by (auto simp: finalize_ref_def read_group_def group_at_def)
  note body = this
  have d: "distinct (map snd (SR_Group stat))" "snd ` set (SR_Group stat) \<subseteq> refs stat"
    "\<forall>p \<in> snd ` set (SR_Group stat). gs_heap h p \<noteq> None" using ok by (simp_all add: store_ok_def refs_def)
  have loop: "mapO (\<lambda>h'. groups_at h' (SR_Group stat)) (steps (map finalize_ref (SR_Group stat)) h) =
      finalize_groups (groups_at h (SR_Group stat)) \<and>
    (\<forall>h'. steps (map finalize_ref (SR_Group stat)) h = Done h' \<longrightarrow> gs_next h' = gs_next h \<and>
      (\<forall>q. q \<notin> refs stat \<longrightarrow> gs_heap h' q = gs_heap h q) \<and> (\<forall>p \<in> refs stat. gs_heap h' p \<noteq> None))"
    unfolding finalize_groups_mapM refs_def
    by (rule group_loop[where F = "\<lambda>_. StatGroup_Finalize" and ?h0.0 = h, OF d[unfolded refs_def] body]) simp_all
  have sim: "mapO (\<lambda>h'. groups_at h' (SR_Group stat)) (steps (map finalize_ref (SR_Group stat)) h) =
      finalize_groups (groups_at h (SR_Group stat))" using loop by blast
  show "mapO (\<lambda>(stat, h). view h stat) (DnetStat_Finalize_ref (stat, h)) = DnetStat_Finalize (view h stat)"
    by (cases "steps (map finalize_ref (SR_Group stat)) h")
      (simp_all add: DnetStat_Finalize_ref_def DnetStat_Finalize_def view_def flip: sim)
  show "confined stat h stat' h'" if "DnetStat_Finalize_ref (stat, h) = Done (stat', h')" for stat' h'
    using that loop ok by (auto simp: DnetStat_Finalize_ref_def confined_def store_ok_def)
qed

section \<open>Differences\<close>

lemma keep_old_Cons:
  "keep_old_groups (x # old) new =
   keep_old_groups old (case map_of new (fst x) of None \<Rightarrow> AList.update (fst x) (snd x) new | Some _ \<Rightarrow> new)"
  by (simp add: keep_old_groups_def case_prod_beta)

lemma keep_old_Nil: "keep_old_groups [] new = new"
  by (simp add: keep_old_groups_def)

lemma keep_old_groups_at:
  "groups_at h (keep_old_groups old new) = keep_old_groups (groups_at h old) (groups_at h new)"
proof (induction old arbitrary: new)
  case (Cons x old)
  then show ?case
    by (cases x) (simp add: keep_old_Cons map_of_groups_at groups_at_update split: option.split)
qed (simp add: keep_old_Nil)

lemma keep_old_set:
  "distinct (map fst old) \<Longrightarrow> set (keep_old_groups old new) = set new \<union> {x \<in> set old. fst x \<notin> fst ` set new}"
proof (induction old arbitrary: new)
  case (Cons x old)
  then have new: "fst y \<noteq> fst x" if "y \<in> set old" for y
    using Cons.prems that by (auto simp: image_iff)
  show ?case
  proof (cases "map_of new (fst x)")
    case None
    then have "fst x \<notin> fst ` set new" by (simp add: map_of_eq_None_iff)
    then show ?thesis using Cons new by (auto simp: keep_old_Cons None update_new)
  next
    case (Some p)
    then have "fst x \<in> fst ` set new" by (metis domI dom_map_of_conv_image_fst)
    then show ?thesis using Cons by (auto simp: keep_old_Cons Some)
  qed
qed (simp add: keep_old_Nil)

lemma keep_old_distinct:
  assumes "distinct (map fst old)" "distinct (map fst new)"
    and "distinct (map snd old)" "distinct (map snd new)" "snd ` set old \<inter> snd ` set new = {}"
  shows "distinct (map fst (keep_old_groups old new)) \<and> distinct (map snd (keep_old_groups old new))"
  using assms
proof (induction old arbitrary: new)
  case (Cons x old)
  show ?case
  proof (cases "map_of new (fst x)")
    case None
    then have "fst x \<notin> fst ` set new" by (simp add: map_of_eq_None_iff)
    then have "distinct (map fst (new @ [x]))" "distinct (map snd (new @ [x]))" "snd ` set old \<inter> snd ` set (new @ [x]) = {}"
      using Cons.prems by auto
    from Cons.IH[OF _ this(1) _ this(2,3)] Cons.prems show ?thesis by (simp add: keep_old_Cons None update_new)
  next
    case (Some p)
    then show ?thesis using Cons by (simp add: keep_old_Cons)
  qed
qed (simp add: keep_old_Nil)

text \<open>The groups of \<open>prev\<close> that \<^verbatim>\<open>Diff\<close> takes over.\<close>

definition kept :: "StatRef \<Rightarrow> StatRef \<Rightarrow> nat set" where
  "kept prev stat = {p. \<exists>g. (g, p) \<in> set (SR_Group prev) \<and> g \<notin> fst ` set (SR_Group stat)}"

text \<open>The first loop of \<^verbatim>\<open>Diff\<close>: every group of the receiver gets its difference, nothing else changes.\<close>

lemma diff_loop:
  assumes "store_ok prev h" "store_ok stat h" "refs prev \<inter> refs stat = {}"
  obtains h' where "steps (map (diff_ref duration (SR_Group prev)) (SR_Group stat)) h = Done h'"
    "groups_at h' (SR_Group stat) = map (\<lambda>(g, sg). (g, case map_of (groups_at h (SR_Group prev)) g of None \<Rightarrow> sg
      | Some psg \<Rightarrow> diff_group duration psg sg)) (groups_at h (SR_Group stat))"
    "gs_next h' = gs_next h" "\<forall>q. q \<notin> refs stat \<longrightarrow> gs_heap h' q = gs_heap h q" "\<forall>p \<in> refs stat. gs_heap h' p \<noteq> None"
proof -
  define F where "F = (\<lambda>g sg. case map_of (groups_at h (SR_Group prev)) g of None \<Rightarrow> Done sg
    | Some psg \<Rightarrow> Done (diff_group duration psg sg))"
  have d: "distinct (map snd (SR_Group stat))" "snd ` set (SR_Group stat) \<subseteq> refs stat"
    "\<forall>p \<in> snd ` set (SR_Group stat). gs_heap h p \<noteq> None" using assms(2) by (simp_all add: store_ok_def refs_def)
  have body: "diff_ref duration (SR_Group prev) (g, p) k = mapO (\<lambda>sg. write_group p sg k) (F g (group_at k p))"
    if "gs_heap k p \<noteq> None" "\<forall>q. q \<notin> refs stat \<longrightarrow> gs_heap k q = gs_heap h q" for g p k
  proof (cases "map_of (SR_Group prev) g")
    case None
    have "write_group p (group_at k p) k = k" using that(1) by (auto simp: write_group_def group_at_def fun_upd_idem)
    then show ?thesis by (simp add: diff_ref_def F_def map_of_groups_at None)
  next
    case (Some q)
    then have "gs_heap k q = Some (group_at h q)" using store_ok_ref[OF assms(1) Some] that(2) assms(3) by auto
    moreover have "gs_heap k p = Some (group_at k p)" using that(1) by (auto simp: group_at_def)
    ultimately show ?thesis by (simp add: diff_ref_def F_def map_of_groups_at Some read_group_def)
  qed
  let ?loop = "steps (map (diff_ref duration (SR_Group prev)) (SR_Group stat)) h"
  let ?gs = "map (\<lambda>(g, sg). (g, case map_of (groups_at h (SR_Group prev)) g of None \<Rightarrow> sg
    | Some psg \<Rightarrow> diff_group duration psg sg)) (groups_at h (SR_Group stat))"
  have "mapO (\<lambda>h'. groups_at h' (SR_Group stat)) ?loop =
      mapM (\<lambda>(g, sg). mapO (Pair g) (F g sg)) (groups_at h (SR_Group stat)) \<and>
    (\<forall>h'. ?loop = Done h' \<longrightarrow> gs_next h' = gs_next h \<and>
      (\<forall>q. q \<notin> refs stat \<longrightarrow> gs_heap h' q = gs_heap h q) \<and> (\<forall>p \<in> refs stat. gs_heap h' p \<noteq> None))"
    unfolding refs_def by (rule group_loop[where F = F and ?h0.0 = h, OF d[unfolded refs_def] body]) (simp_all add: refs_def)
  moreover have "mapM (\<lambda>(g, sg). mapO (Pair g) (F g sg)) (groups_at h (SR_Group stat)) = Done ?gs"
    by (rule mapM_all_Done) (auto simp: F_def split: option.split)
  ultimately have loop: "mapO (\<lambda>h'. groups_at h' (SR_Group stat)) ?loop = Done ?gs"
    "\<And>h'. ?loop = Done h' \<Longrightarrow> gs_next h' = gs_next h \<and>
      (\<forall>q. q \<notin> refs stat \<longrightarrow> gs_heap h' q = gs_heap h q) \<and> (\<forall>p \<in> refs stat. gs_heap h' p \<noteq> None)"
    by metis+
  then obtain h' where h': "?loop = Done h'" "groups_at h' (SR_Group stat) = ?gs" unfolding mapO_eq_Done by metis
  show thesis using that[OF h'] loop(2)[OF h'(1)] by blast
qed

lemma Diff_ref_result:
  assumes "store_ok prev h" "store_ok stat h" "refs prev \<inter> refs stat = {}"
  obtains stat' h' where "Diff_ref (Prev prev) (stat, h) = Done (stat', h')"
    "SR_Group stat' = keep_old_groups (SR_Group prev) (SR_Group stat)"
    "view h' stat' = Diff (Prev (view h prev)) (view h stat)" "store_ok stat' h'" "refs stat' = refs stat \<union> kept prev stat"
    "\<forall>p. p \<notin> refs stat \<longrightarrow> gs_heap h' p = gs_heap h p" "gs_next h' = gs_next h"
proof -
  define duration where "duration = Seconds (time_Sub (SR_Time stat) (SR_Time prev))"
  obtain h' where h': "steps (map (diff_ref duration (SR_Group prev)) (SR_Group stat)) h = Done h'"
    "groups_at h' (SR_Group stat) = map (\<lambda>(g, sg). (g, case map_of (groups_at h (SR_Group prev)) g of None \<Rightarrow> sg
      | Some psg \<Rightarrow> diff_group duration psg sg)) (groups_at h (SR_Group stat))"
    "gs_next h' = gs_next h" "\<forall>q. q \<notin> refs stat \<longrightarrow> gs_heap h' q = gs_heap h q" "\<forall>p \<in> refs stat. gs_heap h' p \<noteq> None"
    by (rule diff_loop[OF assms])
  let ?stat = "stat\<lparr>SR_Group := keep_old_groups (SR_Group prev) (SR_Group stat)\<rparr>"
  have dist: "distinct (map fst (SR_Group prev))" "distinct (map fst (SR_Group stat))"
      "distinct (map snd (SR_Group prev))" "distinct (map snd (SR_Group stat))"
      "snd ` set (SR_Group prev) \<inter> snd ` set (SR_Group stat) = {}"
    using assms by (auto simp: store_ok_def refs_def)
  have "kept prev stat = snd ` {x \<in> set (SR_Group prev). fst x \<notin> fst ` set (SR_Group stat)}"
    by (auto simp: kept_def image_iff)
  then have refs: "refs ?stat = refs stat \<union> kept prev stat"
    by (simp add: refs_def keep_old_set[OF dist(1)] image_Un)
  have old: "groups_at h' (SR_Group prev) = groups_at h (SR_Group prev)"
    using h'(4) assms(3) by (force simp: group_at_def refs_def)
  show thesis
  proof (rule that)
    show "Diff_ref (Prev prev) (stat, h) = Done (?stat, h')" using h'(1) by (simp add: duration_def)
    show "view h' ?stat = Diff (Prev (view h prev)) (view h stat)"
      using old h'(2)[unfolded duration_def]
      by (simp del: map_map map_eq_conv add: view_def keep_old_groups_at Let_def)
    have "kept prev stat \<subseteq> refs prev" by (force simp: kept_def refs_def)
    then show "store_ok ?stat h'"
      using keep_old_distinct[OF dist] assms h'(3,4,5) refs unfolding store_ok_def by (auto simp: subset_iff)
  qed (use refs h'(3,4) in simp_all)
qed

text \<open>\<^verbatim>\<open>Finalize\<close> writes exactly the groups of its receiver, shared or not.\<close>

lemma mapM_maps: "mapM F (map a xs) = Done (map b xs) \<Longrightarrow> x \<in> set xs \<Longrightarrow> F (a x) = Done (b x)"
  by (induction xs) auto

lemma Finalize_ref_groups:
  assumes "store_ok stat h" "DnetStat_Finalize_ref (stat, h) = Done (stat2, h2)"
  shows "p \<in> refs stat \<Longrightarrow> StatGroup_Finalize (group_at h p) = Done (group_at h2 p)"
    and "p < gs_next h \<Longrightarrow> p \<notin> refs stat \<Longrightarrow> group_at h2 p = group_at h p"
proof -
  have "stat2 = stat" using assms(2) by (auto simp: DnetStat_Finalize_ref_def)
  then have "finalize_groups (groups_at h (SR_Group stat)) = Done (groups_at h2 (SR_Group stat))"
    using finalize_op.result[OF assms] by (simp add: DnetStat_Finalize_def view_def)
  then have "mapM (\<lambda>(g, sg). mapO (Pair g) (StatGroup_Finalize sg)) (groups_at h (SR_Group stat)) =
      Done (groups_at h2 (SR_Group stat))" by (simp add: finalize_groups_mapM)
  from mapM_maps[OF this] show "StatGroup_Finalize (group_at h p) = Done (group_at h2 p)" if "p \<in> refs stat"
    using that by (fastforce simp: refs_def)
  show "group_at h2 p = group_at h p" if "p < gs_next h" "p \<notin> refs stat"
    using that finalize_op.keeps[OF assms] by (simp add: confined_def group_at_def)
qed

lemma kept_refs:
  assumes "store_ok prev h" "refs prev \<inter> refs stat = {}"
  shows "(refs stat \<union> kept prev stat) \<inter> refs prev = kept prev stat"
    and "(g, p) \<in> set (SR_Group prev) \<Longrightarrow> p \<in> kept prev stat \<longleftrightarrow> g \<notin> fst ` set (SR_Group stat)"
proof -
  have "inj_on snd (set (SR_Group prev))" using assms(1) by (simp add: store_ok_def distinct_map)
  then show "(g, p) \<in> set (SR_Group prev) \<Longrightarrow> p \<in> kept prev stat \<longleftrightarrow> g \<notin> fst ` set (SR_Group stat)"
    unfolding kept_def inj_on_def by fastforce
  have "kept prev stat \<subseteq> refs prev" by (force simp: kept_def refs_def)
  then show "(refs stat \<union> kept prev stat) \<inter> refs prev = kept prev stat" using assms(2) by blast
qed

end
