(* ===== verification/StreamHttp.thy ===== *)
theory StreamHttp
  imports Session Results
begin

text \<open>
  \<^verbatim>\<open>StreamHTTP\<close> of \<^verbatim>\<open>session.go\<close>: read an object piece by piece and write every piece into an
  HTTP response before the next one is asked for. The rest of the program and the servers,
  which run while the loop waits on a response channel, are an argument \<open>env\<close>: given the
  channel and the world it answers with what the channel yields until it is closed.
\<close>

section \<open>Definitions\<close>

text \<open>What is done to the \<^verbatim>\<open>http.ResponseWriter\<close>; the result of \<^verbatim>\<open>Write\<close> is ignored.\<close>

datatype http_event =
    HeaderSet string string
  | WriteHeader int
  | HttpWrite bytes

type_synonym range_env = "ptr \<Rightarrow> world \<Rightarrow> (elem list \<times> world) outcome"

definition could_not_read :: error where
  "could_not_read = EDnet \<lparr>Code = - 6, Flags = 0, Message = ''could not read anything at all''\<rparr>"

definition stream_chunk :: "u64 \<Rightarrow> u64" where
  "stream_chunk sz = (if sz > max_chunk_size \<or> sz = 0 then max_chunk_size else sz)"

text \<open>The size to send and the header, set by a piece at the original offset.\<close>

definition stream_header ::
    "u64 \<Rightarrow> readResult \<Rightarrow> u64 \<Rightarrow> u64 \<Rightarrow> http_event list \<Rightarrow> u64 \<times> http_event list" where
  "stream_header orig_offset rd offset sz h =
     (if offset = orig_offset
      then let rest = IO_TotalSize (readResult_IO rd) - offset;
               sz = (if sz = 0 \<or> sz > rest then rest else sz)
           in (sz, h @ [HeaderSet ''Content-Length'' (dec_u64 sz), WriteHeader 200])
      else (sz, h))"

text \<open>The loop over one response channel: errors are passed over, the first piece ends it.\<close>

fun stream_range ::
    "u64 \<Rightarrow> elem list \<Rightarrow> error option \<Rightarrow> u64 \<Rightarrow> u64 \<Rightarrow> http_event list \<Rightarrow>
     (error option \<times> u64 \<times> u64 \<times> http_event list) outcome" where
  "stream_range orig_offset [] err offset sz h = Done (err, offset, sz, h)"
| "stream_range orig_offset (ReadE rd # es) err offset sz h =
     (case readResult_Error rd of
        Some e \<Rightarrow> stream_range orig_offset es (Some e) offset sz h
      | None \<Rightarrow>
          let (sz, h) = stream_header orig_offset rd offset sz h;
              data = readResult_Data rd; n = of_nat (length data)
          in Done (None, offset + n, sz - n, h @ [HttpWrite data]))"
| "stream_range orig_offset (_ # es) err offset sz h = Panic TypeAssertion"

definition stream_pass ::
    "range_env \<Rightarrow> Session \<Rightarrow> ptr \<Rightarrow> u64 \<Rightarrow> u64 \<Rightarrow> u64 \<Rightarrow> http_event list \<Rightarrow> world \<Rightarrow>
     ((error option \<times> u64 \<times> u64 \<times> http_event list) \<times> world) outcome" where
  "stream_pass env s key orig_offset offset sz h w =
     bindO (ReadKey s key offset (stream_chunk sz) w) (\<lambda>(ch, w).
       bindO (env ch w) (\<lambda>(es, w).
         mapO (\<lambda>r. (r, w)) (stream_range orig_offset es (Some could_not_read) offset sz h)))"

definition stream_error :: "u64 \<Rightarrow> u64 \<Rightarrow> u64 \<Rightarrow> u64 \<Rightarrow> u64 \<Rightarrow> error \<Rightarrow> error" where
  "stream_error orig_offset offset chunk_size orig_size sz err =
     EDnet \<lparr>Code = ErrorStatus err, Flags = 0,
       Message = ''could not stream data: current-offset: '' @ dec_u64 orig_offset @ ''/'' @ dec_u64 offset @
         '', current-size: '' @ dec_u64 chunk_size @ '', rest-size: '' @ dec_u64 orig_size @ ''/'' @ dec_u64 sz @
         '': '' @ Error err\<rparr>"

text \<open>The outer loop; its condition \<^verbatim>\<open>size >= 0\<close> always holds for an unsigned number.\<close>

partial_function (option) StreamHTTP_loop ::
    "range_env \<Rightarrow> Session \<Rightarrow> ptr \<Rightarrow> u64 \<Rightarrow> u64 \<Rightarrow> u64 \<Rightarrow> u64 \<Rightarrow> http_event list \<Rightarrow> world \<Rightarrow>
     (error option \<times> http_event list \<times> world) outcome option" where
  "StreamHTTP_loop env s key orig_offset orig_size offset sz h w =
     (case stream_pass env s key orig_offset offset sz h w of
        Panic p \<Rightarrow> Some (Panic p)
      | Block \<Rightarrow> Some Block
      | Done ((err, offset', sz', h'), w') \<Rightarrow>
          (case err of
             Some e \<Rightarrow>
               Some (Done (Some (stream_error orig_offset offset' (stream_chunk sz) orig_size sz' e), h', w'))
           | None \<Rightarrow>
               if sz' = 0 then Some (Done (None, h', w'))
               else StreamHTTP_loop env s key orig_offset orig_size offset' sz' h' w'))"

text \<open>\<^verbatim>\<open>StreamHTTP\<close>: the key is freed when the function returns.\<close>

definition StreamHTTP ::
    "range_env \<Rightarrow> Session \<Rightarrow> string \<Rightarrow> u64 \<Rightarrow> u64 \<Rightarrow> world \<Rightarrow>
     (error option \<times> http_event list \<times> world) outcome option" where
  "StreamHTTP env s kstr offset sz w =
     (case NewKey [ArgString kstr] w of
        (Inl err, w) \<Rightarrow> Some (Done (Some err, [], w))
      | (Inr key, w) \<Rightarrow>
          map_option (\<lambda>r. bindO r (\<lambda>(err, h, w). mapO (\<lambda>w. (err, h, w)) (Key_Free key w)))
            (StreamHTTP_loop env s key offset sz offset sz [] w))"

text \<open>
  What a read of an object has to yield: the first value that is no error carries the size
  of the object and bytes from the offset asked for, no more than asked for, and at least
  one when there is one.
\<close>

definition good_read :: "bytes \<Rightarrow> u64 \<Rightarrow> u64 \<Rightarrow> elem list \<Rightarrow> bool" where
  "good_read obj offset n es \<longleftrightarrow>
     (\<exists>errs rd rest k. es = map (\<lambda>e. ReadE (readResult_err e)) errs @ ReadE rd # rest \<and>
        rr_err rd = None \<and> IO_TotalSize (rr_ioattr rd) = of_nat (length obj) \<and>
        rr_data rd = take k (drop (unat offset) obj) \<and> k \<le> unat n \<and>
        (unat offset < length obj \<longrightarrow> 0 < k))"

text \<open>While \<open>I\<close> holds, every read of some bytes of the key can be started, yields that, and keeps \<open>I\<close>.\<close>

definition serves :: "(world \<Rightarrow> bool) \<Rightarrow> range_env \<Rightarrow> Session \<Rightarrow> ptr \<Rightarrow> bytes \<Rightarrow> bool" where
  "serves I env s key obj \<longleftrightarrow>
     (\<forall>w offset n. I w \<longrightarrow> unat offset \<le> length obj \<longrightarrow> n \<noteq> 0 \<longrightarrow>
        (\<exists>ch w1 es w2. ReadKey s key offset n w = Done (ch, w1) \<and> env ch w1 = Done (es, w2) \<and>
           I w2 \<and> good_read obj offset n es))"

text \<open>While \<open>I\<close> holds, every read of the key yields one empty piece of an object of \<open>total_size\<close> bytes.\<close>

definition serves_nothing :: "(world \<Rightarrow> bool) \<Rightarrow> range_env \<Rightarrow> Session \<Rightarrow> ptr \<Rightarrow> u64 \<Rightarrow> bool" where
  "serves_nothing I env s key total_size \<longleftrightarrow>
     (\<forall>w offset n. I w \<longrightarrow>
        (\<exists>ch w1 rd w2. ReadKey s key offset n w = Done (ch, w1) \<and> env ch w1 = Done ([ReadE rd], w2) \<and>
           I w2 \<and> rr_err rd = None \<and> rr_data rd = [] \<and> IO_TotalSize (rr_ioattr rd) = total_size))"

text \<open>The part of an object a request asks for; a size of 0 is everything.\<close>

definition stream_slice :: "bytes \<Rightarrow> u64 \<Rightarrow> u64 \<Rightarrow> bytes" where
  "stream_slice obj offset sz =
     (if sz = 0 then drop (unat offset) obj else take (unat sz) (drop (unat offset) obj))"

text \<open>A complete response: one header with the right length, then the bytes.\<close>

definition response_of :: "bytes \<Rightarrow> http_event list \<Rightarrow> bool" where
  "response_of body h \<longleftrightarrow>
     (\<exists>ds. h = [HeaderSet ''Content-Length'' (dec_u64 (of_nat (length body) :: u64)), WriteHeader 200] @ map HttpWrite ds \<and>
        concat ds = body)"

section \<open>Lemmas\<close>

lemma stream_range_skip:
  "rr_err rd = None \<Longrightarrow>
     stream_range oo (map (\<lambda>e. ReadE (readResult_err e)) errs @ ReadE rd # rest) err offset sz h =
     stream_range oo [ReadE rd] None offset sz h"
  by (induction errs arbitrary: err) (simp_all add: readResult_err_def)

lemma stream_chunk_pos: "stream_chunk sz \<noteq> 0"
  by (auto simp: stream_chunk_def max_chunk_size_def)

lemma servesE:
  assumes "serves I env s key obj" "I w" "unat offset \<le> length obj"
  obtains w' rd k where
    "stream_pass env s key oo offset sz h w =
       mapO (\<lambda>r. (r, w')) (stream_range oo [ReadE rd] None offset sz h)"
    "I w'" "rr_err rd = None" "IO_TotalSize (rr_ioattr rd) = of_nat (length obj)"
    "rr_data rd = take k (drop (unat offset) obj)" "k \<le> unat (stream_chunk sz)"
    "unat offset < length obj \<longrightarrow> 0 < k"
proof -
  obtain ch w1 es w2 where *: "ReadKey s key offset (stream_chunk sz) w = Done (ch, w1)"
      "env ch w1 = Done (es, w2)" "I w2" "good_read obj offset (stream_chunk sz) es"
    using assms stream_chunk_pos unfolding serves_def by blast
  from *(4) obtain errs rd rest k where g: "es = map (\<lambda>e. ReadE (readResult_err e)) errs @ ReadE rd # rest"
      "rr_err rd = None" "IO_TotalSize (rr_ioattr rd) = of_nat (length obj)"
      "rr_data rd = take k (drop (unat offset) obj)" "k \<le> unat (stream_chunk sz)"
      "unat offset < length obj \<longrightarrow> 0 < k"
    unfolding good_read_def by blast
  have "stream_pass env s key oo offset sz h w =
       mapO (\<lambda>r. (r, w2)) (stream_range oo [ReadE rd] None offset sz h)"
    using g(1,2) *(1,2) by (simp add: stream_pass_def stream_range_skip)
  then show thesis using that *(3) g(2-) by blast
qed

lemma stream_chunk_le: "sz \<noteq> 0 \<Longrightarrow> stream_chunk sz \<le> sz"
  by (auto simp: stream_chunk_def)

lemma loop_step:
  assumes "stream_pass env s key oo offset sz h w = Done ((None, offset', sz', h'), w')"
  shows "StreamHTTP_loop env s key oo osz offset sz h w =
    (if sz' = 0 then Some (Done (None, h', w')) else StreamHTTP_loop env s key oo osz offset' sz' h' w')"
  by (subst StreamHTTP_loop.simps) (simp add: assms)

text \<open>After the first piece: the rest is written, whatever the sizes of the pieces.\<close>

lemma loop_rest:
  assumes "serves I env s key obj" "I w" "unat oo < unat offset" "sz \<noteq> 0"
    and "unat offset + unat sz \<le> length obj" "length obj < 2 ^ 64"
  shows "\<exists>ds w'. StreamHTTP_loop env s key oo osz offset sz h w = Some (Done (None, h @ map HttpWrite ds, w')) \<and>
    I w' \<and> concat ds = take (unat sz) (drop (unat offset) obj)"
  using assms
proof (induction "unat sz" arbitrary: offset sz h w rule: less_induct)
  case less
  have pos: "0 < unat sz" using less.prems(4) by (simp add: unat_gt_0)
  have le: "unat offset \<le> length obj" using less.prems(5) by simp
  obtain w1 rd k where p: "stream_pass env s key oo offset sz h w =
       mapO (\<lambda>r. (r, w1)) (stream_range oo [ReadE rd] None offset sz h)"
    and rd: "I w1" "rr_err rd = None" "rr_data rd = take k (drop (unat offset) obj)"
      "k \<le> unat (stream_chunk sz)" "unat offset < length obj \<longrightarrow> 0 < k"
    by (rule servesE[OF less.prems(1,2) le, where oo = oo and sz = sz and h = h])
  have k: "0 < k" "k \<le> unat sz"
    using rd(4,5) less.prems(5) pos stream_chunk_le[OF less.prems(4)] by (auto simp: word_le_nat_alt)
  let ?n = "of_nat (length (rr_data rd)) :: u64"
  have len: "length (rr_data rd) = k" using rd(3) k less.prems(5) by simp
  have n: "unat ?n = k" using unat_add_small[of "0 :: u64" k] k less.prems(5,6) by (simp add: len)
  have o': "unat (offset + ?n) = unat offset + k"
    using unat_add_small[of offset k] k less.prems(5,6) by (simp add: len)
  have s': "unat (sz - ?n) = unat sz - k" using n k by (simp add: unat_sub word_le_nat_alt)
  have pass: "stream_pass env s key oo offset sz h w =
      Done ((None, offset + ?n, sz - ?n, h @ [HttpWrite (rr_data rd)]), w1)"
    using p rd(2) less.prems(3) by (auto simp: stream_header_def Let_def)
  show ?case
  proof (cases "sz - ?n = 0")
    case True
    then have "unat sz = k" using s' k(2) by (metis diff_is_0_eq le_antisym unat_0)
    then show ?thesis
      using True loop_step[OF pass] rd(1,3) by (intro exI[of _ "[rr_data rd]"]) auto
  next
    case False
    obtain ds w' where ih: "StreamHTTP_loop env s key oo osz (offset + ?n) (sz - ?n) (h @ [HttpWrite (rr_data rd)]) w1 =
        Some (Done (None, (h @ [HttpWrite (rr_data rd)]) @ map HttpWrite ds, w'))" "I w'"
        "concat ds = take (unat (sz - ?n)) (drop (unat (offset + ?n)) obj)"
      using less.hyps[of "sz - ?n" w1 "offset + ?n"] less.prems rd(1) False k o' s' by fastforce
    have "concat (rr_data rd # ds) = take (unat sz) (drop (unat offset) obj)"
      using ih(3) rd(3) k(2) o' s' take_add[of k "unat sz - k" "drop (unat offset) obj"] by (simp add: add.commute)
    then show ?thesis
      using ih(1,2) loop_step[OF pass] False by (intro exI[of _ "rr_data rd # ds"]) auto
  qed
qed

lemma slice_length:
  assumes "unat offset \<le> length obj" "length obj < 2 ^ 64"
  shows "(of_nat (length (stream_slice obj offset sz)) :: u64) =
    (if sz = 0 \<or> sz > of_nat (length obj) - offset then of_nat (length obj) - offset else sz)"
proof -
  have u: "unat (of_nat (length obj) :: u64) = length obj"
    using unat_add_small[of "0 :: u64" "length obj"] assms(2) by simp
  have r: "unat (of_nat (length obj) - offset :: u64) = length obj - unat offset"
    using assms(1) u by (simp add: unat_sub word_le_nat_alt)
  then have r': "(of_nat (length obj - unat offset) :: u64) = of_nat (length obj) - offset"
    by (simp flip: r)
  show ?thesis
    using r r' word_unat_eq_iff[of "of_nat (length obj) - offset" sz] by (auto simp: stream_slice_def word_less_nat_alt min_def not_less)
qed

text \<open>The whole loop.\<close>

lemma loop_response:
  assumes "serves I env s key obj" "I w" "unat offset \<le> length obj" "length obj < 2 ^ 64"
  shows "\<exists>h w'. StreamHTTP_loop env s key offset sz offset sz [] w = Some (Done (None, h, w')) \<and>
    I w' \<and> response_of (stream_slice obj offset sz) h"
proof -
  obtain w1 rd k where p: "stream_pass env s key offset offset sz [] w =
       mapO (\<lambda>r. (r, w1)) (stream_range offset [ReadE rd] None offset sz [])"
    and rd: "I w1" "rr_err rd = None" "IO_TotalSize (rr_ioattr rd) = of_nat (length obj)"
      "rr_data rd = take k (drop (unat offset) obj)" "k \<le> unat (stream_chunk sz)"
      "unat offset < length obj \<longrightarrow> 0 < k"
    by (rule servesE[OF assms(1,2,3), where oo = offset and sz = sz and h = "[]"])
  let ?body = "stream_slice obj offset sz" and ?d = "rr_data rd"
  let ?sz = "of_nat (length ?body) :: u64" and ?n = "of_nat (length ?d) :: u64"
  let ?hd = "[HeaderSet ''Content-Length'' (dec_u64 ?sz), WriteHeader 200]"
  have pass: "stream_pass env s key offset offset sz [] w =
      Done ((None, offset + ?n, ?sz - ?n, ?hd @ [HttpWrite ?d]), w1)"
    using p rd(2,3) slice_length[OF assms(3,4), of sz] by (simp add: stream_header_def Let_def)
  have body: "length ?body \<le> length obj - unat offset" by (simp add: stream_slice_def)
  have d: "?d = take (length ?d) ?body" "length ?d \<le> length ?body"
    using rd(4,5) stream_chunk_le[of sz] by (auto simp: stream_slice_def word_le_nat_alt min_def)
  have usz: "unat ?sz = length ?body" and un: "unat ?n = length ?d"
    using unat_add_small[of "0 :: u64" "length ?body"] unat_add_small[of "0 :: u64" "length ?d"] body d(2) assms(4)
    by simp_all
  have s': "unat (?sz - ?n) = length ?body - length ?d" using usz un d(2) by (simp add: unat_sub word_le_nat_alt)
  have o': "unat (offset + ?n) = unat offset + length ?d"
    using unat_add_small[of offset "length ?d"] body d(2) assms(3,4) by simp
  have rest: "drop (length ?d) ?body = take (length ?body - length ?d) (drop (unat offset + length ?d) obj)"
    by (auto simp: stream_slice_def drop_take min_def ac_simps)
  show ?thesis
  proof (cases "?sz - ?n = 0")
    case True
    then have "length ?d = length ?body" using s' d(2) by simp
    then have "?d = ?body" using d(1) by (metis order_refl take_all)
    then show ?thesis
      using True loop_step[OF pass] rd(1) by (auto simp: response_of_def intro!: exI[of _ "[?d]"])
  next
    case False
    have "0 < length ?d" using False s' d(2) body rd(4,6) by (cases "unat offset < length obj") auto
    then obtain ds w' where "StreamHTTP_loop env s key offset sz (offset + ?n) (?sz - ?n) (?hd @ [HttpWrite ?d]) w1 =
        Some (Done (None, (?hd @ [HttpWrite ?d]) @ map HttpWrite ds, w'))" "I w'"
        "concat ds = take (unat (?sz - ?n)) (drop (unat (offset + ?n)) obj)"
      using loop_rest[OF assms(1) rd(1) _ False _ assms(4), of offset "offset + ?n" sz] o' s' d(2) body assms(3)
      by fastforce
    moreover have "concat (?d # ds) = ?body" using calculation(3) rest d(1) s' o' by (metis append_take_drop_id concat.simps(2))
    ultimately show ?thesis
      using loop_step[OF pass] False by (auto simp: response_of_def intro!: exI[of _ "?d # ds"])
  qed
qed

text \<open>The whole function.\<close>

lemma StreamHTTP_response:
  assumes "NewKey [ArgString kstr] w = (Inr key, w1)" "I w1" "\<And>w. I w \<Longrightarrow> ckeys w key \<noteq> None"
    and "serves I env s key obj" "unat offset \<le> length obj" "length obj < 2 ^ 64"
  shows "\<exists>h w'. StreamHTTP env s kstr offset sz w = Some (Done (None, h, w')) \<and>
    ckeys w' key = None \<and> response_of (stream_slice obj offset sz) h"
proof -
  obtain h w' where *: "StreamHTTP_loop env s key offset sz offset sz [] w1 = Some (Done (None, h, w'))"
      "I w'" "response_of (stream_slice obj offset sz) h"
    using loop_response[OF assms(4,2,5,6)] by blast
  then show ?thesis using assms(1) assms(3)[OF *(2)] by (auto simp: StreamHTTP_def Key_Free_def)
qed

text \<open>The loop makes no progress on empty pieces and never ends.\<close>

lemma empty_pass:
  assumes "serves_nothing I env s key total_size" "I w" "total_size \<noteq> offset"
  obtains h' w' sz' where
    "stream_pass env s key offset offset sz h w = Done ((None, offset, sz', h'), w')" "I w'" "sz' \<noteq> 0"
proof -
  obtain ch w1 rd w2 where *: "ReadKey s key offset (stream_chunk sz) w = Done (ch, w1)"
      "env ch w1 = Done ([ReadE rd], w2)" "I w2" "rr_err rd = None" "rr_data rd = []"
      "IO_TotalSize (rr_ioattr rd) = total_size"
    using assms(1,2) unfolding serves_nothing_def by blast
  obtain sz' h' where "stream_header offset rd offset sz h = (sz', h')" "sz' \<noteq> 0"
    using *(6) assms(3) by (auto simp: stream_header_def Let_def)
  then show thesis using that * by (simp add: stream_pass_def)
qed

lemma loop_endless:
  assumes "serves_nothing I env s key total_size" "I w" "total_size \<noteq> offset"
  shows "StreamHTTP_loop env s key offset osz offset sz h w = None"
proof -
  define P where "P env0 s0 key0 oo (os :: u64) off (sz0 :: u64) (h0 :: http_event list) w0
      (r :: (error option \<times> http_event list \<times> world) outcome) \<longleftrightarrow>
      \<not> (env0 = env \<and> s0 = s \<and> key0 = key \<and> oo = offset \<and> off = offset \<and> I w0)"
    for env0 s0 key0 oo os off sz0 h0 w0 r
  have "P env s key offset osz offset sz h w r"
    if "StreamHTTP_loop env s key offset osz offset sz h w = Some r" for r
  proof (rule StreamHTTP_loop.raw_induct[OF _ that, where P = P])
    fix f env0 s0 key0 oo os off sz0 h0 w0 r0
    assume ih: "\<And>env0 s0 key0 oo os off sz0 h0 w0 r0.
        f env0 s0 key0 oo os off sz0 h0 w0 = Some r0 \<Longrightarrow> P env0 s0 key0 oo os off sz0 h0 w0 r0"
      and body: "(case stream_pass env0 s0 key0 oo off sz0 h0 w0 of
          Done ((err, offset', sz', h'), w') \<Rightarrow>
            (case err of Some e \<Rightarrow> Some (Done (Some (stream_error oo offset' (stream_chunk sz0) os sz' e), h', w'))
             | None \<Rightarrow> if sz' = 0 then Some (Done (None, h', w')) else f env0 s0 key0 oo os offset' sz' h' w')
        | Panic p \<Rightarrow> Some (Panic p) | Block \<Rightarrow> Some Block) = Some r0"
    show "P env0 s0 key0 oo os off sz0 h0 w0 r0"
      unfolding P_def
    proof safe
      assume same: "env0 = env" "s0 = s" "key0 = key" "oo = offset" "off = offset" and "I w0"
      from empty_pass[OF assms(1) this(6) assms(3), of sz0 h0] obtain h' w' sz' where
        pass: "stream_pass env s key offset offset sz0 h0 w0 = Done ((None, offset, sz', h'), w')" "I w'" "sz' \<noteq> 0"
        by metis
      then have "f env s key offset os offset sz' h' w' = Some r0" using body same by simp
      then show False using ih[unfolded P_def] pass(2) by blast
    qed
  qed
  then show ?thesis
    using assms(2) by (cases "StreamHTTP_loop env s key offset osz offset sz h w") (auto simp: P_def)
qed

end
