(* ===== verification/Liveness.thy ===== *)
theory Liveness
  imports Objects
begin

text \<open>
  No request can be stuck for good. Every channel the binding makes has a buffer of at least
  one value, so a consumer that keeps receiving makes room for the callback that waits on
  it; and a final callback with an error always ends its request. From every reachable
  state the requests in flight can therefore be ended one after the other.
\<close>

section \<open>Definitions\<close>

text \<open>A failure the library can report as the end of any request.\<close>

definition failure :: error_info where
  "failure = \<lparr>ei_code = - 1, ei_message = ''timed out''\<rparr>"

definition fail_with :: "ccall \<Rightarrow> completion" where
  "fail_with c = (if is_backend_fn (call_fn c) then BackendDone [] failure else Final failure)"

text \<open>The events a client waits for: its own receives and the ends of requests.\<close>

fun draining :: "event \<Rightarrow> bool" where
  "draining (Receive ch) = True"
| "draining (Complete c x) = True"
| "draining _ = False"

section \<open>Ending requests\<close>

text \<open>A consumer that receives long enough empties its channel, and touches nothing else.\<close>

lemma receives_room:
  assumes "chans w p = Some b" "\<not> ch_closed b" "0 < ch_cap b"
  shows "\<exists>w' b'. run L (replicate (length (ch_buf b)) (Receive p)) w w' \<and> chans w' p = Some b' \<and>
    chan_has_room b' \<and> inflight w' = inflight w \<and> pool w' = pool w \<and> wchunks w' = wchunks w"
  using assms
proof (induction "ch_buf b" arbitrary: w b)
  case Nil
  then show ?case by (auto simp: chan_has_room_def intro: run_Nil)
next
  case (Cons v vs)
  let ?b = "b\<lparr>ch_buf := vs, ch_out := ch_out b @ [v]\<rparr>" and ?w = "receive p w"
  have w: "?w = w\<lparr>chans := (chans w)(p \<mapsto> ?b)\<rparr>"
    using Cons.prems(1) Cons.hyps(2)[symmetric] by (simp add: receive_def chan_recv_def)
  obtain w' b' where "run L (replicate (length vs) (Receive p)) ?w w'" "chans w' p = Some b'" "chan_has_room b'"
      "inflight w' = inflight w" "pool w' = pool w" "wchunks w' = wchunks w"
    using Cons.hyps(1)[of ?b ?w] Cons.prems by (auto simp: w)
  moreover from this(1) have "run L (replicate (length (ch_buf b)) (Receive p)) w w'"
    using Cons.hyps(2)[symmetric] by (auto intro: run_Cons)
  ultimately show ?case by blast
qed

text \<open>A failure ends its request and starts no other.\<close>

lemma fail_ok: "completion_ok (call_fn c) (fail_with c)"
  by (simp add: fail_with_def failure_def)

lemma call_final_ends:
  assumes "call_final_fn f (Some e) w = Done w'"
  shows "inflight w' = inflight w"
proof (cases "fin_wc f")
  case None
  then show ?thesis using final_effectD(5)[OF call_final_effect[OF assms]] by blast
next
  case (Some p)
  then have f: "f = WriteChunkFin p" by (cases f) auto
  then obtain v where "wchunks w p = Some v" "wc_fail v e w = Done w'"
    using assms by (auto simp: WriteChunk_onChunkFinish_def split: option.splits)
  then show ?thesis
    by (auto simp: wc_fail_def wc_finish_def delete_ctx_def Delete_def send_Done close_chan_Done)
qed

lemma fail_ends:
  assumes "inv w" "c \<in> set (inflight w)" "complete c (fail_with c) w = Done w'"
  shows "inflight w' = filter (\<lambda>d. d \<noteq> c) (inflight w)"
  using invD(3)[OF assms(1,2)]
proof (cases rule: call_ok_cases)
  case (final f)
  let ?w = "w\<lparr>inflight := filter (\<lambda>d. d \<noteq> c) (inflight w)\<rparr>"
  have "fail_with c = Final failure"
    using fn_ok_not_backend[OF fin_callD(1)[OF final(2)]] by (simp add: fail_with_def)
  then obtain e where "call_final_fn f (Some e) ?w = Done w'"
    using assms(3) final(1)
    by (auto simp: complete_def on_finish_def go_final_callback_def with_context_found failure_def split: if_splits)
  then show ?thesis using call_final_ends by fastforce
next
  case (backend ch)
  then have "fail_with c = BackendDone [] failure" by (simp add: fail_with_def)
  then show ?thesis
    using assms(3) backend(1)
    by (auto simp: complete_def on_backend_status_def go_backend_status_error_def with_context_found failure_def
        Backends_onFinish_def delete_ctx_def Delete_def send_Done close_chan_Done split: if_splits)
qed

text \<open>One request: receive until there is room, then fail it.\<close>

lemma end_request:
  assumes "inv w" "objects_ok w" "c \<in> set (inflight w)"
  shows "\<exists>es w'. run L es w w' \<and> list_all draining es \<and> inflight w' = filter (\<lambda>d. d \<noteq> c) (inflight w)"
proof -
  have ok: "call_ok w c" using invD(3)[OF assms(1,3)] .
  obtain es w1 where w1: "run L es w w1" "list_all draining es" "inflight w1 = inflight w" "may_proceed w1 c"
  proof (cases "resp_chan w c")
    case None
    then show thesis using that[of "[]" w] by (auto simp: may_proceed_def intro: run_Nil)
  next
    case (Some p)
    then obtain b where b: "chans w p = Some b" "\<not> ch_closed b" "0 < ch_cap b"
      using resp_chan_open[OF ok] assms(2) by (auto simp: open_chan_def objects_ok_def)
    obtain w1 b1 where r: "run L (replicate (length (ch_buf b)) (Receive p)) w w1" "chans w1 p = Some b1"
        "chan_has_room b1" "inflight w1 = inflight w" "pool w1 = pool w" "wchunks w1 = wchunks w"
      using receives_room[OF b, of L] by blast
    then have "resp_chan w1 c = Some p" using Some by (simp add: resp_chan_def cong: option.case_cong goval.case_cong)
    then show thesis
      using that[OF r(1)] r by (auto simp: may_proceed_def list_all_iff)
  qed
  have inv1: "inv w1" using run_inv[OF w1(1) assms(1)] .
  have c1: "c \<in> set (inflight w1)" using assms(3) w1(3) by simp
  obtain w2 where w2: "complete c (fail_with c) w1 = Done w2"
    using complete_proceeds(2)[OF invD(3)[OF inv1 c1] fail_ok w1(4)] by (auto simp: returns_iff)
  have "run L (es @ [Complete c (fail_with c)]) w w2"
    using w1(1) w2 c1 fail_ok by (auto simp: run_append intro!: run_Cons run_Nil)
  then show ?thesis
    using fail_ends[OF inv1 c1 w2] w1(2,3) by (intro exI[of _ "es @ [Complete c (fail_with c)]"]) auto
qed

text \<open>All of them.\<close>

lemma end_all:
  assumes "inv w" "objects_ok w"
  shows "\<exists>es w'. run L es w w' \<and> list_all draining es \<and> inflight w' = []"
  using assms
proof (induction "length (inflight w)" arbitrary: w rule: less_induct)
  case less
  show ?case
  proof (cases "inflight w")
    case Nil
    then show ?thesis using run_Nil[of L w] by (intro exI[of _ "[]"]) auto
  next
    case (Cons c cs)
    then have c: "c \<in> set (inflight w)" by simp
    obtain es w1 where w1: "run L es w w1" "list_all draining es" "inflight w1 = filter (\<lambda>d. d \<noteq> c) (inflight w)"
      using end_request[OF less.prems c, of L] by blast
    have "length (inflight w1) < length (inflight w)" using w1(3) c by (simp add: length_filter_less)
    then obtain fs w2 where "run L fs w1 w2" "list_all draining fs" "inflight w2 = []"
      using less.hyps run_inv[OF w1(1) less.prems(1)] run_objs[OF w1(1) less.prems] by blast
    then show ?thesis using w1(1,2) by (intro exI[of _ "es @ fs"]) (auto simp: run_append)
  qed
qed

text \<open>With no request in flight, nothing is left behind.\<close>

lemma idle_clean:
  assumes "inv w" "inflight w = []"
  shows "pool w = Map.empty \<and> (\<forall>p b. chans w p = Some b \<longrightarrow> ch_closed b)"
proof -
  have none: "all_owned w = {}" using assms(2) by (simp add: all_owned_def)
  note inv = invD(6,7)[OF assms(1), unfolded none]
  have "pool w k = None" for k using inv(1)[of k] by (cases "pool w k") auto
  moreover have "ch_closed b" if "chans w p = Some b" for p b
    using inv(2)[of p] that by (auto simp: open_chan_def)
  ultimately show ?thesis by auto
qed

section \<open>What a bulk remove does not clean up\<close>

lemma bulk_remove_leaks:
  assumes "reachable L w" "c \<in> set (inflight w)" "call_fn c = C_bulk_remove names"
    and "pool w (call_result c) = Some (FnRemove (BulkRemoveRes ch ks))" "complete c (Final e) w = Done w'"
  shows "ckeyss w' ks \<noteq> None \<and> pool w' (call_result c) = None"
proof -
  have inv: "inv w" using reachable_inv[OF assms(1)] .
  have ok: "call_ok w c" using invD(3)[OF inv assms(2)] .
  then obtain f where f: "pool w (call_final c) = Some (FnFinal f)" "fin_call_ok w c f"
    using assms(3) by (cases rule: call_ok_cases) auto
  note D = fin_callD[OF f(2)]
  have k: "fin_wc f = None" "fin_keys f = None" using D(1) assms(3) by (cases f; auto)+
  obtain err where "call_final_fn f err (w\<lparr>inflight := filter (\<lambda>d. d \<noteq> c) (inflight w)\<rparr>) = Done w'"
    using assms(5) f(1)
    by (auto simp: complete_def on_finish_def go_final_callback_def with_context_found split: if_splits)
  from call_final_effect[OF this k(1)]
  have E: "final_effect f (w\<lparr>inflight := filter (\<lambda>d. d \<noteq> c) (inflight w)\<rparr>) w'" .
  have "call_result c \<in> set (fin_ctx (wchunks w) f)" using D(2) by auto
  then show ?thesis
    using final_effectD(6,9)[OF E] k(2) D(7)[OF assms(4)] by simp
qed

end
