(* ===== verification/Backpressure.thy ===== *)
theory Backpressure
  imports Streams
begin

text \<open>
  What happens to a request whose consumer has gone away. Only a receive takes values out of a
  response channel, so a channel nobody receives from holds everything that was sent into it,
  its buffer fills up, and the callback with the next value waits: the thread of the client
  library that runs it is lost until somebody receives.
\<close>

section \<open>Definitions\<close>

text \<open>The channel \<open>p\<close> has capacity \<open>k\<close>, has given out \<open>vs\<close>, and does not hold more than fits.\<close>

definition holds_back :: "ptr \<Rightarrow> elem list \<Rightarrow> nat \<Rightarrow> world \<Rightarrow> bool" where
  "holds_back p vs k w \<longleftrightarrow>
     (\<exists>b. chans w p = Some b \<and> ch_out b = vs \<and> ch_cap b = k \<and> length (ch_buf b) \<le> k)"

section \<open>Nothing but a receive empties a channel\<close>

lemma hold_cong: "chans w' = chans w \<Longrightarrow> holds_back p vs k w \<Longrightarrow> holds_back p vs k w'"
  by (simp add: holds_back_def)

lemma send_hold: "send q e w = Done w' \<Longrightarrow> holds_back p vs k w \<Longrightarrow> holds_back p vs k w'"
  by (auto simp: send_Done holds_back_def chan_has_room_def)

lemma close_hold: "close_chan q w = Done w' \<Longrightarrow> holds_back p vs k w \<Longrightarrow> holds_back p vs k w'"
  by (auto simp: close_chan_Done holds_back_def)

lemma delete_ctx_hold: "delete_ctx c w = Done w' \<Longrightarrow> holds_back p vs k w \<Longrightarrow> holds_back p vs k w'"
  by (auto simp: delete_ctx_def Delete_def intro: hold_cong)

lemma NewKey_hold: "NewKey as w = (r, w') \<Longrightarrow> holds_back p vs k w \<Longrightarrow> holds_back p vs k w'"
  by (auto simp: NewKey_def new_ckey_def new_ptr_def holds_back_def c_alloc_def
      split: list.splits go_arg.splits if_splits)

lemma Key_Free_hold: "Key_Free q w = Done w' \<Longrightarrow> holds_back p vs k w \<Longrightarrow> holds_back p vs k w'"
  by (auto simp: Key_Free_def holds_back_def split: if_splits)

lemma Keys_Free_hold: "Keys_Free q w = Done w' \<Longrightarrow> holds_back p vs k w \<Longrightarrow> holds_back p vs k w'"
  by (auto simp: Keys_Free_def holds_back_def split: if_splits)

lemma key_request_hold:
  "c_key_request s fn q a b w = Done w' \<Longrightarrow> holds_back p vs k w \<Longrightarrow> holds_back p vs k w'"
  by (auto simp: c_key_request_def c_request_def deref_key_def holds_back_def split: option.splits if_splits)

lemma world_hold [simp]:
  "holds_back p vs k (w\<lparr>user_log := l\<rparr>) = holds_back p vs k w"
  "holds_back p vs k (w\<lparr>inflight := cs\<rparr>) = holds_back p vs k w"
  "holds_back p vs k (set_wchunk q v w) = holds_back p vs k w"
  by (simp_all add: holds_back_def set_wchunk_def)

lemmas hold_dests = send_hold close_hold delete_ctx_hold Keys_Free_hold Key_Free_hold key_request_hold

lemma call_onResult_hold:
  "call_onResult f e w = Done w' \<Longrightarrow> holds_back p vs k w \<Longrightarrow> holds_back p vs k w'"
  by (auto simp: call_onResult_def WriteKey_onWriteFinish_def WriteCache_onWriteFinish_def
      split: onResultCallback.splits option.splits dest!: hold_dests)

lemma wc_finish_hold: "wc_finish v w = Done w' \<Longrightarrow> holds_back p vs k w \<Longrightarrow> holds_back p vs k w'"
  by (auto simp: wc_finish_def dest!: hold_dests)

lemma wc_fail_hold: "wc_fail v e w = Done w' \<Longrightarrow> holds_back p vs k w \<Longrightarrow> holds_back p vs k w'"
  by (auto simp: wc_fail_def dest!: hold_dests wc_finish_hold)

lemma chunk_finish_hold:
  "WriteChunk_onChunkFinish q e w = Done w' \<Longrightarrow> holds_back p vs k w \<Longrightarrow> holds_back p vs k w'"
  by (auto simp: WriteChunk_onChunkFinish_def Let_def
      split: option.split_asm if_split_asm prod.split_asm sum.split_asm
      dest!: wc_finish_hold wc_fail_hold NewKey_hold hold_dests)

lemma call_final_hold:
  "call_final_fn f e w = Done w' \<Longrightarrow> holds_back p vs k w \<Longrightarrow> holds_back p vs k w'"
  by (cases f; cases e)
    (auto simp: ReadKey_onFinish_def BulkRead_onFinish_def write_onWriteFinish_def cache_onWriteFinish_def
      Lookup_onFinish_def ParallelLookup_onFinish_def RemoveKey_onFinish_def BulkWrite_onFinish_def
      BulkRemove_onFinish_def findIndexes_onFinish_def setOrUpdateIndexes_onFinish_def ListIndexes_onFinish_def
      RemoveIndexes_onFinish_def DnetStat_onFinish_def split: option.split_asm
      dest!: hold_dests call_onResult_hold chunk_finish_hold)

lemma Backends_onFinish_hold:
  "Backends_onFinish ch c s w = Done w' \<Longrightarrow> holds_back p vs k w \<Longrightarrow> holds_back p vs k w'"
  by (auto simp: Backends_onFinish_def dest!: hold_dests)

lemma complete_hold:
  assumes "inv w" "c \<in> set (inflight w)" "completion_ok (call_fn c) x" "complete c x w = Done w'"
    and "holds_back p vs k w"
  shows "holds_back p vs k w'"
  using invD(3)[OF assms(1,2)]
proof (cases rule: call_ok_cases)
  case (final f)
  obtain e where "x = Final e" using assms(3) fn_ok_not_backend[OF fin_callD(1)[OF final(2)]] by (cases x) auto
  then show ?thesis
    using assms(4,5) final(1) call_final_hold
    by (fastforce simp: complete_def on_finish_def go_final_callback_def with_context_found split: if_splits)
next
  case (backend ch)
  then obtain l e where "x = BackendDone l e" using assms(3) by (cases x) auto
  then show ?thesis
    using assms(4,5) backend(1)
    by (auto simp: complete_def on_backend_status_def go_backend_status_error_def go_backend_status_callback_def
        with_context_found split: if_splits list.splits dest!: Backends_onFinish_hold)
qed

lemma exec_hold:
  assumes "inv w" "enabled L e w" "exec L e w = Done w'" "e \<noteq> Receive p" "holds_back p vs k w"
  shows "holds_back p vs k w'"
proof (cases e)
  case (Api a)
  then have "extends w w'" using api_ext[OF assms(1)] assms(2,3) by simp
  moreover have "\<not> next_ptr w \<le> p" using invD(2)[OF assms(1)] assms(5) by (auto simp: ptrs_ok_def holds_back_def)
  ultimately show ?thesis using assms(5) by (simp add: extends_def heap_ext_def holds_back_def)
next
  case (Reply c r)
  then have "w' = w \<or> (\<exists>q x. resp_chan w c = Some q \<and> send q x w = Done w')"
    using deliver_sends[OF invD(3)[OF assms(1)], of c r L w'] assms(2,3) by simp
  then show ?thesis using assms(5) send_hold by blast
next
  case (Complete c x)
  then show ?thesis using complete_hold[OF assms(1)] assms(2,3,5) by auto
next
  case (Receive q)
  then show ?thesis
    using assms(3-5) by (auto simp: receive_def holds_back_def split: option.splits received.splits)
next
  case (DeleteSession s)
  then show ?thesis using assms(3,5) by (auto simp: Session_Delete_def holds_back_def split: if_splits)
qed

lemma run_hold:
  "run L es w w' \<Longrightarrow> inv w \<Longrightarrow> Receive p \<notin> set es \<Longrightarrow> holds_back p vs k w \<Longrightarrow> holds_back p vs k w'"
proof (induction rule: run.induct)
  case (run_Cons e w w1 es w2)
  then show ?case using exec_inv[OF run_Cons.prems(1) run_Cons.hyps(1,2)] exec_hold[OF run_Cons.prems(1) run_Cons.hyps(1,2)]
    by auto
qed

section \<open>A channel without a consumer\<close>

lemma send_full: "chans w ch = Some b \<Longrightarrow> \<not> ch_closed b \<Longrightarrow> ch_cap b \<le> length (ch_buf b) \<Longrightarrow> send ch v w = Block"
  by (simp add: send_def on_chan_def chan_send_def)

context response_stream
begin

text \<open>While nobody receives, the results of the request are all in the buffer.\<close>

lemma abandoned_buffer:
  assumes "inv w" "streaming res fin c ch w" "chans w ch = Some (chan_make k)"
    and "run L es w w'" "no_completion c es" "Receive ch \<notin> set es"
  obtains b where "chans w' ch = Some b" "ch_buf b = map (elem_of L) (replies_of c es)"
    "length (ch_buf b) \<le> k" "ch_cap b = k" "\<not> ch_closed b" "inv w'" "streaming res fin c ch w'"
proof -
  have inv': "inv w'" using run_inv[OF assms(4,1)] .
  have s: "streaming res fin c ch w'" "chan_log w' ch = Some (map (elem_of L) (replies_of c es))"
    using stream_run[OF assms(4,1,2,5)] assms(3) by (simp_all add: chan_log_def)
  have "holds_back ch [] k w'"
    by (rule run_hold[OF assms(4,1,6)]) (simp add: holds_back_def assms(3))
  then obtain b where b: "chans w' ch = Some b" "ch_out b = []" "ch_cap b = k" "length (ch_buf b) \<le> k"
    by (auto simp: holds_back_def)
  moreover have "ch_buf b = map (elem_of L) (replies_of c es)"
    using s(2) b(1,2) by (simp add: chan_log_def ch_log_def)
  moreover have "\<not> ch_closed b"
    using owns_live[OF invD(3)[OF inv'], of c "RChan ch"] streaming_ctx(3)[OF inv' s(1)] s(1) b(1)
    by (auto simp: open_chan_def streaming_def)
  ultimately show ?thesis using that inv' s(1) by blast
qed

text \<open>
  Exactly as many results as the buffer takes are handled; the next one waits, and so does the
  end of a request that failed.
\<close>

lemma abandoned:
  assumes "inv w" "streaming res fin c ch w" "chans w ch = Some (chan_make k)"
    and "run L es w w'" "no_completion c es" "Receive ch \<notin> set es"
  shows "length (replies_of c es) \<le> k"
    and "connected (call_fn c) r \<Longrightarrow> reply_wf L r \<Longrightarrow>
      (if length (replies_of c es) = k then exec L (Reply c r) w' = Block else returns (exec L (Reply c r) w'))"
    and "length (replies_of c es) = k \<Longrightarrow> final_error e \<noteq> None \<Longrightarrow> exec L (Complete c (Final e)) w' = Block"
proof -
  obtain b where b: "chans w' ch = Some b" "ch_buf b = map (elem_of L) (replies_of c es)"
      "length (ch_buf b) \<le> k" "ch_cap b = k" "\<not> ch_closed b" "inv w'" "streaming res fin c ch w'"
    using abandoned_buffer[OF assms] .
  show "length (replies_of c es) \<le> k" using b(2,3) by simp
  have full: "send ch v v' = Block" if "length (replies_of c es) = k" "chans v' ch = Some b" for v v'
    using that send_full[OF that(2) b(5)] b(2,4) by simp
  show "if length (replies_of c es) = k then exec L (Reply c r) w' = Block else returns (exec L (Reply c r) w')"
    if "connected (call_fn c) r" "reply_wf L r"
  proof -
    have "exec L (Reply c r) w' = send ch (elem_of L r) w'"
      using deliver_res[of w' "call_result c" ch r L] accepts_fin[OF streaming_ctx(4)[OF b(6,7)] that(1)]
        b(7) that(2) by (simp add: streaming_def)
    then show ?thesis
      using full b by (auto simp: send_def on_chan_def chan_send_def)
  qed
  show "exec L (Complete c (Final e)) w' = Block" if "length (replies_of c es) = k" "final_error e \<noteq> None"
    using that(2) b(1,7) full[OF that(1)]
    by (auto simp: complete_def on_finish_def go_final_callback_def with_context_found streaming_def
        final_error_def dnet_error_of_def final_fin split: if_splits)
qed

text \<open>A result that can be reported again and again fills the buffer.\<close>

lemma abandoned_fills:
  assumes "inv w" "streaming res fin c ch w" "chans w ch = Some (chan_make k)"
    and "connected (call_fn c) r" "reply_wf L r" "n \<le> k"
  shows "\<exists>w'. run L (replicate n (Reply c r)) w w' \<and> replies_of c (replicate n (Reply c r)) = replicate n r"
  using assms(6)
proof (induction n)
  case 0
  then show ?case by (auto intro: run_Nil)
next
  case (Suc n)
  let ?es = "replicate n (Reply c r)"
  obtain w' where w': "run L ?es w w'" "replies_of c ?es = replicate n r" using Suc by auto
  have nc: "no_completion c ?es" "Receive ch \<notin> set ?es" by (auto simp: no_completion_def list_all_iff)
  have "length (replies_of c ?es) \<noteq> k" using w'(2) Suc.prems by simp
  then obtain w2 where w2: "exec L (Reply c r) w' = Done w2"
    using abandoned(2)[OF assms(1-3) w'(1) nc assms(4,5)] by (auto simp: returns_iff)
  obtain b where "streaming res fin c ch w'" using abandoned_buffer[OF assms(1-3) w'(1) nc] .
  then have "run L [Reply c r] w' w2"
    using w2 assms(4,5) by (auto intro!: run_Cons run_Nil simp: streaming_def)
  then have "run L (?es @ [Reply c r]) w w2" using w'(1) by (auto simp: run_append)
  then show ?case using w'(2) by (auto simp: replicate_append_same)
qed

end

lemma ReadKey_chan:
  "ReadKey s key offset sz w = Done (ch, w') \<Longrightarrow> chans w' ch = Some (chan_make 10)"
  by (auto simp: ReadKey_def op_defs split: option.splits if_splits)

end
