(* ===== verification/Node.thy ===== *)
theory Node
  imports Errors
begin

text \<open>
  Nodes: \<^verbatim>\<open>elliptics/node.go\<close> with \<^verbatim>\<open>node.cpp\<close>. A node object keeps its configuration and the
  remotes it was told to connect to. What the client library does (the logger, the parsing
  of an address, the connection itself) is a record of functions; a call of it may throw.
  The C strings and the array of them that \<^verbatim>\<open>AddRemotes\<close> passes on live in a C memory of their own.
\<close>

section \<open>Definitions\<close>

text \<open>What a C++ call may throw.\<close>

datatype cpp_exception =
    EllipticsError i32      \<comment> \<open>\<^verbatim>\<open>elliptics::error\<close> with its \<^verbatim>\<open>error_code()\<close>\<close>
  | StdException string     \<comment> \<open>another \<^verbatim>\<open>std::exception\<close> with its \<^verbatim>\<open>what()\<close>\<close>
  | OtherException

record 'a node_lib =
  make_logger :: "string \<Rightarrow> string \<Rightarrow> cpp_exception option"   \<comment> \<open>log file and level\<close>
  parse_address :: "string \<Rightarrow> cpp_exception + 'a"            \<comment> \<open>\<^verbatim>\<open>elliptics::address(addr)\<close>\<close>
  connect :: "'a list \<Rightarrow> cpp_exception option"                 \<comment> \<open>\<^verbatim>\<open>node->add_remote\<close>\<close>

record dnet_config =
  io_thread_num :: i32
  nonblocking_io_thread_num :: i32
  net_thread_num :: i32
  wait_timeout :: i32
  check_timeout :: i32

record 'a ell_node =
  node_log :: "string \<times> string"
  node_config :: dnet_config
  node_remotes :: "'a list list"   \<comment> \<open>the argument of every successful \<^verbatim>\<open>add_remote\<close>\<close>

type_synonym 'a node_heap = "nat \<rightharpoonup> 'a ell_node"

text \<open>\<^verbatim>\<open>new_node\<close>: exceptions derived from \<^verbatim>\<open>std::exception\<close> (\<^verbatim>\<open>elliptics::error\<close> is) give null.\<close>

definition new_node :: "'a node_lib \<Rightarrow> string \<Rightarrow> string \<Rightarrow> 'a ell_node option outcome" where
  "new_node L logfile level =
     (case make_logger L logfile level of
        None \<Rightarrow> Done (Some \<lparr>node_log = (logfile, level),
          node_config = \<lparr>io_thread_num = 8, nonblocking_io_thread_num = 4, net_thread_num = 4,
            wait_timeout = 5, check_timeout = 20\<rparr>,
          node_remotes = []\<rparr>)
      | Some OtherException \<Rightarrow> Panic Terminate
      | Some _ \<Rightarrow> Done None)"

text \<open>A node pointer that is not in use is given to the new object.\<close>

definition NewNode ::
    "'a node_lib \<Rightarrow> nat \<Rightarrow> string \<Rightarrow> string \<Rightarrow> 'a node_heap \<Rightarrow> ((error + nat) \<times> 'a node_heap) outcome" where
  "NewNode L p logfile level H =
     mapO (\<lambda>cnode. case cnode of
         None \<Rightarrow> (Inl (EText ''could not create node, please check stderr output''), H)
       | Some n \<Rightarrow> (Inr p, H(p \<mapsto> n)))
       (new_node L (c_string logfile) (c_string level))"

definition Node_Free :: "nat \<Rightarrow> 'a node_heap \<Rightarrow> 'a node_heap outcome" where
  "Node_Free p H = (if H p = None then Panic CUndefined else Done (H(p := None)))"

definition SetTimeouts :: "i64 \<Rightarrow> i64 \<Rightarrow> nat \<Rightarrow> 'a node_heap \<Rightarrow> 'a node_heap outcome" where
  "SetTimeouts waitTimeout checkTimeout p H =
     (case H p of None \<Rightarrow> Panic CUndefined
      | Some n \<Rightarrow> Done (H(p \<mapsto> n\<lparr>node_config :=
          (node_config n)\<lparr>wait_timeout := ucast waitTimeout, check_timeout := ucast checkTimeout\<rparr>\<rparr>)))"

text \<open>\<^verbatim>\<open>node->add_remote\<close> on a list of addresses.\<close>

definition add_remote ::
    "'a node_lib \<Rightarrow> 'a list \<Rightarrow> nat \<Rightarrow> 'a node_heap \<Rightarrow> (cpp_exception option \<times> 'a node_heap) outcome" where
  "add_remote L as p H =
     (case H p of None \<Rightarrow> Panic CUndefined
      | Some n \<Rightarrow> (case connect L as of
          Some e \<Rightarrow> Done (Some e, H)
        | None \<Rightarrow> Done (None, H(p \<mapsto> n\<lparr>node_remotes := node_remotes n @ [as]\<rparr>))))"

text \<open>\<^verbatim>\<open>node_add_remote_one\<close> catches \<^verbatim>\<open>elliptics::error\<close> only.\<close>

definition node_add_remote_one ::
    "'a node_lib \<Rightarrow> string \<Rightarrow> nat \<Rightarrow> 'a node_heap \<Rightarrow> (i32 \<times> 'a node_heap) outcome" where
  "node_add_remote_one L addr p H =
     (let caught = (\<lambda>e H. case e of EllipticsError c \<Rightarrow> Done (c, H) | _ \<Rightarrow> Panic Terminate)
      in case parse_address L addr of
           Inl e \<Rightarrow> caught e H
         | Inr a \<Rightarrow> bindO (add_remote L [a] p H) (\<lambda>(e, H).
             case e of None \<Rightarrow> Done (0, H) | Some e \<Rightarrow> caught e H))"

text \<open>The addresses that can be parsed; any exception of the constructor is swallowed.\<close>

fun parsed :: "'a node_lib \<Rightarrow> string list \<Rightarrow> 'a list" where
  "parsed L [] = []"
| "parsed L (x # xs) = (case parse_address L x of Inl _ \<Rightarrow> parsed L xs | Inr a \<Rightarrow> a # parsed L xs)"

definition node_add_remote_array ::
    "'a node_lib \<Rightarrow> string list \<Rightarrow> i32 \<Rightarrow> nat \<Rightarrow> 'a node_heap \<Rightarrow> (i32 \<times> 'a node_heap) outcome" where
  "node_add_remote_array L addr num p H =
     bindO (add_remote L (parsed L (take (nat (sint num)) addr)) p H) (\<lambda>(e, H).
       case e of
         None \<Rightarrow> Done (0, H)
       | Some (EllipticsError c) \<Rightarrow> Done (c, H)
       | Some (StdException _) \<Rightarrow> Done (- 22, H)
       | Some OtherException \<Rightarrow> Panic Terminate)"

text \<open>
  \<^verbatim>\<open>if c_err < 0 { err = syscall.Errno(-c_err) }\<close>: the negation is done on a C \<^verbatim>\<open>int\<close>, the
  conversion to the unsigned \<^verbatim>\<open>Errno\<close> extends its sign.
\<close>

definition remote_error :: "(int \<Rightarrow> string) \<Rightarrow> i32 \<Rightarrow> error option" where
  "remote_error strerror c_err =
     (if sint c_err < 0
      then let n = uint (scast (- c_err) :: u64) in Some (EErrno n (strerror n))
      else None)"

definition AddRemote ::
    "'a node_lib \<Rightarrow> (int \<Rightarrow> string) \<Rightarrow> string \<Rightarrow> nat \<Rightarrow> 'a node_heap \<Rightarrow> (error option \<times> 'a node_heap) outcome" where
  "AddRemote L strerror addr p H =
     mapO (\<lambda>(c_err, H). (remote_error strerror c_err, H)) (node_add_remote_one L (c_string addr) p H)"

subsection \<open>Arrays of C strings\<close>

text \<open>
  C memory: the live strings and arrays of string pointers (\<open>None\<close> is \<^verbatim>\<open>NULL\<close>) by address, the
  next address to hand out, and whether \<^verbatim>\<open>calloc\<close> finds memory. Freeing what is not live,
  writing outside an array and using a null array is undefined.
\<close>

record c_mem =
  cm_next :: nat
  cm_str :: "nat \<rightharpoonup> string"
  cm_arr :: "nat \<rightharpoonup> nat option list"
  cm_calloc :: bool

definition c_CString :: "string \<Rightarrow> c_mem \<Rightarrow> nat \<times> c_mem" where
  "c_CString s m = (cm_next m, m\<lparr>cm_next := Suc (cm_next m), cm_str := (cm_str m)(cm_next m \<mapsto> s)\<rparr>)"

text \<open>A negative size becomes an enormous \<^verbatim>\<open>size_t\<close>.\<close>

definition makeCharArray :: "i32 \<Rightarrow> c_mem \<Rightarrow> nat option \<times> c_mem" where
  "makeCharArray num m =
     (if sint num < 0 \<or> \<not> cm_calloc m then (None, m)
      else (Some (cm_next m), m\<lparr>cm_next := Suc (cm_next m),
        cm_arr := (cm_arr m)(cm_next m \<mapsto> replicate (nat (sint num)) None)\<rparr>))"

definition on_array ::
    "nat option \<Rightarrow> c_mem \<Rightarrow> (nat \<Rightarrow> nat option list \<Rightarrow> 'b outcome) \<Rightarrow> 'b outcome" where
  "on_array a m f =
     (case a of None \<Rightarrow> Panic CUndefined
      | Some p \<Rightarrow> (case cm_arr m p of None \<Rightarrow> Panic CUndefined | Some xs \<Rightarrow> f p xs))"

definition setArrayString :: "nat option \<Rightarrow> nat \<Rightarrow> i32 \<Rightarrow> c_mem \<Rightarrow> c_mem outcome" where
  "setArrayString a s n m =
     on_array a m (\<lambda>p xs.
       if 0 \<le> sint n \<and> nat (sint n) < length xs
       then Done (m\<lparr>cm_arr := (cm_arr m)(p \<mapsto> xs[nat (sint n) := Some s])\<rparr>)
       else Panic CUndefined)"

fun c_free_string :: "nat option \<Rightarrow> c_mem \<Rightarrow> c_mem outcome" where
  "c_free_string None m = Done m"
| "c_free_string (Some q) m =
     (if cm_str m q = None then Panic CUndefined else Done (m\<lparr>cm_str := (cm_str m)(q := None)\<rparr>))"

definition freeCharArray :: "nat option \<Rightarrow> i32 \<Rightarrow> c_mem \<Rightarrow> c_mem outcome" where
  "freeCharArray a num m =
     on_array a m (\<lambda>p xs.
       if length xs < nat (sint num) then Panic CUndefined
       else mapO (\<lambda>m. m\<lparr>cm_arr := (cm_arr m)(p := None)\<rparr>)
              (steps (map c_free_string (take (nat (sint num)) xs)) m))"

text \<open>What C reads through the array: every string up to its first NUL.\<close>

definition array_strings :: "nat option \<Rightarrow> i32 \<Rightarrow> c_mem \<Rightarrow> string list outcome" where
  "array_strings a num m =
     on_array a m (\<lambda>p xs.
       if length xs < nat (sint num) then Panic CUndefined
       else mapM (\<lambda>x. case x of None \<Rightarrow> Panic CUndefined
              | Some q \<Rightarrow> (case cm_str m q of None \<Rightarrow> Panic CUndefined | Some s \<Rightarrow> Done (c_string s)))
              (take (nat (sint num)) xs))"

text \<open>The loop of \<^verbatim>\<open>AddRemotes\<close>, from index \<open>i\<close>.\<close>

fun fill_array :: "nat option \<Rightarrow> nat \<Rightarrow> string list \<Rightarrow> c_mem \<Rightarrow> c_mem outcome" where
  "fill_array cargs i [] m = Done m"
| "fill_array cargs i (s # ss) m =
     (let (cs, m) = c_CString s m
      in bindO (setArrayString cargs cs (of_nat i) m) (fill_array cargs (Suc i) ss))"

definition AddRemotes ::
    "'a node_lib \<Rightarrow> (int \<Rightarrow> string) \<Rightarrow> string list \<Rightarrow> nat \<Rightarrow> 'a node_heap \<Rightarrow> c_mem \<Rightarrow>
     (error option \<times> 'a node_heap \<times> c_mem) outcome" where
  "AddRemotes L strerror addrs p H m =
     (if length addrs = 0 then Done (Some (EText ''list of remotes is empty''), H, m)
      else
        let n = of_nat (length addrs);
            (cargs, m) = makeCharArray n m
        in bindO (fill_array cargs 0 addrs m) (\<lambda>m.
             bindO (array_strings cargs n m) (\<lambda>strs.
               bindO (node_add_remote_array L strs n p H) (\<lambda>(c_err, H).
                 mapO (\<lambda>m. (remote_error strerror c_err, H, m)) (freeCharArray cargs n m)))))"

text \<open>No address from the next one on is in use.\<close>

definition mem_ok :: "c_mem \<Rightarrow> bool" where
  "mem_ok m \<longleftrightarrow> (\<forall>q. cm_next m \<le> q \<longrightarrow> cm_str m q = None \<and> cm_arr m q = None)"

section \<open>Lemmas\<close>

lemma parsed_filter: "parsed L xs = [a. x \<leftarrow> xs, Inr a \<leftarrow> [parse_address L x]]"
  by (induction xs) (auto split: sum.splits)

lemma remote_error_None: "remote_error strerror c = None \<longleftrightarrow> 0 \<le> sint c"
  by (simp add: remote_error_def Let_def not_less)

text \<open>A negative code comes back as the positive error number.\<close>

lemma remote_error_Some:
  assumes "sint c < 0" "c \<noteq> - 2147483648"
  shows "remote_error strerror c = Some (EErrno (- sint c) (strerror (- sint c)))"
proof -
  have ge: "- 2147483648 \<le> sint c" "sint c < 2147483648"
    using sint_ge[of c] sint_lt[of c] by simp_all
  have "sint c \<noteq> - 2147483648"
  proof
    assume "sint c = - 2147483648"
    then have "of_int (sint c) = (of_int (- 2147483648) :: i32)" by simp
    then show False using assms(2) by simp
  qed
  then have "sint (- c) = - sint c" using ge assms(1) by (simp add: signed_take_bit_int_eq_self sint_word_ariths)
  then have w: "(scast (- c) :: u64) = word_of_int (- sint c)" by (metis scast_eq)
  have u: "uint (word_of_int k :: u64) = k" if "0 \<le> k" "k \<le> 2147483648" for k
    using that by (simp add: unsigned_of_int take_bit_int_eq_self)
  have "uint (scast (- c) :: u64) = - sint c" unfolding w by (rule u) (use ge assms(1) in simp_all)
  then show ?thesis using assms(1) by (simp add: remote_error_def Let_def)
qed

subsection \<open>The array of names\<close>

lemma sint_of_nat_i32: "k < 2147483648 \<Longrightarrow> sint (of_nat k :: i32) = int k"
  by (simp add: signed_of_nat signed_take_bit_int_eq_self)

text \<open>
  The memory while the array is filled: the first \<open>length ss\<close> entries point to fresh strings.
\<close>

definition filled :: "nat \<Rightarrow> nat \<Rightarrow> string list \<Rightarrow> c_mem \<Rightarrow> c_mem" where
  "filled p n ss m =
     m\<lparr>cm_next := Suc p + length ss,
       cm_str := (\<lambda>q. if Suc p \<le> q \<and> q < Suc p + length ss then Some (ss ! (q - Suc p)) else cm_str m q),
       cm_arr := (cm_arr m)(p \<mapsto> map Some [Suc p ..< Suc p + length ss] @ replicate (n - length ss) None)\<rparr>"

lemma filled_Nil: "filled p n [] m = m\<lparr>cm_next := Suc p, cm_arr := (cm_arr m)(p \<mapsto> replicate n None)\<rparr>"
proof -
  have "(\<lambda>q. if Suc p \<le> q \<and> q < Suc p then Some ([] ! (q - Suc p)) else cm_str m q) = cm_str m"
    by (rule ext) auto
  then show ?thesis by (simp add: filled_def)
qed

lemma filled_arr:
  "cm_arr (filled p n ss m) p = Some (map Some [Suc p ..< Suc p + length ss] @ replicate (n - length ss) None)"
  by (simp add: filled_def)

lemma fill_step:
  assumes "length ss < n" "n < 2147483648"
  shows "bindO (setArrayString (Some p) (fst (c_CString s (filled p n ss m))) (of_nat (length ss))
      (snd (c_CString s (filled p n ss m)))) f = f (filled p n (ss @ [s]) m)"
proof -
  have arr: "(map Some [Suc p ..< Suc p + length ss] @ replicate (n - length ss) None)[length ss := Some (Suc p + length ss)] =
      map Some [Suc p ..< Suc p + length (ss @ [s])] @ replicate (n - length (ss @ [s])) None"
  proof -
    have "replicate (n - length ss) (None :: nat option) = None # replicate (n - Suc (length ss)) None"
      using assms(1) by (metis Suc_diff_Suc replicate_Suc)
    moreover have "(map Some [Suc p ..< Suc p + length ss] @ None # zs)[length ss := Some (Suc p + length ss)] =
        map Some [Suc p ..< Suc p + length ss] @ Some (Suc p + length ss) # zs" for zs
      using list_update_length[of "map Some [Suc p ..< Suc p + length ss]"] by (simp del: upt_Suc)
    ultimately show ?thesis by simp
  qed
  have str: "(\<lambda>q. if Suc p \<le> q \<and> q < Suc p + length ss then Some (ss ! (q - Suc p)) else cm_str m q)
        (Suc p + length ss \<mapsto> s) =
      (\<lambda>q. if Suc p \<le> q \<and> q < Suc p + length (ss @ [s]) then Some ((ss @ [s]) ! (q - Suc p)) else cm_str m q)"
    by (rule ext) (auto simp: nth_append less_Suc_eq)
  show ?thesis
    using assms arr str
    by (simp add: setArrayString_def on_array_def c_CString_def filled_def sint_of_nat_i32 del: upt_Suc)
qed

lemma fill_array_filled:
  assumes "length (ss @ ts) = n" "n < 2147483648"
  shows "fill_array (Some p) (length ss) ts (filled p n ss m) = Done (filled p n (ss @ ts) m)"
  using assms(1)
proof (induction ts arbitrary: ss)
  case Nil then show ?case by simp
next
  case (Cons t ts)
  then show ?case
    using fill_step[of ss n p t m "fill_array (Some p) (Suc (length ss)) ts"] assms(2) Cons.IH[of "ss @ [t]"]
    by (simp add: case_prod_beta)
qed

lemma filled_nth:
  "i < length ss \<Longrightarrow> cm_str (filled p n ss m) (Suc p + i) = Some (ss ! i)"
  by (simp add: filled_def)

lemma array_strings_filled:
  assumes "length ss < 2147483648"
  shows "array_strings (Some p) (of_nat (length ss)) (filled p (length ss) ss m) = Done (map c_string ss)"
proof -
  let ?f = "\<lambda>x. case x of None \<Rightarrow> Panic CUndefined
    | Some q \<Rightarrow> (case cm_str (filled p (length ss) ss m) q of None \<Rightarrow> Panic CUndefined | Some s \<Rightarrow> Done (c_string s))"
  have "mapM ?f (map Some [Suc p ..< Suc p + length ss]) =
      Done (map (\<lambda>x. c_string (ss ! (the x - Suc p))) (map Some [Suc p ..< Suc p + length ss]))"
    by (rule mapM_all_Done) (auto simp: filled_def)
  also have "map (\<lambda>x. c_string (ss ! (the x - Suc p))) (map Some [Suc p ..< Suc p + length ss]) = map c_string ss"
    by (rule nth_equalityI) (simp_all add: del: upt_Suc)
  finally show ?thesis
    using assms by (simp add: array_strings_def on_array_def sint_of_nat_i32 filled_arr del: upt_Suc)
qed

lemma free_strings:
  assumes "\<forall>q \<in> set qs. cm_str m q \<noteq> None" "distinct qs"
  shows "steps (map c_free_string (map Some qs)) m =
    Done (m\<lparr>cm_str := (\<lambda>q. if q \<in> set qs then None else cm_str m q)\<rparr>)"
  using assms
proof (induction qs arbitrary: m)
  case Nil then show ?case by simp
next
  case (Cons q qs)
  have "\<forall>r \<in> set qs. cm_str (m\<lparr>cm_str := (cm_str m)(q := None)\<rparr>) r \<noteq> None" using Cons.prems by auto
  from Cons.IH[OF this] Cons.prems show ?case by (auto intro!: c_mem.fold_congs ext)
qed

lemma freeCharArray_filled:
  assumes "length ss < 2147483648" "mem_ok m" "p = cm_next m"
  shows "freeCharArray (Some p) (of_nat (length ss)) (filled p (length ss) ss m) =
    Done (m\<lparr>cm_next := Suc p + length ss\<rparr>)"
proof -
  let ?m = "filled p (length ss) ss m"
  let ?qs = "[Suc p ..< Suc p + length ss]"
  have "steps (map c_free_string (map Some ?qs)) ?m =
      Done (?m\<lparr>cm_str := (\<lambda>q. if q \<in> set ?qs then None else cm_str ?m q)\<rparr>)"
    by (rule free_strings) (auto simp: filled_def)
  moreover have "(\<lambda>q. if q \<in> set ?qs then None else cm_str ?m q) = cm_str m"
    using assms(2,3) by (intro ext) (auto simp: filled_def mem_ok_def)
  moreover have "(cm_arr m)(p := None) = cm_arr m" using assms(2,3) by (auto simp: mem_ok_def)
  ultimately show ?thesis
    using assms(1) by (simp add: freeCharArray_def on_array_def sint_of_nat_i32 filled_def del: upt_Suc)
qed

text \<open>
  What \<^verbatim>\<open>AddRemotes\<close> does to the C memory comes to nothing: the library sees the names, and
  every string and the array are freed once.
\<close>

lemma AddRemotes_names:
  assumes "addrs \<noteq> []" "length addrs < 2147483648" "mem_ok m" "cm_calloc m"
  shows "AddRemotes L strerror addrs p H m =
    mapO (\<lambda>(c_err, H). (remote_error strerror c_err, H, m\<lparr>cm_next := Suc (cm_next m) + length addrs\<rparr>))
      (node_add_remote_array L (map c_string addrs) (of_nat (length addrs)) p H)"
proof -
  let ?a = "cm_next m" and ?n = "length addrs"
  have mk: "makeCharArray (of_nat ?n) m = (Some ?a, filled ?a ?n [] m)"
    using assms(2,4) by (simp add: makeCharArray_def sint_of_nat_i32 filled_Nil)
  show ?thesis
    using assms(1) fill_array_filled[of "[]" addrs ?n ?a m] array_strings_filled[OF assms(2), of ?a m]
      freeCharArray_filled[OF assms(2,3) refl] assms(2)
    by (cases "node_add_remote_array L (map c_string addrs) (of_nat ?n) p H")
      (auto simp: AddRemotes_def mk Let_def)
qed

text \<open>Adding remotes connects to exactly the addresses that can be parsed, in their order.\<close>

lemma AddRemotes_ok:
  assumes "addrs \<noteq> []" "length addrs < 2147483648" "mem_ok m" "cm_calloc m" "H p = Some n"
    and "connect L (parsed L (map c_string addrs)) = None"
  shows "AddRemotes L strerror addrs p H m =
    Done (None, H(p \<mapsto> n\<lparr>node_remotes := node_remotes n @ [parsed L (map c_string addrs)]\<rparr>),
      m\<lparr>cm_next := Suc (cm_next m) + length addrs\<rparr>)"
  using assms
  by (simp add: AddRemotes_names node_add_remote_array_def add_remote_def remote_error_def sint_of_nat_i32)

text \<open>A failed connection changes nothing; its negative code comes back as an error number.\<close>

lemma AddRemotes_fails:
  assumes "addrs \<noteq> []" "length addrs < 2147483648" "mem_ok m" "cm_calloc m" "H p = Some n"
    and "connect L (parsed L (map c_string addrs)) = Some (EllipticsError c)" "- 2147483648 < sint c" "sint c < 0"
  shows "AddRemotes L strerror addrs p H m =
    Done (Some (EErrno (- sint c) (strerror (- sint c))), H, m\<lparr>cm_next := Suc (cm_next m) + length addrs\<rparr>)"
proof -
  have "c \<noteq> - 2147483648" using assms(7) by auto
  then show ?thesis
    using assms
    by (simp add: AddRemotes_names node_add_remote_array_def add_remote_def remote_error_Some sint_of_nat_i32)
qed

text \<open>The result of \<^verbatim>\<open>calloc\<close> is not tested.\<close>

lemma AddRemotes_null:
  assumes "addrs \<noteq> []" "\<not> cm_calloc m"
  shows "AddRemotes L strerror addrs p H m = Panic CUndefined"
  using assms
  by (cases addrs)
    (simp_all add: AddRemotes_def makeCharArray_def setArrayString_def on_array_def c_CString_def Let_def)

lemma AddRemote_ok:
  assumes "parse_address L (c_string addr) = Inr a" "H p = Some n" "connect L [a] = None"
  shows "AddRemote L strerror addr p H = Done (None, H(p \<mapsto> n\<lparr>node_remotes := node_remotes n @ [[a]]\<rparr>))"
  using assms by (simp add: AddRemote_def node_add_remote_one_def add_remote_def remote_error_def)

text \<open>
  The two differ on an exception of the address parser that is not an \<^verbatim>\<open>elliptics::error\<close>:
  one address ends the process, an array passes over it.
\<close>

lemma AddRemote_terminates:
  assumes "parse_address L (c_string addr) = Inl (StdException m)"
  shows "AddRemote L strerror addr p H = Panic Terminate"
  using assms by (simp add: AddRemote_def node_add_remote_one_def)

lemma AddRemotes_passes_over:
  assumes "parse_address L (c_string addr) = Inl e" "H p = Some n" "connect L [] = None" "mem_ok m" "cm_calloc m"
  shows "AddRemotes L strerror [addr] p H m =
    Done (None, H(p \<mapsto> n\<lparr>node_remotes := node_remotes n @ [[]]\<rparr>), m\<lparr>cm_next := Suc (Suc (cm_next m))\<rparr>)"
  using AddRemotes_ok[of "[addr]" m H p n L strerror] assms by simp

text \<open>The timeouts a node is made with, and what overriding them does.\<close>

lemma NewNode_timeouts:
  assumes "NewNode L p logfile level H = Done (Inr q, H')"
  shows "\<exists>n. H' q = Some n \<and> wait_timeout (node_config n) = 5 \<and> check_timeout (node_config n) = 20"
  using assms by (auto simp: NewNode_def new_node_def split: option.splits cpp_exception.splits)

lemma SetTimeouts_narrow:
  assumes "SetTimeouts a b p H = Done H'"
  shows "\<exists>n. H' p = Some n \<and> wait_timeout (node_config n) = ucast a \<and> check_timeout (node_config n) = ucast b"
  using assms by (auto simp: SetTimeouts_def split: option.splits)

end
