(* ===== verification/StatScenario.thy ===== *)
theory StatScenario
  imports Scenario StatRun StatStore StreamHttp Liveness Backpressure Node
begin

text \<open>
  Concrete statistics, a concrete monitoring reply and a concrete object server, to which the
  properties of the statistics and of the HTTP streaming are applied.
\<close>

section \<open>Definitions\<close>

definition time0 :: go_time where
  "time0 = \<lparr>t_sec = 100, t_nsec = 0\<rparr>"

definition node0 :: "string ell_node" where
  "node0 = \<lparr>node_log = (''log'', ''error''),
     node_config = \<lparr>io_thread_num = 8, nonblocking_io_thread_num = 4, net_thread_num = 4,
       wait_timeout = 5, check_timeout = 20\<rparr>,
     node_remotes = []\<rparr>"

definition addr0 :: DnetAddr where
  "addr0 = \<lparr>Addr = [1, 2, 3, 4], Family = 2\<rparr>"

definition rawid0 :: "u8 \<Rightarrow> DnetRawID" where
  "rawid0 b = DnetRawID [b, 0, 0, 0, 0, 0, 0, 0]"

text \<open>Two backends with one identifier each.\<close>

definition low0 :: "AddressBackend \<times> StatBackend" where
  "low0 = (ab_of addr0 7, (NewStatBackend time0)\<lparr>SB_ID := [rawid0 64]\<rparr>)"

definition high0 :: "AddressBackend \<times> StatBackend" where
  "high0 = (ab_of addr0 8, (NewStatBackend time0)\<lparr>SB_ID := [rawid0 128]\<rparr>)"

definition group0 :: StatGroup where
  "group0 = \<lparr>Ab = [low0, high0]\<rparr>"

definition group1 :: StatGroup where
  "group1 = \<lparr>Ab = [high0, low0]\<rparr>"

text \<open>Two statistics of one group each, with their group objects at 0 and 1.\<close>

definition store0 :: group_store where
  "store0 = \<lparr>gs_next = 2, gs_heap = [0 \<mapsto> group0, 1 \<mapsto> group1]\<rparr>"

definition prev0 :: StatRef where
  "prev0 = \<lparr>SR_Time = time0, SR_Group = [(1, 0)]\<rparr>"

definition next0 :: StatRef where
  "next0 = \<lparr>SR_Time = time0, SR_Group = [(2, 1)]\<rparr>"

text \<open>A route reported by the library.\<close>

definition lib8 :: ell_lib where
  "lib8 = lib0\<lparr>DNET_ID_SIZE := 8\<rparr>"

definition route0 :: c_route_entry where
  "route0 = \<lparr>cre_id = [32, 0, 0, 0, 0, 0, 0, 0], cre_addr = caddr0, cre_group = 1, cre_backend = 7\<rparr>"

definition routed_entry0 :: RouteEntry where
  "routed_entry0 = \<lparr>re_id = [32, 0, 0, 0, 0, 0, 0, 0], re_addr = addr0, re_group = 1, re_backend = 7\<rparr>"

text \<open>The statistics object at 3 with the two backends.\<close>

definition routing0 :: world where
  "routing0 = ready0\<lparr>stats := [3 \<mapsto> \<lparr>DS_Time = time0, Group = [(1, group0)]\<rparr>]\<rparr>"

text \<open>A statistics request in flight, its channel at 2 and its statistics object at 3.\<close>

definition stat_result0 :: "(ptr \<times> ptr \<times> world) outcome" where
  "stat_result0 = DnetStat_request lib0 time0 [] sess0 ready0"

definition stat_call0 :: ccall where
  "stat_call0 = \<lparr>call_session = 0, call_fn = C_get_stats stat_categories, call_result = 1, call_final = 2\<rparr>"

definition statting0 :: world where
  "statting0 = ready0\<lparr>counter := 3, pool := [1 \<mapsto> FnStat 2, 2 \<mapsto> FnFinal (StatFin 2 1 2)],
     chans := [2 \<mapsto> chan_make 10], next_ptr := 4, inflight := [stat_call0], stats := [3 \<mapsto> DnetStat_new]\<rparr>"

text \<open>A reply of a server with one enabled backend.\<close>

definition zero_time :: Time where
  "zero_time = \<lparr>Sec = 0, USec = 0\<rparr>"

definition zero_config :: Config where
  "zero_config = \<lparr>Cf_Group = 1, Cf_Data = '''', Sync = 0, BlobFlags = 0, BlobSize = 0, BlobSizeLimit = 0,
     MaxRecords = 0, DefragPercentage = 0, DefragTimeout = 0, DefragTime = 0, DefragSplay = 0\<rparr>"

definition blobs0 :: BlobStats where
  "blobs0 = \<lparr>Bl_RecordsTotal = 5, Bl_RecordsRemoved = 1, Bl_RecordsRemovedSize = 10, Bl_RecordsCorrupted = 0,
     BaseSize = 100, WantDefrag = 0, IsSorted = 0\<rparr>"

definition dstat0 :: DStatRaw where
  "dstat0 = \<lparr>ReadIOs = 0, ReadMerges = 0, ReadSectors = 8, ReadTicks = 0, WriteIOs = 0, WriteMerges = 0,
     WriteSectors = 16, WriteTicks = 0, InFlight = 0, Raw_IOTicks = 4, TimeInQueue = 0\<rparr>"

definition vnode0 :: VNode where
  "vnode0 = \<lparr>BackendID = 7,
     VN_Status = \<lparr>State = BackendStateEnabled, St_DefragState = 0, LastStart = zero_time, LastStartErr = 0,
       St_RO = False, St_Delay = 0\<rparr>,
     VN_Backend = \<lparr>Be_Config = zero_config,
       Be_GlobalStats = \<lparr>DataSortStartTime = 0, DataSortCompletionTime = 0, DataSortCompletionStatus = 0\<rparr>,
       Be_SummaryStats = blobs0, Be_BaseStats = [],
       Be_VFS = \<lparr>BSize = 4096, FrSize = 4096, Blocks = 1000, BFree = 500, BAvail = 500\<rparr>,
       Be_DStat = dstat0, Be_Error = \<lparr>BE_Code = 0\<rparr>\<rparr>,
     VN_Commands = []\<rparr>"

definition unmarshal0 :: json_decoder where
  "unmarshal0 bs =
     (\<lparr>Timestamp = \<lparr>Sec = 100, USec = 0\<rparr>, MonitorStatus = ''enabled'', Backends = [(''7'', vnode0)],
       Commands = []\<rparr>, None)"

definition entry0 :: StatEntry where
  "entry0 = \<lparr>se_cmd = DnetCmd_zero, se_addr = addr0, se_stat = [], se_err = None\<rparr>"

text \<open>Statistics with one command counter.\<close>

definition counted0 :: "go_time \<Rightarrow> u64 \<Rightarrow> DnetStat" where
  "counted0 t n = \<lparr>DS_Time = t, Group = [(1, \<lparr>Ab = [(ab_of addr0 7, (NewStatBackend time0)\<lparr>SB_Commands :=
     [(''READ'', \<lparr>RequestsSuccess = n, RequestsFailures = 0, Bytes = 0, RPSFailures = Fin 0, RPSSuccess = Fin 0,
       BPS = Fin 0\<rparr>)]\<rparr>)]\<rparr>)]\<rparr>"

text \<open>A server of five bytes that answers every read with at most two.\<close>

definition piece0 :: "bytes \<Rightarrow> nat \<Rightarrow> readResult" where
  "piece0 obj k = (readResult_err EEOF)\<lparr>rr_err := None, rr_data := obj,
     rr_ioattr := DnetIOAttr_zero\<lparr>IO_TotalSize := of_nat k\<rparr>\<rparr>"

definition object0 :: bytes where
  "object0 = [10, 20, 30, 40, 50]"

fun asked :: "c_fn \<Rightarrow> u64 \<times> u64" where
  "asked (C_read_data k offset n) = (offset, n)"
| "asked _ = (0, 0)"

definition server0 :: range_env where
  "server0 ch w =
     (let (offset, n) = asked (call_fn (last (inflight w)))
      in Done ([ReadE (piece0 (take (min 2 (unat n)) (drop (unat offset) object0)) 5)], w))"

definition empty_server0 :: range_env where
  "empty_server0 ch w = Done ([ReadE (piece0 [] 5)], w)"

text \<open>A session at 0 and a key at 1.\<close>

definition serving0 :: "world \<Rightarrow> bool" where
  "serving0 w \<longleftrightarrow> sessions w 0 \<noteq> None \<and> ckeys w 1 \<noteq> None"

text \<open>The world with the session only.\<close>

definition session0 :: world where
  "session0 = snd (NewSession (\<lambda>_. []) 0 (init_world []))"

section \<open>Lemmas\<close>

lemma id_val0: "id_val (RawID (rawid0 64)) = Done 4611686018427387904"
  "id_val (RawID (rawid0 128)) = Done 9223372036854775808"
  by (simp_all add: rawid0_def id_val_def)

lemma vals0: "vals (snd low0) = {4611686018427387904}" "vals (snd high0) = {9223372036854775808}"
  by (auto simp: low0_def high0_def vals_def id_val0)

lemma fits0: "fits addr0"
  by (simp add: fits_def addr0_def)

lemma distinct0: "ab_of addr0 7 \<noteq> ab_of addr0 8"
  by (simp add: ab_of_def)

lemma group_wf0: "group_wf group0" "group_wf group1"
  using distinct0 fits0 by (auto simp: group_wf_def group0_def group1_def low0_def high0_def ab_of_wf fits_def)

lemma ids_long0: "ids_long (Ab group0)" "ids_long (Ab group1)"
  by (auto simp: ids_long_def group0_def group1_def low0_def high0_def rawid0_def)

lemma exclusive0: "exclusive (Ab group0)"
  using vals0 by (auto simp: exclusive_def group0_def low0_def high0_def)

lemma stores0: "store_ok prev0 store0" "store_ok next0 store0" "refs prev0 \<inter> refs next0 = {}"
  by (simp_all add: store_ok_def refs_def prev0_def next0_def store0_def)

lemma group_vals0: "group_vals (Ab group0) \<noteq> {}"
  using vals0 by (auto simp: group_vals_def group0_def low0_def high0_def)

lemma sums0: "\<forall>(ab, b) \<in> set (Ab group0). sb_sum b = 0"
  by (auto simp: group0_def low0_def high0_def NewStatBackend_def)

lemma stat_request0: "stat_result0 = Done (2, 3, statting0)"
  by (simp add: stat_result0_def DnetStat_request_def GetRoutes_def session_get_routes_def finalize_stat_def
      DnetStat_Finalize_def DnetStat_new_def op_defs ready0_eq init_world_def sess0_def statting0_def stat_call0_def
      delete_ctx_def Delete_def)


lemma statting0_reachable: "reachable lib0 statting0"
proof (rule reachable.step[OF ready0_reachable, of "Api (DnetStatA sess0 time0 [])"])
  show "enabled lib0 (Api (DnetStatA sess0 time0 [])) ready0" by (simp add: room_def ready0_eq init_world_def)
  show "exec lib0 (Api (DnetStatA sess0 time0 [])) ready0 = Done statting0"
    using stat_request0 by (simp add: stat_result0_def)
qed

lemma route_entry0: "NewRouteEntry lib8 route0 = Done routed_entry0"
  by (simp add: NewRouteEntry_def route0_def routed_entry0_def caddr0_def addr0_def NewDnetAddr_def c_GoBytes_def
      GoBytes_array_def lib8_def sint_ucast_u16)

lemma add_route0:
  "AddRouteEntry lib8 time0 routed_entry0 \<lparr>DS_Time = time0, Group = [(1, group0)]\<rparr> =
   Done \<lparr>DS_Time = time0, Group = [(1, \<lparr>Ab = [(fst low0, add_id (re_id routed_entry0) (snd low0)), high0]\<rparr>)]\<rparr>"
  using distinct0
  by (simp add: AddRouteEntry_def FindBackend_eq NewAddressBackend_eq routed_entry0_def addr0_def[symmetric]
      RouteEntry_ID_def ensure_def update_backend_def group0_def low0_def high0_def fits0[unfolded fits_def])

lemma routed0: "\<exists>w'. GetRoutes lib8 time0 [route0] sess0 3 routing0 = Done w'"
proof -
  let ?sg = "\<lparr>Ab = [(fst low0, add_id (re_id routed_entry0) (snd low0)), high0]\<rparr>"
  have "distinct (map fst (Ab ?sg))" using distinct0 by (simp add: low0_def high0_def)
  moreover have "ids_long (Ab ?sg)"
    by (auto simp: ids_long_def low0_def high0_def rawid0_def routed_entry0_def)
  ultimately obtain sg where "StatGroup_Finalize ?sg = Done sg" using Finalize_eq by blast
  then show ?thesis
    using add_route0
    by (simp add: GetRoutes_def session_get_routes_def finalize_stat_def DnetStat_Finalize_def op_defs routing0_def
        go_route_callback_def route_entry0 with_context_found ready0_eq init_world_def sess0_def delete_ctx_def)
qed

lemma ReadKey0:
  assumes "serving0 w"
  shows "\<exists>w1. ReadKey sess0 1 offset n w = Done (next_ptr w, w1) \<and> serving0 w1 \<and>
    asked (call_fn (last (inflight w1))) = (offset, n)"
  using assms by (auto simp: serving0_def ReadKey_def op_defs sess0_def)

lemma serves0: "serves serving0 server0 sess0 1 object0"
  unfolding serves_def
proof (intro allI impI)
  fix w and offset n :: u64
  assume "serving0 w" and "n \<noteq> 0"
  from ReadKey0[OF this(1), of offset n] obtain w1 where w1: "ReadKey sess0 1 offset n w = Done (next_ptr w, w1)" "serving0 w1"
      "asked (call_fn (last (inflight w1))) = (offset, n)"
    by blast
  let ?k = "min 2 (unat n)"
  let ?rd = "piece0 (take ?k (drop (unat offset) object0)) 5"
  have rd: "rr_err ?rd = None" "IO_TotalSize (rr_ioattr ?rd) = of_nat (length object0)"
      "rr_data ?rd = take ?k (drop (unat offset) object0)" "?k \<le> unat n" "0 < ?k"
    using \<open>n \<noteq> 0\<close> by (simp_all add: piece0_def object0_def unat_gt_0)
  have "[ReadE ?rd] = map (\<lambda>e. ReadE (readResult_err e)) [] @ ReadE ?rd # []" by simp
  then have "good_read object0 offset n [ReadE ?rd]" unfolding good_read_def using rd by blast
  then show "\<exists>ch w1 es w2. ReadKey sess0 1 offset n w = Done (ch, w1) \<and> server0 ch w1 = Done (es, w2) \<and>
      serving0 w2 \<and> good_read object0 offset n es"
    using w1 by (simp add: server0_def)
qed

lemma serves_nothing0: "serves_nothing serving0 empty_server0 sess0 1 5"
  unfolding serves_nothing_def
proof (intro allI impI)
  fix w and offset n :: u64
  assume "serving0 w"
  from ReadKey0[OF this, of offset n] obtain w1 where "ReadKey sess0 1 offset n w = Done (next_ptr w, w1)" "serving0 w1"
    by blast
  moreover have "rr_err (piece0 [] 5) = None" "rr_data (piece0 [] 5) = []" "IO_TotalSize (rr_ioattr (piece0 [] 5)) = 5"
    by (simp_all add: piece0_def)
  ultimately show "\<exists>ch w1 rd w2. ReadKey sess0 1 offset n w = Done (ch, w1) \<and> empty_server0 ch w1 = Done ([ReadE rd], w2) \<and>
      serving0 w2 \<and> rr_err rd = None \<and> rr_data rd = [] \<and> IO_TotalSize (rr_ioattr rd) = 5"
    unfolding empty_server0_def by blast
qed

lemma NewKey0: "NewKey [ArgString ''key''] session0 = (Inr 1, ready0)" "serving0 ready0"
  by (simp_all add: session0_def NewSession_def op_defs init_world_def NewKey_def new_ckey_def c_alloc_def ready0_def
      serving0_def)

end
