(* ===== verification/Settings.thy ===== *)
theory Settings
  imports Session
begin

text \<open>
  The getters of a session (\<^verbatim>\<open>GetTimeout\<close>, \<^verbatim>\<open>GetCflags\<close>, \<^verbatim>\<open>GetIOflags\<close>, \<^verbatim>\<open>GetTraceID\<close> of
  \<^verbatim>\<open>session.go\<close>) and the accessors of a key (\<^verbatim>\<open>ById\<close>, \<^verbatim>\<open>CmpID\<close> of \<^verbatim>\<open>key.go\<close>). What a session
  object answers is a function of the calls it was given; that function and the key
  object's own accessors belong to the client library and are arguments.
\<close>

section \<open>Definitions\<close>

record session_lib =
  lib_get_timeout :: "sess_call list \<Rightarrow> i64"      \<comment> \<open>a C \<^verbatim>\<open>long\<close>\<close>
  lib_get_cflags :: "sess_call list \<Rightarrow> u64"
  lib_get_ioflags :: "sess_call list \<Rightarrow> u32"
  lib_get_trace_id :: "sess_call list \<Rightarrow> u64"

definition sess_ask :: "(sess_call list \<Rightarrow> 'v) \<Rightarrow> ptr \<Rightarrow> world \<Rightarrow> 'v outcome" where
  "sess_ask get s w = (case sessions w s of None \<Rightarrow> Panic CUndefined | Some h \<Rightarrow> Done (get h))"

definition GetTimeout :: "session_lib \<Rightarrow> Session \<Rightarrow> world \<Rightarrow> i64 outcome" where
  "GetTimeout G s = sess_ask (lib_get_timeout G) (s_session s)"

definition GetCflags :: "session_lib \<Rightarrow> Session \<Rightarrow> world \<Rightarrow> u64 outcome" where
  "GetCflags G s = sess_ask (lib_get_cflags G) (s_session s)"

definition GetIOflags :: "session_lib \<Rightarrow> Session \<Rightarrow> world \<Rightarrow> u32 outcome" where
  "GetIOflags G s = sess_ask (lib_get_ioflags G) (s_session s)"

definition GetTraceID :: "session_lib \<Rightarrow> Session \<Rightarrow> world \<Rightarrow> u64 outcome" where
  "GetTraceID G s = sess_ask (lib_get_trace_id G) (s_session s)"

text \<open>\<^verbatim>\<open>ById\<close>: the C++ \<^verbatim>\<open>bool\<close> arrives as a C \<^verbatim>\<open>int\<close>.\<close>

definition key_by_id :: "(ell_key \<Rightarrow> bool) \<Rightarrow> ell_key \<Rightarrow> i32" where
  "key_by_id by_id k = (if by_id k then 1 else 0)"

definition ById :: "(ell_key \<Rightarrow> bool) \<Rightarrow> ptr \<Rightarrow> world \<Rightarrow> bool outcome" where
  "ById by_id k w = mapO (\<lambda>key. sint (key_by_id by_id key) > 0) (deref_key k w)"

text \<open>
  \<^verbatim>\<open>CmpID\<close>: \<^verbatim>\<open>memcmp\<close> over the size of an identifier; a shorter slice is read past its end.
  The value of \<^verbatim>\<open>memcmp\<close> is given by the C library, only its sign means something.
\<close>

definition key_id_cmp ::
    "ell_lib \<Rightarrow> (bytes \<Rightarrow> bytes \<Rightarrow> i32) \<Rightarrow> (ell_key \<Rightarrow> bytes) \<Rightarrow> ell_key \<Rightarrow> bytes \<Rightarrow> i32 outcome" where
  "key_id_cmp L memcmp raw_id key i =
     (if length i < DNET_ID_SIZE L then Panic CUndefined
      else Done (memcmp (take (DNET_ID_SIZE L) (raw_id key)) (take (DNET_ID_SIZE L) i)))"

definition CmpID ::
    "ell_lib \<Rightarrow> (bytes \<Rightarrow> bytes \<Rightarrow> i32) \<Rightarrow> (ell_key \<Rightarrow> bytes) \<Rightarrow> ptr \<Rightarrow> bytes \<Rightarrow> world \<Rightarrow> int outcome" where
  "CmpID L memcmp raw_id k i w =
     (if i = [] then Panic IndexOutOfRange
      else bindO (deref_key k w) (\<lambda>key. mapO sint (key_id_cmp L memcmp raw_id key i)))"

section \<open>Lemmas\<close>

text \<open>A library that remembers what was set last gives it back, flags in full width.\<close>

lemma set_then_ask:
  assumes "sess_do s c w = Done w'" "\<And>h. get (h @ [c]) = v"
  shows "sess_ask get s w' = Done v"
  using assms by (auto simp: sess_do_def sess_ask_def split: option.splits)

lemma flags_round_trip:
  assumes "\<And>h f. lib_get_cflags G (h @ [Set_cflags f]) = f" "SetCflags f s w = Done w'"
  shows "GetCflags G s w' = Done f"
  using assms set_then_ask[of "s_session s" "Set_cflags f" w w' "lib_get_cflags G" f]
  by (simp add: SetCflags_def GetCflags_def)

text \<open>The timeout goes through a C \<^verbatim>\<open>int\<close>: it comes back unless it does not fit in 32 bits.\<close>

lemma timeout_round_trip:
  assumes "\<And>h t. lib_get_timeout G (h @ [Set_timeout t]) = scast t" "SetTimeout t s w = Done w'"
  shows "GetTimeout G s w' = Done (scast (ucast t :: i32))"
  using assms set_then_ask[of "s_session s" "Set_timeout (ucast t)" w w' "lib_get_timeout G"]
  by (simp add: SetTimeout_def GetTimeout_def)

text \<open>Comparing with a key's own identifier.\<close>

lemma CmpID_equal:
  assumes "\<And>a b. memcmp a b = 0 \<longleftrightarrow> a = b" "ckeys w k = Some key" "DNET_ID_SIZE L \<le> length i" "i \<noteq> []"
  shows "CmpID L memcmp raw_id k i w = Done 0 \<longleftrightarrow>
    take (DNET_ID_SIZE L) (raw_id key) = take (DNET_ID_SIZE L) i"
proof -
  have "sint (c :: i32) = 0 \<longleftrightarrow> c = 0" for c by (metis signed_0 signed_word_eqI)
  then show ?thesis using assms by (simp add: CmpID_def key_id_cmp_def deref_key_def not_less)
qed

end
