(* ===== verification/Indexes.thy ===== *)
theory Indexes
  imports Bulk
begin

text \<open>
  The operations on secondary indexes (\<^verbatim>\<open>session.go\<close>): for all arguments, which request they
  send or how they end the program. Unlike the other operations that take a name they do not
  report on their channel that the key could not be made, they panic.
\<close>

section \<open>Definitions\<close>

text \<open>
  The operation returns a new channel, has sent this one request on the session, and has left
  no key object behind.
\<close>

definition sends :: "(ptr \<times> world) outcome \<Rightarrow> Session \<Rightarrow> c_fn \<Rightarrow> world \<Rightarrow> bool" where
  "sends r s fn w \<longleftrightarrow>
     (\<exists>ch w' c. r = Done (ch, w') \<and> chans w' ch = Some (chan_make 10) \<and> ckeys w' = ckeys w \<and>
        inflight w' = inflight w @ [c] \<and> call_session c = s_session s \<and> call_fn c = fn)"

definition no_key :: panic where
  "no_key = PanicMsg ''could not create new key''"

section \<open>Lemmas\<close>

lemma NewKey_made:
  assumes "fst (c_alloc w)"
  obtains xs where "NewKey [ArgString s] w = (Inr (next_ptr w), w\<lparr>alloc_fails := xs,
      next_ptr := Suc (next_ptr w), ckeys := (ckeys w)(next_ptr w \<mapsto> KeyRemote (c_string s))\<rparr>)"
  using assms by (cases rule: NewKey_string[of s w])
    (auto simp: NewKey_def new_ckey_def c_alloc_def Let_def new_ptr_def split: list.splits if_splits)

lemma NewKey_failed:
  assumes "\<not> fst (c_alloc w)"
  obtains xs where "NewKey [ArgString s] w = (Inl (EText ''could not create new key''), w\<lparr>alloc_fails := xs\<rparr>)"
  using assms by (cases rule: NewKey_string[of s w])
    (auto simp: NewKey_def new_ckey_def c_alloc_def Let_def new_ptr_def split: list.splits if_splits)

lemma c_alloc_new: "fst (c_alloc (w\<lparr>next_ptr := n, chans := m\<rparr>)) = fst (c_alloc w)"
  by (simp add: c_alloc_def split: list.split)

lemma fresh_key: "ptrs_ok w \<Longrightarrow> next_ptr w \<le> p \<Longrightarrow> (ckeys w)(p := None) = ckeys w"
  by (auto simp: ptrs_ok_def fun_eq_iff)

lemmas index_defs = op_defs defer_Free_def Key_Free_def sends_def fresh_key

lemma setOrUpdateIndexes_outcome:
  assumes "sessions w (s_session s) \<noteq> None" "ptrs_ok w"
  shows "if fst (c_alloc w)
    then (if indexes = [] then setOrUpdateIndexes s operation key indexes w = Panic IndexOutOfRange
      else sends (setOrUpdateIndexes s operation key indexes w) s
        (case operation of
           indexesSet \<Rightarrow> C_set_indexes (KeyRemote (c_string key)) (map (\<lambda>(i, d). (c_string i, d)) indexes)
         | indexesUpdate \<Rightarrow> C_update_indexes (KeyRemote (c_string key)) (map (\<lambda>(i, d). (c_string i, d)) indexes)) w)
    else setOrUpdateIndexes s operation key indexes w = Panic no_key"
proof (cases "fst (c_alloc w)")
  case True
  then obtain xs where "NewKey [ArgString key] w = (Inr (next_ptr w), w\<lparr>alloc_fails := xs,
      next_ptr := Suc (next_ptr w), ckeys := (ckeys w)(next_ptr w \<mapsto> KeyRemote (c_string key))\<rparr>)"
    by (rule NewKey_made)
  then show ?thesis using True assms by (auto simp: setOrUpdateIndexes_def index_defs)
next
  case False
  then obtain xs where "NewKey [ArgString key] w = (Inl (EText ''could not create new key''), w\<lparr>alloc_fails := xs\<rparr>)"
    by (rule NewKey_failed)
  then show ?thesis using False by (simp add: setOrUpdateIndexes_def no_key_def)
qed

lemma RemoveIndexes_outcome:
  assumes "sessions w (s_session s) \<noteq> None" "ptrs_ok w"
  shows "if fst (c_alloc w)
    then (if names = [] then RemoveIndexes s key names w = Panic IndexOutOfRange
      else sends (RemoveIndexes s key names w) s (C_remove_indexes (KeyRemote (c_string key)) (map c_string names)) w)
    else RemoveIndexes s key names w = Panic no_key"
proof (cases "fst (c_alloc w)")
  case True
  then obtain xs where "NewKey [ArgString key] w = (Inr (next_ptr w), w\<lparr>alloc_fails := xs,
      next_ptr := Suc (next_ptr w), ckeys := (ckeys w)(next_ptr w \<mapsto> KeyRemote (c_string key))\<rparr>)"
    by (rule NewKey_made)
  then show ?thesis using True assms by (auto simp: RemoveIndexes_def index_defs)
next
  case False
  then obtain xs where "NewKey [ArgString key] w = (Inl (EText ''could not create new key''), w\<lparr>alloc_fails := xs\<rparr>)"
    by (rule NewKey_failed)
  then show ?thesis using False by (simp add: RemoveIndexes_def no_key_def)
qed

lemma ListIndexes_outcome:
  assumes "sessions w (s_session s) \<noteq> None" "ptrs_ok w"
  shows "if fst (c_alloc w) then sends (ListIndexes s key w) s (C_list_indexes (KeyRemote (c_string key))) w
    else ListIndexes s key w = Panic no_key"
proof -
  let ?w = "w\<lparr>next_ptr := Suc (next_ptr w), chans := (chans w)(next_ptr w \<mapsto> chan_make 10)\<rparr>"
  show ?thesis
  proof (cases "fst (c_alloc w)")
    case True
    then have "fst (c_alloc ?w)" by (simp add: c_alloc_new)
    then obtain xs where "NewKey [ArgString key] ?w = (Inr (next_ptr ?w), ?w\<lparr>alloc_fails := xs,
        next_ptr := Suc (next_ptr ?w), ckeys := (ckeys ?w)(next_ptr ?w \<mapsto> KeyRemote (c_string key))\<rparr>)"
      by (rule NewKey_made)
    then show ?thesis using True assms by (simp add: ListIndexes_def index_defs)
  next
    case False
    then have "\<not> fst (c_alloc ?w)" by (simp add: c_alloc_new)
    then obtain xs where "NewKey [ArgString key] ?w = (Inl (EText ''could not create new key''), ?w\<lparr>alloc_fails := xs\<rparr>)"
      by (rule NewKey_failed)
    then show ?thesis using False by (simp add: ListIndexes_def op_defs no_key_def)
  qed
qed

lemma find_outcome:
  assumes "sessions w (s_session s) \<noteq> None"
  shows "if names = []
    then FindAllIndexes s names w = Panic IndexOutOfRange \<and> FindAnyIndexes s names w = Panic IndexOutOfRange
    else sends (FindAllIndexes s names w) s (C_find_all_indexes (map c_string names)) w \<and>
      sends (FindAnyIndexes s names w) s (C_find_any_indexes (map c_string names)) w"
  using assms by (auto simp: FindAllIndexes_def FindAnyIndexes_def findIndexes_def index_defs)

end
