(* ===== verification/Spec2Isabelle.thy ===== *)
theory Spec2Isabelle
  imports StatScenario Settings Indexes
begin

text \<open>
  Verification of the Go binding of the elliptics storage client (\<^verbatim>\<open>src/elliptics\<close>).

  The program. The binding starts asynchronous requests in a C++ client library. Each operation
  of a session (\<^verbatim>\<open>session.go\<close>, \<^verbatim>\<open>backend.go\<close>, \<^verbatim>\<open>stat.go\<close>, \<^verbatim>\<open>route.go\<close>) makes a response channel,
  takes numbers from a global counter, stores Go closures under them in a global pool
  (\<^verbatim>\<open>pool.go\<close>) and hands the numbers to the library. Later the library calls exported Go
  functions (\<^verbatim>\<open>callback.go\<close>) with such a number and a C structure; they convert the structure
  (\<^verbatim>\<open>ctogo.go\<close>), look the closure up, assert its type and run it; it sends on the channel. A final
  callback closes the channel and deletes the numbers. Bulk operations find the name of a
  result by its identifier in an array of keys (\<^verbatim>\<open>key.go\<close>, \<^verbatim>\<open>key.h\<close>). Statistics are read from
  such a channel and added up per group, server address and backend.

  The theories, in the order of import.
    Prelude: outcomes (a value, a panic, or waiting), printing of numbers, word lemmas.
    Errors (\<^verbatim>\<open>errors.go\<close>), Pool (\<^verbatim>\<open>pool.go\<close>), CtoGo (\<^verbatim>\<open>ctogo.go\<close>, \<^verbatim>\<open>dnet_attr.h\<close>), Channels (Go's
    buffered channels), Keys (\<^verbatim>\<open>key.go\<close>, \<^verbatim>\<open>key.h\<close>, \<^verbatim>\<open>key.cpp\<close>).
    GoSort: \<^verbatim>\<open>sort.Interface\<close> as a locale, and why \<open>sort\<close> may stand for \<^verbatim>\<open>sort.Sort\<close>.
    StatJson (\<^verbatim>\<open>stat_json.go\<close>), Floats (binary64), Stat (\<^verbatim>\<open>stat.go\<close> without its request, the
    entries of \<^verbatim>\<open>route.go\<close>), Ring (specification and proof of the shares), StatLaws (what the
    operations on statistics write), StatStore (the group objects of statistics by address, and
    when the operations on them implement those on values).
    World: the state of a program that uses the binding. The pool of the source holds Go values;
    here it holds the datatype \<open>goval\<close>, one constructor per closure, with the variables the
    closure captures. Channels, key objects, sessions, statistics and the variables of a chunked
    write are kept in maps from addresses.
    Results: the methods of the result types.
    Closures: what each closure does. Callbacks: the exported functions and their C++ callers.
    Session, SessionOps, StatOps: the operations. Settings: getters. StreamHttp: \<^verbatim>\<open>StreamHTTP\<close>.
    Node: \<^verbatim>\<open>node.go\<close>, \<^verbatim>\<open>node.cpp\<close>, with the C memory that \<^verbatim>\<open>AddRemotes\<close> fills and frees.
    Requests, Starts, Finishes: the invariant \<open>inv\<close> of the world (which request owns which
    contexts, channel, key array and variables, and that no two own the same), that starting a
    request extends it, and that results and ends keep it.
    Protocol: the events (\<open>event\<close>), the reachable states and runs; Objects: buffers and
    statistics in reachable states; Liveness: every request can be ended.
    Streams: the contract of an operation that forwards its results, as a locale, and its
    extension to results without errors of their own; Backpressure: channels nobody receives
    from; Chunks: chunked writes against a plan; Bulk: what a bulk write sends and what becomes
    of its results; Indexes: the index operations; StatRun: whole statistics operations;
    Scenario, StatScenario: concrete states for the witnesses.

  Correspondence. A definition has the name of the function, method or type it models (with a
  prefix where that name is taken); a closure is named after its function, as
  \<open>ReadKey_onFinish\<close>. Machine integers keep their width; a Go map is a map or, where its order
  of iteration matters, an association list in that arbitrary order; \<^verbatim>\<open>panic\<close>, a failed type
  assertion, an index out of range and undefined C++ behaviour are values of \<open>panic\<close>; \<open>Block\<close> is
  a goroutine that waits on a full channel. \<^verbatim>\<open>float64\<close> is binary64 with rounding to even.
  A callback is one step. Where it would wait, it is taken to run when its channel has room:
  what it does before touches only what its request owns.

  Parameters. The client library (\<open>ell_lib\<close>, \<open>session_lib\<close>, \<open>node_lib\<close>: sizes of identifiers and
  addresses, the identifier of a key, parsing and printing of addresses, connecting), the JSON
  decoder, the clock, which allocations fail, and in which order and with which results the
  library reports. What it may report: results of the kind the request was connected to
  (\<open>connected\<close>) with lengths that fit their buffers (\<open>reply_sized\<close>), and one end per request, by
  the handler it was given (\<open>completion_sized\<close>). Not everything of that kind is handled: a read
  entry without its parts (\<open>reply_complete\<close>) and a successful backend request with an empty
  result (\<open>status_present\<close>) end the program, as C1 and C2 prove. Executions that go on do
  without these, so the events of the reachable states and runs have both (\<open>reply_wf\<close>,
  \<open>completion_ok\<close>). A session is deleted when none of its requests is in flight. \<open>room\<close> says that
  the 64-bit counter has not run out.

  What is shown. C1 to C4, C32, C38: invariants of all reachable states (no panic in callbacks,
  no leaks, isolation, well-formed statistics) and that every request can be ended. C5 to C7,
  C37: what the consumer of a channel sees, and what happens without one. C9 to C11: chunked
  writes. C12, C13, C16: key arrays; C14, C15: bulk writes. C17, C19: conversions. C18: nodes.
  C20: sorting. C21 to C25: starting operations and their errors. C26 to C31, C33, C36: the
  statistics; C34, C35: their group objects. C39, C40: HTTP streaming. C8, C11, C13, C14, C19,
  C25, C29, C35 and C40 are proved properties of the code that are probably not meant; so are
  parts of C1, C2, C7, C15, C24, C31, C33 and C36.

  Loops. All recursion is structural but for \<open>lb_loop\<close>, which stands for \<^verbatim>\<open>std::lower_bound\<close> of the
  C++ library (a measure), \<open>nbits\<close>, and
  \<open>StreamHTTP_loop\<close>, which may not return and is a partial function: C39 proves when it does,
  C40 when it does not. No fuel is used.

  Not modelled: \<^verbatim>\<open>logger.go\<close> (an unused type), \<^verbatim>\<open>flags.go\<close> (constants of the C headers), \<^verbatim>\<open>doc.go\<close>,
  \<^verbatim>\<open>elliptics.go\<close>, the examples (they do not compile against this package), the tests, log
  output. The world keeps statistics as values, which C34 justifies while no group is shared;
  after \<^verbatim>\<open>Diff\<close> groups can be shared, and only StatStore follows that (C35).
\<close>

section \<open>Requests and their callbacks\<close>



text \<open>
  C2. In every reachable state, the end of a request in flight is handled without a panic (no
  missing context, no failed type assertion, no send on or second close of a closed channel,
  no use of a freed object), and at once when the request's channel has room; with one
  exception: \<^verbatim>\<open>on_backend_status\<close> reads the first element of a result without a test, which is
  undefined when a backend request succeeds with an empty one.
\<close>

theorem completions_never_panic:
  assumes "reachable L w" "c \<in> set (inflight w)" "completion_sized (call_fn c) x"
  shows "(status_present x \<longrightarrow> \<not> panics (complete c x w) \<and> (may_proceed w c \<longrightarrow> returns (complete c x w))) \<and>
    (\<not> status_present x \<longrightarrow> complete c x w = Panic CUndefined)"
  using complete_proceeds[OF invD(3)[OF reachable_inv[OF assms(1)] assms(2)]] complete_no_status[OF assms(3)]
    assms(3) by blast

theorem completions_never_panic_witness:
  "returns (complete read0 (Final ok0) reading0)"
  using completions_never_panic[OF reading0_reachable, of read0 "Final ok0"]
  by (simp add: reading0_eq read0_def may_proceed_def resp_chan_def chan_has_room_def)

text \<open>
  C3. Nothing leaks: when no request is in flight, the pool is empty and every channel any
  operation has returned is closed, so every consumer's \<^verbatim>\<open>range\<close> loop ends.
\<close>

theorem idle_is_clean:
  assumes "reachable L w" "inflight w = []"
  shows "pool w = Map.empty \<and> (\<forall>p b. chans w p = Some b \<longrightarrow> ch_closed b)"
  using idle_clean[OF reachable_inv[OF assms(1)] assms(2)] .

theorem idle_is_clean_witness: "pool ready0 = Map.empty"
  using idle_is_clean[OF ready0_reachable] by (simp add: ready0_eq init_world_def)

text \<open>
  C4. Requests do not disturb each other: an event that is not a result or the end of the
  request \<open>c\<close> (a call of the user, a callback of another request, a receive, the deletion of
  an idle session) leaves \<open>c\<close> in flight with its contexts, closures, channel log, key array
  and variables as they were.
\<close>

theorem requests_isolated:
  assumes "reachable L w" "enabled L e w" "exec L e w = Done w'" "c \<in> set (inflight w)" "\<not> concerns c e"
  shows "undisturbed c w w'"
  using isolation[OF reachable_inv[OF assms(1)] assms(2-5)] .

theorem requests_isolated_witness: "undisturbed read0 reading0 both0"
  by (rule requests_isolated[OF reading0_reachable, of "Api (LookupA sess0 1)"])
    (simp_all add: reading0_eq ready0_eq both0_def room_def init_world_def done_world_def
      Lookup_def op_defs sess0_def)

text \<open>
  C5. What the caller of \<^verbatim>\<open>ReadKey\<close> gets: whatever else happens before and after, once its
  request has ended the channel is closed and has carried exactly the results that were
  delivered, converted and in order, then the error if the request failed, and nothing else.
  As the documentation promises, \<^verbatim>\<open>Error()\<close> is nil on every value but the last, where it gives
  the error of the request (\<open>error_last\<close>).
\<close>

theorem ReadKey_stream:
  assumes "reachable L w" "room 3 w" "ReadKey s key offset sz w = Done (ch, w0)"
    and "c = last (inflight w0)" "no_completion c es" "run L (es @ Complete c (Final e) # es') w0 w'"
  shows "finished_with (map (read_elem L) (replies_of c es) @
    (case final_error e of None \<Rightarrow> [] | Some x \<Rightarrow> [ReadE (readResult_err x)])) ch w' \<and>
    error_last (map (read_elem L) (replies_of c es) @
      (case final_error e of None \<Rightarrow> [] | Some x \<Rightarrow> [ReadE (readResult_err x)])) (final_error e)"
proof -
  have inv: "inv w0" using ReadKey_ext[OF reachable_inv[OF assms(1)] assms(2,3)] extends_inv by blast
  then show ?thesis
    using rd.stream_life[OF inv _ _ assms(6,5)] rd.stream_error_last[OF inv _ assms(6)]
      ReadKey_streams[OF assms(2,3)] assms(4) by blast
qed

theorem ReadKey_stream_witness: "finished_with [read_elem lib0 (ReadR grr0)] 2 ended0"
  using ReadKey_stream[OF ready0_reachable _ reading0_start _ _ reading0_run]
  by (simp add: ready0_eq init_world_def room_def reading0_eq no_completion_def final_error_def ok0_def
      del: read_elem.simps)

text \<open>
  C6. The same for \<^verbatim>\<open>Lookup\<close>: the channel carries one value per entry the library reported
  (a lookup result, or the entry's own error), in order, then the error of the whole request.
\<close>

theorem Lookup_stream:
  assumes "reachable L w" "room 3 w" "Lookup s key w = Done (ch, w0)"
    and "c = last (inflight w0)" "no_completion c es" "run L (es @ Complete c (Final e) # es') w0 w'"
  shows "finished_with (map (lookup_elem L) (replies_of c es) @
    (case final_error e of None \<Rightarrow> [] | Some x \<Rightarrow> [LookupE (lookupResult_err x)])) ch w'"
proof -
  have "inv w0" using Lookup_ext[OF reachable_inv[OF assms(1)] assms(2,3)] extends_inv by blast
  then show ?thesis
    using lk.stream_life[OF _ _ _ assms(6,5)] Lookup_streams[OF assms(2,3)] assms(4) by blast
qed

theorem Lookup_stream_witness:
  "\<exists>w'. finished_with [LookupE (lookupResult_err (EDnet \<lparr>Code = - 2, Flags = 0, Message = ''not found''\<rparr>))] 3 w'"
proof -
  have c: "lookup0 \<in> set (inflight both0)" "completion_ok (call_fn lookup0) (Final enoent0)"
    by (simp_all add: both0_eq lookup0_def)
  have "may_proceed both0 lookup0"
    by (simp add: may_proceed_def resp_chan_def both0_eq lookup0_def chan_has_room_def)
  then obtain w' where w': "complete lookup0 (Final enoent0) both0 = Done w'"
    using complete_proceeds(2)[OF invD(3)[OF reachable_inv[OF both0_reachable] c(1)] c(2)]
    by (auto simp: returns_iff)
  then have "run lib0 ([] @ Complete lookup0 (Final enoent0) # []) both0 w'"
    using c by (auto intro!: run.intros)
  from Lookup_stream[OF reading0_reachable _ both0_start _ _ this] show ?thesis
    by (auto simp: reading0_eq room_def both0_eq no_completion_def final_error_def enoent0_def c_string_def)
qed

text \<open>
  C7. A consumer that stops receiving blocks the library. Of the results of a read whose
  channel nobody receives from, whatever else happens, at most ten are handled; the callback
  with the next one waits, as does the callback that reports a failure of the request.
\<close>

theorem abandoned_channel_blocks:
  assumes "reachable L w" "room 3 w" "ReadKey s key offset sz w = Done (ch, w0)"
    and "c = last (inflight w0)" "run L es w0 w'" "no_completion c es" "Receive ch \<notin> set es"
    and "connected (call_fn c) r" "reply_wf L r" "final_error e \<noteq> None"
  shows "length (replies_of c es) \<le> 10 \<and>
    (if length (replies_of c es) = 10
     then exec L (Reply c r) w' = Block \<and> exec L (Complete c (Final e)) w' = Block
     else returns (exec L (Reply c r) w'))"
proof -
  have inv: "inv w0" using ReadKey_ext[OF reachable_inv[OF assms(1)] assms(2,3)] extends_inv by blast
  have st: "streaming (\<lambda>ch. FnRead (ReadKeyRes ch)) ReadKeyFin c ch w0"
    using ReadKey_streams[OF assms(2,3)] assms(4) by blast
  note abandoned = rd.abandoned[OF inv st ReadKey_chan[OF assms(3)] assms(5-7)]
  show ?thesis using abandoned(1) abandoned(2)[OF assms(8,9)] abandoned(3)[OF _ assms(10)] by auto
qed

theorem abandoned_channel_blocks_witness:
  "\<exists>w'. run lib0 (replicate 10 (Reply read0 (ReadR grr0))) reading0 w' \<and>
    exec lib0 (Reply read0 (ReadR grr0)) w' = Block"
proof -
  let ?es = "replicate 10 (Reply read0 (ReadR grr0))"
  have room: "room 3 ready0" by (simp add: room_def ready0_eq init_world_def)
  have c: "read0 = last (inflight reading0)" by (simp add: reading0_eq)
  have r: "connected (call_fn read0) (ReadR grr0)" by (simp add: read0_def)
  have st: "streaming (\<lambda>ch. FnRead (ReadKeyRes ch)) ReadKeyFin read0 2 reading0"
    using ReadKey_streams[OF room reading0_start] c by simp
  obtain w' where w': "run lib0 ?es reading0 w'" "replies_of read0 ?es = replicate 10 (ReadR grr0)"
    using rd.abandoned_fills[OF reachable_inv[OF reading0_reachable] st ReadKey_chan[OF reading0_start] r grr0_wf, of 10]
    by auto
  have es: "no_completion read0 ?es" "Receive 2 \<notin> set ?es" by (auto simp: no_completion_def list_all_iff)
  have "final_error failure \<noteq> None" by (simp add: final_error_def failure_def)
  from abandoned_channel_blocks[OF ready0_reachable room reading0_start c w'(1) es r grr0_wf this] w'
  show ?thesis by auto
qed

text \<open>
  C8. Every result of a plain write (\<^verbatim>\<open>Write\<close>, \<^verbatim>\<open>WriteKey\<close>, \<^verbatim>\<open>WriteData\<close> of a small object) or
  of a cache write (\<^verbatim>\<open>Cache\<close>, \<^verbatim>\<open>WriteCache\<close>) panics: the pool holds an \<^verbatim>\<open>onLookupCallback\<close>, and
  \<^verbatim>\<open>go_lookup_callback\<close> and \<^verbatim>\<open>go_lookup_error\<close> assert \<^verbatim>\<open>func(*lookupResult)\<close>, a different type.
\<close>

theorem write_results_panic:
  assumes "reachable L w" "c \<in> set (inflight w)" "connected (call_fn c) r" "\<not> typed_fn (call_fn c)"
  shows "deliver L r (call_result c) w = Panic TypeAssertion"
  using deliver_untyped[OF invD(3)[OF reachable_inv[OF assms(1)] assms(2)] assms(3,4)] .

theorem write_results_panic_witness:
  "deliver lib0 (LookupR ok0 glr0) (call_result write0) writing0 = Panic TypeAssertion"
  by (rule write_results_panic[OF writing0_reachable]) (simp_all add: writing0_eq write0_def)

section \<open>Chunked writes\<close>

text \<open>
  C9. A chunked write whose reader delivers non-empty pieces of the announced total size hands
  the library exactly the planned requests, in order and whatever other events come in
  between: a prepare with the first piece, plain writes, and one commit with the last piece.
  \<open>fns\<close> are the calls the successful completions so far have led to, \<open>d\<close> is the latest request,
  and \<open>more\<close> is the rest of the plan. The end of \<open>d\<close> is handled at once when the channel has
  room; after a success the next request of the plan is in flight (unless its key cannot be
  allocated), and after the last one the channel is closed and nothing more is sent.
\<close>

theorem WriteChunk_requests:
  assumes "reachable L w" "room 3 w" "WriteChunk s key input off sz w = Done (ch, w0)"
    and "inflight w0 \<noteq> inflight w"
    and "input = map (\<lambda>bs. (bs, None)) (b # bss) @ rest" "\<forall>bs \<in> set bss. bs \<noteq> []"
    and "sum_list (map length (b # bss)) < 18446744073709551616"
    and "sz = of_nat (sum_list (map length (b # bss)))" "chain L (last (inflight w0)) w0 fns d w'"
  shows "\<exists>more. C_write_prepare (KeyRemote (c_string key)) off sz b #
      plan (KeyRemote (c_string key)) (off + of_nat (length b)) bss = call_fn (last (inflight w0)) # fns @ more \<and>
    d \<in> set (inflight w') \<and> (may_proceed w' d \<longrightarrow> returns (exec L (Complete d (Final e)) w')) \<and>
    (\<forall>w''. final_error e = None \<longrightarrow> exec L (Complete d (Final e)) w' = Done w'' \<longrightarrow>
      (more = [] \<longrightarrow> (\<forall>c \<in> set (inflight w''). call_final c \<noteq> call_final d) \<and>
        (\<exists>x. chans w'' ch = Some x \<and> ch_closed x)) \<and>
      (more \<noteq> [] \<longrightarrow> fst (c_alloc w') \<longrightarrow>
        (\<exists>c \<in> set (inflight w''). call_final c = call_final d \<and> call_fn c = hd more)))"
  using WriteChunk_follows[OF reachable_inv[OF assms(1)] assms(2-9)] .

theorem WriteChunk_requests_witness:
  "\<exists>w2. complete prepare0 (Final ok0) chunks0 = Done w2 \<and>
    (\<exists>c \<in> set (inflight w2). call_fn c = C_write_commit (KeyRemote ''key'') 102 103 [3])"
proof -
  have last: "last (inflight chunks0) = prepare0" and new: "inflight chunks0 \<noteq> inflight ready0"
    by (simp_all add: chunks0_eq ready0_eq init_world_def)
  have room: "room 3 ready0" by (simp add: room_def ready0_eq init_world_def)
  have ok: "final_error ok0 = None" by (simp add: final_error_def ok0_def)
  obtain w2 where w2: "complete prepare0 (Final ok0) chunks0 = Done w2" using chunks0_commit by blast
  have "chain lib0 (last (inflight chunks0)) chunks0 [] prepare0 chunks0"
    unfolding last by (rule chain_here[OF run_Nil]) (simp add: no_completion_def)
  from WriteChunk_requests[OF ready0_reachable room chunks0_start new _ _ _ _ this, of "[1, 2]" "[[3]]" "[]" ok0]
  obtain more where more: "C_write_prepare (KeyRemote (c_string ''key'')) 100 3 [1, 2] #
        plan (KeyRemote (c_string ''key'')) (100 + of_nat (length [1 :: u8, 2])) [[3]] = call_fn prepare0 # [] @ more"
      "\<forall>w''. final_error ok0 = None \<longrightarrow> exec lib0 (Complete prepare0 (Final ok0)) chunks0 = Done w'' \<longrightarrow>
        (more \<noteq> [] \<longrightarrow> fst (c_alloc chunks0) \<longrightarrow>
          (\<exists>c \<in> set (inflight w''). call_final c = call_final prepare0 \<and> call_fn c = hd more))"
    unfolding last by auto
  have "more = [C_write_commit (KeyRemote ''key'') 102 103 [3]]" using more(1) by simp
  moreover have "fst (c_alloc chunks0)" by (simp add: c_alloc_def chunks0_eq ready0_eq init_world_def)
  ultimately show ?thesis using more(2) w2 ok by auto
qed

text \<open>
  C10. When such a write has run to its end (its latest request completes without error, the
  next key could be allocated, and none of its requests is left), the requests it has made
  wrote every byte of the input exactly once and in place: the piece at position \<open>i\<close> went to the
  initial offset plus the lengths of the pieces before it. Of the pieces after the first,
  exactly the last was written by a commit, whose size is the end of the data, all others by
  plain writes; and the channel is closed.
\<close>

theorem WriteChunk_covers_input:
  assumes "reachable L w" "room 3 w" "WriteChunk s key input off sz w = Done (ch, w0)"
    and "inflight w0 \<noteq> inflight w"
    and "input = map (\<lambda>bs. (bs, None)) (b # bss) @ rest" "\<forall>bs \<in> set bss. bs \<noteq> []"
    and "sum_list (map length (b # bss)) < 18446744073709551616"
    and "sz = of_nat (sum_list (map length (b # bss)))" "chain L (last (inflight w0)) w0 fns d w'"
    and "final_error e = None" "fst (c_alloc w')" "exec L (Complete d (Final e)) w' = Done w''"
    and "\<forall>c \<in> set (inflight w''). call_final c \<noteq> call_final d"
  shows "map write_at (call_fn (last (inflight w0)) # fns) =
      map (\<lambda>i. Some (off + of_nat (sum_list (map length (take i (b # bss)))), (b # bss) ! i)) [0 ..< length (b # bss)] \<and>
    (bss \<noteq> [] \<longrightarrow> fns =
      map (\<lambda>(o', x). C_write_plain (KeyRemote (c_string key)) o' x) (butlast (layout (off + of_nat (length b)) bss)) @
      [C_write_commit (KeyRemote (c_string key)) (fst (last (layout (off + of_nat (length b)) bss)))
        (off + of_nat (length b) + of_nat (sum_list (map length bss))) (last bss)]) \<and>
    (\<exists>x. chans w'' ch = Some x \<and> ch_closed x)"
proof -
  let ?k = "KeyRemote (c_string key)" and ?o = "off + of_nat (length b)"
  obtain more where more: "C_write_prepare ?k off sz b # plan ?k ?o bss = call_fn (last (inflight w0)) # fns @ more"
      "more = []" "\<exists>x. chans w'' ch = Some x \<and> ch_closed x"
    using WriteChunk_follows[OF reachable_inv[OF assms(1)] assms(2-9), of e] assms(10-13) by blast
  have "map write_at (call_fn (last (inflight w0)) # fns) = map write_at (C_write_prepare ?k off sz b # plan ?k ?o bss)"
    by (simp only: more(1,2) append_Nil2)
  also have "\<dots> = map Some (layout off (b # bss))" by (simp add: plan_layout)
  also have "layout off (b # bss) =
      map (\<lambda>i. (off + of_nat (sum_list (map length (take i (b # bss)))), (b # bss) ! i)) [0 ..< length (b # bss)]"
    by (rule nth_equalityI) (simp_all only: layout_length length_map length_upt nth_map nth_upt layout_nth
        diff_zero add_0)
  finally show ?thesis using more plan_commits[of bss ?k ?o] by (simp add: comp_def)
qed

theorem WriteChunk_covers_input_witness:
  "map write_at [call_fn prepare0, call_fn commit0] = [Some (100, [1, 2]), Some (102, [3])]"
proof -
  have last: "last (inflight chunks0) = prepare0" and new: "inflight chunks0 \<noteq> inflight ready0"
    by (simp_all add: chunks0_eq ready0_eq init_world_def)
  have room: "room 3 ready0" by (simp add: room_def ready0_eq init_world_def)
  have ok: "final_error ok0 = None" by (simp add: final_error_def ok0_def)
  obtain w2 w4 where w: "chain lib0 (last (inflight chunks0)) chunks0 [call_fn commit0] commit0 w2" "fst (c_alloc w2)"
      "exec lib0 (Complete commit0 (Final ok0)) w2 = Done w4" "\<forall>c \<in> set (inflight w4). call_final c \<noteq> call_final commit0"
    using chunks0_chain unfolding last by auto
  from WriteChunk_covers_input[OF ready0_reachable room chunks0_start new _ _ _ _ w(1) ok w(2-4),
      of "[1, 2]" "[[3]]" "[]"]
  show ?thesis unfolding last by (simp add: upt_rec)
qed

text \<open>
  C11. When the first read already delivers everything, the prepare is the only request that
  is ever sent: a chunked write of such an input is never committed.
\<close>

theorem single_read_never_commits:
  assumes "reachable L w" "room 3 w" "WriteChunk s key ((b, None) # rest) off (of_nat (length b)) w = Done (ch, w0)"
    and "inflight w0 \<noteq> inflight w" "length b < 18446744073709551616"
    and "chain L (last (inflight w0)) w0 fns d w'"
  shows "call_fn (last (inflight w0)) = C_write_prepare (KeyRemote (c_string key)) off (of_nat (length b)) b \<and> fns = []"
  by (rule WriteChunk_plan[OF reachable_inv[OF assms(1)] assms(2-4), of b "[]" rest L fns d w']) (use assms(5,6) in auto)

theorem single_read_never_commits_witness:
  "call_fn (last (inflight single0)) = C_write_prepare (KeyRemote ''key'') 100 2 [1, 2]"
proof -
  have room: "room 3 ready0" by (simp add: room_def ready0_eq init_world_def)
  have new: "inflight single0 \<noteq> inflight ready0" by (simp add: single0_inflight ready0_eq init_world_def)
  have "chain lib0 (last (inflight single0)) single0 [] (last (inflight single0)) single0"
    by (rule chain_here[OF run_Nil]) (simp add: no_completion_def)
  moreover have "WriteChunk sess0 ''key'' [([1, 2], None)] 100 (of_nat (length [1::u8, 2])) ready0 = Done (2, single0)"
    using single0_start by simp
  ultimately show ?thesis
    using single_read_never_commits[OF ready0_reachable room _ new] by fastforce
qed

section \<open>Key arrays\<close>

text \<open>
  C12. On an array whose identifiers are sorted and distinct, \<^verbatim>\<open>Find\<close> answers an identifier of
  the array with the name of its key.
\<close>

theorem Find_present:
  assumes "sorted (idents L keys)" "distinct (idents L keys)" "i < length (kk keys)" "kk keys ! i \<noteq> []"
    and "idents L keys ! i = take (DNET_ID_SIZE L) x" "x \<noteq> []"
  shows "Keys_Find L keys x = Done (Inr (c_string (kk keys ! i)))"
proof (rule Keys_Find_at[OF assms(1,3,6,4)])
  have len: "length (idents L keys) = length (kk keys)" by (simp add: idents_def)
  show "idents L keys ! j < take (DNET_ID_SIZE L) x" if "j < i" for j
    using sorted_nth_mono[OF assms(1), of j i] assms(2,3,5) that len
    by (metis less_le_trans nat_less_le nth_eq_iff_index_eq order_less_le order.strict_trans)
qed (simp add: assms(5))

theorem Find_present_witness:
  "Keys_Find lib0 \<lparr>kk = [''a'', ''bb''], kk_transformed = True\<rparr> [2, 0] = Done (Inr ''bb'')"
  using Find_present[of lib0 "\<lparr>kk = [''a'', ''bb''], kk_transformed = True\<rparr>" 1 "[2, 0]"]
  by (simp add: idents_def key_ident_def lib0_def c_string_def)

text \<open>
  C13. \<^verbatim>\<open>Find\<close> does not test what it found. An identifier that is not in a sorted array, but
  smaller than some identifier of it, is answered with the name of the next greater key. And
  \<^verbatim>\<open>NewKeys\<close> sorts by name: where two names and their identifiers are ordered differently, the
  second key is reported under the name of the first, and the first is not found at all.
\<close>

theorem Find_unchecked:
  "(sorted (idents L keys) \<and> i < length (kk keys) \<and> kk keys ! i \<noteq> [] \<and> x \<noteq> [] \<and>
      take (DNET_ID_SIZE L) x < idents L keys ! i \<and>
      (\<forall>j < i. idents L keys ! j < take (DNET_ID_SIZE L) x) \<longrightarrow>
    Keys_Find L keys x = Done (Inr (c_string (kk keys ! i)))) \<and>
   (a < b \<and> a \<noteq> [] \<and> key_transform L a \<noteq> [] \<and> key_transform L b \<noteq> [] \<and>
      take (DNET_ID_SIZE L) (key_transform L b) < take (DNET_ID_SIZE L) (key_transform L a) \<longrightarrow>
    Keys_Find L \<lparr>kk = sort [b, a], kk_transformed = True\<rparr> (key_transform L b) = Done (Inr (c_string a)) \<and>
    Keys_Find L \<lparr>kk = sort [b, a], kk_transformed = True\<rparr> (key_transform L a) =
      Done (Inl (EText ''could not find key for given ID'')))"
  using Find_absent[of L keys i x] Find_wrong_key[of a b L] by blast

theorem Find_unchecked_witness:
  "Keys_Find lib0 \<lparr>kk = [''a'', ''bb''], kk_transformed = True\<rparr> [1, 7] = Done (Inr ''bb'') \<and>
   Keys_Find lib1 \<lparr>kk = [''a'', ''b''], kk_transformed = True\<rparr> [1, 0] = Done (Inr ''a'')"
  using Find_unchecked[of lib0 "\<lparr>kk = [''a'', ''bb''], kk_transformed = True\<rparr>" 1 "[1, 7]"]
    Find_unchecked[of lib1 _ _ _ "''a''" "''b''"]
  by (simp add: idents_def key_ident_def lib1_def lib0_def c_string_def less_char_def)

text \<open>
  C14. The keys of a bulk write are never transformed, so whatever happens before and in
  between, every successful result is dropped, or attributed to the name that comes first in
  the order of names, whichever of the objects its identifier belongs to. It is dropped when
  that identifier is greater than the one all keys are made with, or when some name is empty.
\<close>

theorem bulk_write_misattributes:
  assumes "reachable L w" "room 3 w" "alloc_fails w = []" "BulkWrite L s attrs data w = Done (ch, w0)"
    and "c = last (inflight w0)" "run L es w0 w'" "no_completion c es" "reply_wf L (LookupR e r)" "ei_code e = 0"
  shows "\<exists>x. lookup_elem L (LookupR e r) = LookupE x \<and> exec L (Reply c (LookupR e r)) w' =
    (if take (DNET_ID_SIZE L) (key_initial_id L) < take (DNET_ID_SIZE L) (cc_id (glr_cmd r)) \<or> [] \<in> set (id_names attrs)
     then Done w' else send ch (LookupE (x\<lparr>lr_key := c_string (hd (sort (id_names attrs)))\<rparr>)) w')"
proof -
  have "inv w0" using BulkWrite_ext[OF reachable_inv[OF assms(1)] assms(2,4)] extends_inv by blast
  moreover have start: "ch = Suc (next_ptr w)" "w0 = bulk_started L s attrs data w" "attrs \<noteq> []"
    using assms(4) BulkWrite_eq[OF assms(3), of L s attrs data] by (auto split: if_splits)
  moreover have "id_names attrs \<noteq> []" using start(3) by (simp add: id_names_def)
  ultimately show ?thesis
    using bulk_reply[OF bulk_writing_run[OF assms(6)] _ assms(8,9)] bulk_writing_started[OF assms(2)] assms(5,7) by blast
qed

theorem bulk_write_misattributes_witness:
  "\<exists>x. exec lib0 (Reply (last (inflight bulk0)) (LookupR ok0 (glr0\<lparr>glr_cmd := cmd0\<lparr>cc_id := [0, 0]\<rparr>\<rparr>))) bulk0 =
      send 3 (LookupE (x\<lparr>lr_key := ''a''\<rparr>)) bulk0 \<and>
    exec lib0 (Reply (last (inflight bulk0)) (LookupR ok0 glr0)) bulk0 = Done bulk0"
proof -
  have w: "room 3 ready0" "alloc_fails ready0 = []" by (simp_all add: room_def ready0_eq init_world_def)
  have wf: "reply_wf lib0 (LookupR ok0 (glr0\<lparr>glr_cmd := cmd0\<lparr>cc_id := [0, 0]\<rparr>\<rparr>))" "reply_wf lib0 (LookupR ok0 glr0)"
    by (simp_all add: glr0_def cmd_wf_def cmd0_def lib0_def c_addr_ok_def caddr0_def)
  have "no_completion (last (inflight bulk0)) []" by (simp add: no_completion_def)
  note m = bulk_write_misattributes[OF ready0_reachable w bulk0_start refl run_Nil this]
  have ids: "take (DNET_ID_SIZE lib0) (key_initial_id lib0) = [0, 0]"
      "take (DNET_ID_SIZE lib0) (cc_id (glr_cmd (glr0\<lparr>glr_cmd := cmd0\<lparr>cc_id := [0, 0]\<rparr>\<rparr>))) = [0, 0]"
      "take (DNET_ID_SIZE lib0) (cc_id (glr_cmd glr0)) = [3, 0]"
    by (simp_all add: lib0_def glr0_def cmd0_def)
  have names: "[] \<notin> set (id_names attrs0)" "c_string (hd (sort (id_names attrs0))) = ''a''"
    by (simp_all add: names0 c_string_def) (simp add: id_names_def attrs0_def attr0_def string_of_bytes_def)
  have ok: "ei_code ok0 = 0" and lt: "\<not> [0, 0 :: u8] < [0, 0]" "[0, 0 :: u8] < [3, 0]" by (simp_all add: ok0_def)
  from m[OF wf(1) ok] m[OF wf(2) ok] show ?thesis
    unfolding ids names(2) using names(1) lt by (auto simp del: exec.simps lookup_elem.simps)
qed





section \<open>Data crossing the language border\<close>

text \<open>
  C17. An address that goes to C and back is kept, up to the bytes that do not fit the array
  of \<^verbatim>\<open>struct dnet_addr\<close>; the clamp makes the conversion safe for every length.
\<close>

theorem address_round_trip:
  assumes "c_addr_ok L tmp" "DNET_ADDR_SIZE L < 65536"
  shows "NewDnetAddr (CAddr L a tmp) = Done (a\<lparr>Addr := take (DNET_ADDR_SIZE L) (Addr a)\<rparr>)"
  using NewDnetAddr_CAddr[OF assms] .

theorem address_round_trip_witness:
  "NewDnetAddr (CAddr lib0 \<lparr>Addr = [1, 2, 3, 4, 5], Family = 2\<rparr> (dnet_addr_alloc lib0)) =
     Done \<lparr>Addr = [1, 2, 3, 4], Family = 2\<rparr>"
  using address_round_trip[OF c_addr_ok_alloc[of lib0], of "\<lparr>Addr = [1, 2, 3, 4, 5], Family = 2\<rparr>"]
  by (simp add: lib0_def)

text \<open>
  C18. \<^verbatim>\<open>AddRemotes\<close> hands the library exactly the names it was given, each cut at its first NUL:
  the node is connected to those that can be parsed, in their order, or the negative code of
  a failed connection comes back as a positive error number and the node is unchanged. Either
  way the C strings and their array are freed, each of them once.
\<close>

theorem AddRemotes_connects:
  assumes "addrs \<noteq> []" "length addrs < 2147483648" "mem_ok m" "cm_calloc m" "H p = Some n"
    and "m' = m\<lparr>cm_next := Suc (cm_next m) + length addrs\<rparr>"
  shows "(connect L (parsed L (map c_string addrs)) = None \<longrightarrow>
      AddRemotes L strerror addrs p H m =
        Done (None, H(p \<mapsto> n\<lparr>node_remotes := node_remotes n @ [parsed L (map c_string addrs)]\<rparr>), m')) \<and>
    (\<forall>c. connect L (parsed L (map c_string addrs)) = Some (EllipticsError c) \<longrightarrow>
      - 2147483648 < sint c \<longrightarrow> sint c < 0 \<longrightarrow>
      AddRemotes L strerror addrs p H m = Done (Some (EErrno (- sint c) (strerror (- sint c))), H, m'))"
  using AddRemotes_ok[OF assms(1-4), of H p n] AddRemotes_fails[OF assms(1-4), of H p n] assms(5,6) by blast

theorem AddRemotes_connects_witness:
  "AddRemotes \<lparr>make_logger = \<lambda>_ _. None, parse_address = Inr, connect = \<lambda>_. None\<rparr> (\<lambda>_. '''')
     [''a:1:2'', ''b:1:2''] 7 [7 \<mapsto> node0] \<lparr>cm_next = 0, cm_str = Map.empty, cm_arr = Map.empty, cm_calloc = True\<rparr> =
   Done (None, [7 \<mapsto> node0\<lparr>node_remotes := [[''a:1:2'', ''b:1:2'']]\<rparr>],
     \<lparr>cm_next = 3, cm_str = Map.empty, cm_arr = Map.empty, cm_calloc = True\<rparr>)"
  using AddRemotes_connects[of "[''a:1:2'', ''b:1:2'']"
      "\<lparr>cm_next = 0, cm_str = Map.empty, cm_arr = Map.empty, cm_calloc = True\<rparr>" "[7 \<mapsto> node0]" 7 node0 _
      "\<lparr>make_logger = \<lambda>_ _. None, parse_address = Inr, connect = \<lambda>_. None\<rparr>" "\<lambda>_. ''''"]
  by (simp add: mem_ok_def c_string_def node0_def)

text \<open>
  C19. The data of a read result is copied whole when it is smaller than 2 GiB. In general the
  size becomes a C \<^verbatim>\<open>int\<close>, so that only its remainder modulo 4 GiB counts: when that is 2 GiB
  or more it is a negative number and the callback panics, otherwise only so many bytes are
  copied, fewer than there are from 4 GiB on.
\<close>

theorem read_data_sizes:
  assumes "grr_file r = At mem" "length mem = unat (grr_size r)" "k = unat (grr_size r) mod 4294967296"
  shows "(unat (grr_size r) < 2147483648 \<longrightarrow> read_data r = Done mem) \<and>
    (2147483648 \<le> k \<longrightarrow> read_data r = Panic BadLength) \<and>
    (k < 2147483648 \<longrightarrow> read_data r = Done (take k mem)) \<and>
    (4294967296 \<le> unat (grr_size r) \<longrightarrow> k < length mem)"
proof -
  have pos: "grr_size r > 0 \<longleftrightarrow> unat (grr_size r) \<noteq> 0" by (metis unat_eq_zero word_gt_0)
  note size = sint_ucast_mod[OF assms(3)]
  have low: "read_data r = Done (take k mem)" if "k < 2147483648"
    using assms that size by (auto simp: read_data_def pos c_GoBytes_def)
  moreover have "read_data r = Panic BadLength" if "2147483648 \<le> k"
  proof -
    have "k < 4294967296" unfolding assms(3) by (rule mod_less_divisor) simp
    moreover have "unat (grr_size r) \<noteq> 0" using that assms(3) by auto
    ultimately show ?thesis using assms(1) that size by (simp add: read_data_def pos c_GoBytes_def)
  qed
  moreover have "read_data r = Done mem" if "unat (grr_size r) < 2147483648"
  proof -
    have "k = unat (grr_size r)" using that assms(3) by simp
    then show ?thesis using low that assms(2) by simp
  qed
  moreover have "k < length mem" if "4294967296 \<le> unat (grr_size r)"
  proof -
    have "k < 4294967296" unfolding assms(3) by (rule mod_less_divisor) simp
    then show ?thesis using that assms(2) by simp
  qed
  ultimately show ?thesis by blast
qed

theorem read_data_sizes_witness:
  "read_data \<lparr>grr_cmd = cmd0, grr_addr = caddr0, grr_io = At io0, grr_file = At [7, 8, 9], grr_size = 3\<rparr> = Done [7, 8, 9]"
proof -
  let ?r = "\<lparr>grr_cmd = cmd0, grr_addr = caddr0, grr_io = At io0, grr_file = At [7, 8, 9], grr_size = 3\<rparr>"
  have "grr_file ?r = At [7, 8, 9]" "length [7, 8, 9 :: u8] = unat (grr_size ?r)" "3 = unat (grr_size ?r) mod 4294967296"
      "unat (grr_size ?r) < 2147483648" by simp_all
  then show ?thesis using read_data_sizes[of ?r "[7, 8, 9]" 3] by blast
qed

text \<open>
  C20. The two types \<^verbatim>\<open>Finalize\<close> gives to \<^verbatim>\<open>sort.Sort\<close> implement its interface so that the result
  does not depend on the algorithm: whatever exchanges by \<^verbatim>\<open>Swap\<close> it makes, once \<^verbatim>\<open>Less\<close> finds
  no neighbours out of order the identifiers of the backend, and the values of the ring, are
  the sorted list, and no other field of the backend has changed. The insertion sort of the
  library, run on these methods, never panics and ends there.
\<close>

theorem sort_Sort_determined:
  assumes "swapping StatBackend_Len StatBackend_Swap b b'" "in_order StatBackend_Len StatBackend_Less b'"
    and "swapping slice_uint64_Len slice_uint64_Swap ids ids'" "in_order slice_uint64_Len slice_uint64_Less ids'"
  shows "b' = b\<lparr>SB_ID := sort (SB_ID b)\<rparr> \<and> ids' = sort ids \<and>
    insertionSort StatBackend_Len StatBackend_Less StatBackend_Swap b = Done b' \<and>
    insertionSort slice_uint64_Len slice_uint64_Less slice_uint64_Swap ids = Done ids'"
  using backend_sort.sort_unique[OF assms(1,2)] slice_sort.sort_unique[OF assms(3,4)]
    backend_sort.insertionSort_sorts[of b] slice_sort.insertionSort_sorts[of ids]
  by simp

theorem sort_Sort_determined_witness:
  "insertionSort slice_uint64_Len slice_uint64_Less slice_uint64_Swap [5, 3] = Done [3, 5]"
proof -
  have b: "swapping StatBackend_Len StatBackend_Swap (NewStatBackend go_time_zero) (NewStatBackend go_time_zero)"
    by (rule swapping_refl)
  have bo: "in_order StatBackend_Len StatBackend_Less (NewStatBackend go_time_zero)"
    by (simp add: in_order_def StatBackend_Len_def NewStatBackend_def)
  have "swapping slice_uint64_Len slice_uint64_Swap [5, 3] [3, 5]"
    by (rule swapping_step[of _ _ _ "[5, 3]" 0 1, OF swapping_refl]) (simp_all add: slice_uint64_Len_def slice_uint64_Swap_def)
  moreover have "in_order slice_uint64_Len slice_uint64_Less [3, 5]"
    by (simp add: in_order_def slice_uint64_Len_def slice_uint64_Less_def)
  ultimately show ?thesis using sort_Sort_determined[OF b bo] by blast
qed

section \<open>Starting and failing\<close>

text \<open>
  C21. Contexts: two numbers taken for a request are in no use, differ from each other, and
  when both entries are deleted again every entry of the pool is what it was before.
\<close>

theorem pool_request_round_trip:
  assumes "pool_wf (w :: world)" "room 2 w" "NextContext w = (c1, w1)" "NextContext w1 = (c2, w2)"
  shows "c1 \<noteq> c2 \<and> Get c1 w = Inl KeyError \<and> Get c2 w = Inl KeyError \<and>
    Get k (Delete c2 (Delete c1 (Store c2 v2 (Store c1 v1 w2)))) = Get k w"
proof -
  have r: "room (Suc (Suc 0)) w" using assms(2) by (simp add: numeral_2_eq_2)
  have c: "c1 = fst (NextContext w)" "w1 = snd (NextContext w)" "c2 = fst (NextContext w1)"
    using assms(3,4) by simp_all
  have "Get c1 w = Inl KeyError" using pl.next_unused[OF assms(1) r] c(1) by simp
  moreover have "Get c2 w1 = Inl KeyError"
    using pl.next_unused[OF pl.wf_next[OF assms(1) r] pl.free_next[OF r]] c by simp
  moreover have "Get c2 w1 = Get c2 w" using pl.get_next c(2) by simp
  moreover have "c1 \<noteq> c2" using pl.next_next[OF r] c by simp
  ultimately show ?thesis
    using pl.request_close[OF assms(1) r assms(3,4) refl] by metis
qed

theorem pool_request_round_trip_witness:
  "Get 1 (Delete 2 (Delete 1 (Store 2 FnNullary (Store 1 FnNullary ((init_world [])\<lparr>counter := 2\<rparr>))))) = Inl KeyError"
  using pool_request_round_trip[of "init_world []" 1 "(init_world [])\<lparr>counter := 1\<rparr>" 2
      "(init_world [])\<lparr>counter := 2\<rparr>" 1 FnNullary FnNullary]
  by (simp add: pool_wf_def room_def NextContext_def init_world_def Let_def)

text \<open>
  C22. When the key object cannot be allocated, \<^verbatim>\<open>ReadData\<close>, \<^verbatim>\<open>Remove\<close>, \<^verbatim>\<open>ParallelLookup\<close>,
  \<^verbatim>\<open>WriteCache\<close> and a \<^verbatim>\<open>WriteData\<close> that fits one request report it on the returned channel and
  close it; no context is left behind and no request is sent. (The index operations panic
  instead: C24.)
\<close>

theorem key_failure_reported:
  assumes "alloc_fails w = True # xs"
  shows "(\<exists>ch w'. ReadData s key off sz w = Done (ch, w') \<and>
        finished_with [ReadE (readResult_err (EText ''could not create new key''))] ch w' \<and>
        pool w' = pool w \<and> inflight w' = inflight w) \<and>
    (\<exists>ch w'. Remove s key w = Done (ch, w') \<and>
        finished_with [RemoveE (removeResult_err [] (EText ''could not create new key''))] ch w' \<and>
        pool w' = pool w \<and> inflight w' = inflight w) \<and>
    (\<exists>ch w'. ParallelLookup s key w = Done (ch, w') \<and>
        finished_with [LookupE (lookupResult_err (EText ''could not create new key''))] ch w' \<and>
        pool w' = pool w \<and> inflight w' = inflight w) \<and>
    (\<exists>ch w'. WriteCache s key input t w = Done (ch, w') \<and>
        finished_with [LookupE (lookupResult_err (EText ''could not create new key''))] ch w' \<and>
        pool w' = pool w \<and> inflight w' = inflight w) \<and>
    (sz \<le> max_chunk_size \<longrightarrow> (\<exists>ch w'. WriteData s key input off sz w = Done (ch, w') \<and>
        finished_with [LookupE (lookupResult_err (EText ''could not create new key''))] ch w' \<and>
        pool w' = pool w \<and> inflight w' = inflight w))"
proof -
  note defs = NewKey_def new_ckey_def c_alloc_def op_defs fail_chan_def send_def close_chan_def on_chan_def
    chan_send_def chan_close_def finished_with_def ch_log_def
  have small: "sz \<le> max_chunk_size \<Longrightarrow> (max_chunk_size < sz) = False" by simp
  show ?thesis
    using assms
    by (intro conjI impI)
      (simp_all add: small ReadData_def Remove_def ParallelLookup_def WriteCache_def WriteData_def makeLookuperChan_def defs)
qed

theorem key_failure_reported_witness:
  "\<exists>ch w'. ReadData sess0 ''k'' 0 0 (init_world [True]) = Done (ch, w') \<and> inflight w' = []"
proof -
  have "alloc_fails (init_world [True]) = True # []" "inflight (init_world [True]) = []"
    by (simp_all add: init_world_def)
  then show ?thesis using key_failure_reported[of "init_world [True]" "[]" sess0 "''k''" 0 0] by metis
qed

text \<open>
  C23. On a live session, \<^verbatim>\<open>ReadData\<close>, \<^verbatim>\<open>Remove\<close>, \<^verbatim>\<open>ParallelLookup\<close>, \<^verbatim>\<open>BulkRead\<close> and \<^verbatim>\<open>BulkRemove\<close>
  never panic and never wait, whatever allocations fail.
\<close>

theorem named_operations_return:
  assumes "sessions w (s_session s) \<noteq> None" "ptrs_ok w"
  shows "returns (ReadData s key off sz w) \<and> returns (Remove s key w) \<and> returns (ParallelLookup s key w) \<and>
    returns (BulkRead s names w) \<and> returns (BulkRemove s names w)"
proof -
  note defs = op_defs fail_chan_def send_def close_chan_def on_chan_def chan_send_def chan_close_def
    defer_Free_def Key_Free_def names_of_def transform_keys_def sess_do_def
  have "returns (ReadData s key off sz w)"
    by (cases rule: NewKey_string[of key w]) (use assms in \<open>auto simp: ReadData_def ReadKey_def defs\<close>)
  moreover have "returns (Remove s key w)"
    by (cases rule: NewKey_string[of key w]) (use assms in \<open>auto simp: Remove_def RemoveKey_def defs\<close>)
  moreover have "returns (BulkRead s names w)"
    by (cases rule: NewKeys_cases[of names w]) (use assms in \<open>auto simp: BulkRead_def defs\<close>)
  moreover have "returns (BulkRemove s names w)"
    by (cases rule: NewKeys_cases[of names "w\<lparr>next_ptr := Suc (next_ptr w),
        chans := (chans w)(next_ptr w \<mapsto> chan_make 10)\<rparr>"])
      (use assms in \<open>auto simp: BulkRemove_def defs\<close>)
  moreover have "returns (ParallelLookup s key w)"
    by (cases rule: NewKey_string[of key "w\<lparr>next_ptr := Suc (next_ptr w),
        chans := (chans w)(next_ptr w \<mapsto> chan_make 10), counter := counter w + 1 + 1\<rparr>"])
      (use assms in \<open>auto simp: ParallelLookup_def defs\<close>)
  ultimately show ?thesis by blast
qed

theorem named_operations_return_witness: "returns (ReadData sess0 ''k'' 0 0 ready0)"
  using named_operations_return[of ready0 sess0]
    invD(2)[OF reachable_inv[OF ready0_reachable]] by (simp add: ready0_eq sess0_def)

text \<open>
  C24. The operations on indexes, for all arguments on a live session. They send the request
  with the key and the index names, each cut at its first NUL, and free the key; but without
  an index (except \<^verbatim>\<open>ListIndexes\<close>) they take the address of the first element of an empty slice,
  and when the key cannot be allocated those that take one panic with the error instead of
  reporting it on the channel.
\<close>

theorem index_operations_send:
  assumes "sessions w (s_session s) \<noteq> None" "ptrs_ok w"
  shows "(fst (c_alloc w) \<longrightarrow>
      sends (ListIndexes s key w) s (C_list_indexes (KeyRemote (c_string key))) w \<and>
      (if indexes = []
       then SetIndexes s key indexes w = Panic IndexOutOfRange \<and> UpdateIndexes s key indexes w = Panic IndexOutOfRange
       else sends (SetIndexes s key indexes w) s
           (C_set_indexes (KeyRemote (c_string key)) (map (\<lambda>(i, d). (c_string i, d)) indexes)) w \<and>
         sends (UpdateIndexes s key indexes w) s
           (C_update_indexes (KeyRemote (c_string key)) (map (\<lambda>(i, d). (c_string i, d)) indexes)) w) \<and>
      (if names = [] then RemoveIndexes s key names w = Panic IndexOutOfRange
       else sends (RemoveIndexes s key names w) s (C_remove_indexes (KeyRemote (c_string key)) (map c_string names)) w)) \<and>
    (\<not> fst (c_alloc w) \<longrightarrow> ListIndexes s key w = Panic no_key \<and> SetIndexes s key indexes w = Panic no_key \<and>
      UpdateIndexes s key indexes w = Panic no_key \<and> RemoveIndexes s key names w = Panic no_key) \<and>
    (if names = []
     then FindAllIndexes s names w = Panic IndexOutOfRange \<and> FindAnyIndexes s names w = Panic IndexOutOfRange
     else sends (FindAllIndexes s names w) s (C_find_all_indexes (map c_string names)) w \<and>
       sends (FindAnyIndexes s names w) s (C_find_any_indexes (map c_string names)) w)"
  using ListIndexes_outcome[OF assms, of key] RemoveIndexes_outcome[OF assms, of names key]
    setOrUpdateIndexes_outcome[OF assms, of indexes indexesSet key]
    setOrUpdateIndexes_outcome[OF assms, of indexes indexesUpdate key] find_outcome[OF assms(1), of names]
  by (cases "fst (c_alloc w)"; cases "names = []"; cases "indexes = []")
    (simp_all add: SetIndexes_def UpdateIndexes_def)

theorem index_operations_send_witness:
  "sends (RemoveIndexes sess0 ''k'' [''i''] ready0) sess0 (C_remove_indexes (KeyRemote ''k'') [''i'']) ready0 \<and>
   SetIndexes sess0 ''k'' [] ready0 = Panic IndexOutOfRange"
proof -
  have "sessions ready0 (s_session sess0) \<noteq> None" "fst (c_alloc ready0)"
    by (simp_all add: ready0_eq sess0_def c_alloc_def init_world_def)
  then show ?thesis
    using index_operations_send[of ready0 sess0 "''k''" "[]" "[''i'']"]
      invD(2)[OF reachable_inv[OF ready0_reachable]] by (simp add: c_string_def)
qed

text \<open>
  C25. The clean-up of the bulk operations. The end of a bulk remove closes its channel but
  leaves its key array allocated: no closure frees it. \<^verbatim>\<open>BulkWrite\<close> with attributes and data of
  different lengths, or with none at all, reads the first element of an empty C++ vector when
  its deferred clean-up runs.
\<close>

theorem bulk_clean_up:
  "(reachable L w \<and> c \<in> set (inflight w) \<and> call_fn c = C_bulk_remove names \<and>
      pool w (call_result c) = Some (FnRemove (BulkRemoveRes ch ks)) \<and> complete c (Final e) w = Done w' \<longrightarrow>
    ckeyss w' ks \<noteq> None \<and> pool w' (call_result c) = None) \<and>
   (alloc_fails v = [] \<and> length attrs \<noteq> length data \<longrightarrow>
    BulkWrite L s attrs data v = Panic CUndefined \<and> BulkWrite L s [] [] v = Panic CUndefined)"
  using bulk_remove_leaks[of L w c names ch ks e w'] BulkWrite_eq[of v L s attrs data] BulkWrite_eq[of v L s "[]" "[]"]
  by auto

theorem bulk_clean_up_witness:
  "(\<exists>w'. complete bremove0 (Final ok0) removing0 = Done w' \<and> ckeyss w' 3 \<noteq> None) \<and>
   BulkWrite lib0 sess0 [] [[1]] (init_world []) = Panic CUndefined"
proof -
  have c: "bremove0 \<in> set (inflight removing0)" "completion_ok (call_fn bremove0) (Final ok0)"
    by (simp_all add: removing0_eq bremove0_def)
  have "may_proceed removing0 bremove0"
    by (simp add: may_proceed_def resp_chan_def removing0_eq bremove0_def chan_has_room_def)
  then obtain w' where w': "complete bremove0 (Final ok0) removing0 = Done w'"
    using complete_proceeds(2)[OF invD(3)[OF reachable_inv[OF removing0_reachable] c(1)] c(2)]
    by (auto simp: returns_iff)
  have "pool removing0 (call_result bremove0) = Some (FnRemove (BulkRemoveRes 2 3))"
    by (simp add: removing0_eq bremove0_def)
  then have "ckeyss w' 3 \<noteq> None"
    using bulk_clean_up[of lib0 removing0 bremove0 "[''key'']" 2 3 ok0 w'] removing0_reachable c(1) w'
    by (simp add: bremove0_def)
  moreover have "BulkWrite lib0 sess0 [] [[1]] (init_world []) = Panic CUndefined"
    using bulk_clean_up[of lib0 _ _ _ _ _ _ _ "init_world []" "[]" "[[1]]" sess0] by (simp add: init_world_def)
  ultimately show ?thesis using w' by blast
qed

section \<open>Statistics\<close>

text \<open>
  C26. \<^verbatim>\<open>StatGroup.Finalize\<close> implements the ring of identifiers: from statistics whose shares
  are still 0 it computes, for every backend, exactly the number of points of the 64-bit ring
  whose nearest identifier value at or below (wrapping around below the smallest) is owned by
  that backend, the topmost point left out. It keeps the backends, and does not panic.
\<close>

theorem Finalize_refines:
  assumes "group_wf rg" "ids_long (Ab rg)" "\<forall>(ab, b) \<in> set (Ab rg). sb_sum b = 0"
  shows "\<exists>rg'. StatGroup_Finalize rg = Done rg' \<and> map fst (Ab rg') = map fst (Ab rg) \<and>
    (\<forall>(ab, b) \<in> set (Ab rg'). unat (sb_sum b) = card (share (Ab rg) ab))"
proof -
  have "distinct (map fst (Ab rg))" using assms(1) by (simp add: group_wf_def)
  from Finalize_eq[OF this assms(2)]
  have "StatGroup_Finalize rg = Done (rg\<lparr>Ab := map (\<lambda>(ab, b). (ab, finalized (Ab rg) ab b)) (Ab rg)\<rparr>)" .
  moreover have "unat (sb_sum (finalized (Ab rg) ab b)) = card (share (Ab rg) ab)" if "(ab, b) \<in> set (Ab rg)" for ab b
    using that assms(3) unat_card_share by (auto simp: finalized_def Let_def)
  ultimately show ?thesis by (auto simp del: map_map)
qed

theorem Finalize_refines_witness:
  "\<exists>rg'. StatGroup_Finalize group0 = Done rg' \<and>
    (\<forall>(ab, b) \<in> set (Ab rg'). unat (sb_sum b) = card (share (Ab group0) ab))"
  using Finalize_refines[OF group_wf0(1) ids_long0(1) sums0] by blast

text \<open>
  C27. The shares of a group with at least one identifier add up to the whole ring but its
  topmost point, so no two overlap and nothing is lost to wrap-around, and every percentage is
  a finite number between 0 and 1.
\<close>

theorem Finalize_covers_ring:
  assumes "group_wf rg" "ids_long (Ab rg)" "\<forall>(ab, b) \<in> set (Ab rg). sb_sum b = 0" "group_vals (Ab rg) \<noteq> {}"
  shows "\<exists>rg'. StatGroup_Finalize rg = Done rg' \<and>
    (\<Sum>(ab, b) \<leftarrow> Ab rg'. unat (sb_sum b)) = 2 ^ 64 - 1 \<and>
    (\<forall>(ab, b) \<in> set (Ab rg'). \<exists>p. Percentage b = Fin p \<and> 0 \<le> p \<and> p \<le> 1)"
proof -
  have dist: "distinct (map fst (Ab rg))" using assms(1) by (simp add: group_wf_def)
  let ?f = "\<lambda>(ab, b). (ab, finalized (Ab rg) ab b)"
  have "(\<Sum>(ab, b) \<leftarrow> map ?f (Ab rg). unat (sb_sum b)) = (\<Sum>(ab, b) \<leftarrow> Ab rg. card (share (Ab rg) ab))"
    using assms(3) unat_card_share
    by (auto simp: finalized_def Let_def comp_def intro!: arg_cong[where f = sum_list] map_cong)
  then have "(\<Sum>(ab, b) \<leftarrow> map ?f (Ab rg). unat (sb_sum b)) = 2 ^ 64 - 1"
    using shares_partition[OF dist assms(4)] by simp
  moreover have "\<exists>p. Percentage (finalized xs ab b) = Fin p \<and> 0 \<le> p \<and> p \<le> 1" for xs ab b
    using fraction_bounds[of "sb_sum b + of_nat (card (share xs ab))"] by (auto simp: finalized_def Let_def)
  ultimately show ?thesis
    using Finalize_eq[OF dist assms(2)] by (auto simp del: map_map simp: split_beta)
qed

theorem Finalize_covers_ring_witness:
  "\<exists>rg'. StatGroup_Finalize group0 = Done rg' \<and> (\<Sum>(ab, b) \<leftarrow> Ab rg'. unat (sb_sum b)) = 2 ^ 64 - 1"
  using Finalize_covers_ring[OF group_wf0(1) ids_long0(1) sums0 group_vals0] by blast

text \<open>
  C28. Go iterates over maps in an arbitrary order. When no identifier value is shared by two
  backends, the result of \<^verbatim>\<open>Finalize\<close> does not depend on it: two orders of the same backends
  give every backend the same statistics.
\<close>

theorem Finalize_order_independent:
  assumes "set (Ab rg) = set (Ab rh)" "group_wf rg" "group_wf rh" "ids_long (Ab rg)" "exclusive (Ab rg)"
  shows "\<exists>rg' rh'. StatGroup_Finalize rg = Done rg' \<and> StatGroup_Finalize rh = Done rh' \<and>
    map_of (Ab rg') = map_of (Ab rh')"
proof -
  have dist: "distinct (map fst (Ab rg))" "distinct (map fst (Ab rh))" using assms(2,3) by (simp_all add: group_wf_def)
  have long: "ids_long (Ab rh)" using assms(1,4) by (simp add: ids_long_def)
  have same: "map_of (Ab rg) = map_of (Ab rh)" using map_of_inject_set[OF dist] assms(1) by simp
  have "map_of (map (\<lambda>(ab, b). (ab, finalized (Ab rg) ab b)) (Ab rg)) =
      map_of (map (\<lambda>(ab, b). (ab, finalized (Ab rh) ab b)) (Ab rh))"
    using finalized_order[OF assms(1,5)] by (simp add: fun_eq_iff map_of_map_value same)
  then show ?thesis using Finalize_eq[OF dist(1) assms(4)] Finalize_eq[OF dist(2) long] by (auto simp del: map_map)
qed

theorem Finalize_order_independent_witness:
  "\<exists>rg' rh'. StatGroup_Finalize group0 = Done rg' \<and> StatGroup_Finalize group1 = Done rh' \<and>
    map_of (Ab rg') = map_of (Ab rh')"
  by (rule Finalize_order_independent[OF _ group_wf0 ids_long0(1) exclusive0]) (auto simp: group0_def group1_def)

text \<open>
  C29. \<^verbatim>\<open>Finalize\<close> adds to the shares it finds and never resets them: run a second time on the
  same statistics (which is what \<^verbatim>\<open>GetRoutes\<close> on the statistics of \<^verbatim>\<open>DnetStat\<close> does) it doubles
  every share, wrapping at 64 bits.
\<close>

theorem Finalize_twice:
  assumes "group_wf rg" "\<forall>(ab, b) \<in> set (Ab rg). sb_sum b = 0"
    and "StatGroup_Finalize rg = Done rg1" "StatGroup_Finalize rg1 = Done rg2" "map_of (Ab rg1) ab = Some b1"
  shows "\<exists>b2. map_of (Ab rg2) ab = Some b2 \<and> sb_sum b2 = 2 * sb_sum b1"
proof -
  have dist: "distinct (map fst (Ab rg))" using assms(1) by (simp add: group_wf_def)
  have rg1: "Ab rg1 = map (\<lambda>(ab, b). (ab, finalized (Ab rg) ab b)) (Ab rg)"
    using Finalize_eq[OF dist Finalize_long[OF assms(3)]] assms(3) by auto
  then have dist1: "distinct (map fst (Ab rg1))" using dist by (simp add: split_beta comp_def)
  have rg2: "Ab rg2 = map (\<lambda>(ab, b). (ab, finalized (Ab rg1) ab b)) (Ab rg1)"
    using Finalize_eq[OF dist1 Finalize_long[OF assms(4)]] assms(4) by auto
  have "share (Ab rg1) = share (Ab rg)"
    unfolding rg1 by (rule share_map) (simp add: finalized_def Let_def vals_def)
  moreover obtain b where "map_of (Ab rg) ab = Some b" "b1 = finalized (Ab rg) ab b"
    using assms(5) by (auto simp: rg1 map_of_map_value)
  moreover from this(1) have "sb_sum b = 0" using assms(2) map_of_SomeD by fastforce
  ultimately show ?thesis using assms(5) by (auto simp: rg2 map_of_map_value finalized_def Let_def)
qed

theorem Finalize_twice_witness:
  "\<exists>rg1 rg2 b1 b2. StatGroup_Finalize group0 = Done rg1 \<and> StatGroup_Finalize rg1 = Done rg2 \<and>
    map_of (Ab rg1) (ab_of addr0 7) = Some b1 \<and> map_of (Ab rg2) (ab_of addr0 7) = Some b2 \<and> sb_sum b2 = 2 * sb_sum b1"
proof -
  have dist: "distinct (map fst (Ab group0))" using group_wf0(1) by (simp add: group_wf_def)
  define rg1 where "rg1 = group0\<lparr>Ab := map (\<lambda>(ab, b). (ab, finalized (Ab group0) ab b)) (Ab group0)\<rparr>"
  have rg1: "StatGroup_Finalize group0 = Done rg1"
      "Ab rg1 = map (\<lambda>(ab, b). (ab, finalized (Ab group0) ab b)) (Ab group0)"
    using Finalize_eq[OF dist ids_long0(1)] by (simp_all add: rg1_def)
  have "distinct (map fst (Ab rg1))" using dist by (simp add: rg1(2) split_beta comp_def)
  moreover have "ids_long (Ab rg1)"
    using ids_long0(1) by (fastforce simp: rg1(2) ids_long_def finalized_def Let_def)
  ultimately obtain rg2 where rg2: "StatGroup_Finalize rg1 = Done rg2" using Finalize_eq by blast
  obtain b1 where "map_of (Ab rg1) (ab_of addr0 7) = Some b1" by (simp add: rg1(2) group0_def low0_def)
  with Finalize_twice[OF group_wf0(1) sums0 rg1(1) rg2 this] show ?thesis using rg1(1) rg2 by blast
qed

text \<open>
  C30. \<^verbatim>\<open>GetRoutes\<close> first puts every identifier the library reports into the backend it is
  routed to, after the identifiers already there, and creates the backends that are missing
  (\<open>routed_backend\<close>). Then it finalizes every group: of each backend the identifiers are sorted,
  its points of the ring of its group are added to its sum and its percentage is computed from
  that; everything else in a backend stays as it was, and so do the time and all other
  statistics. Its context is gone from the pool, and nothing else in the world has changed.
\<close>

theorem GetRoutes_distributes:
  assumes "GetRoutes L now es s p w = Done w'" "stats w p = Some stat" "stat_wf stat"
  shows "\<exists>entries stat1 stat'. mapM (NewRouteEntry L) es = Done entries \<and>
    (\<forall>g ab. backend_of g ab stat1 = routed_backend entries now g ab stat) \<and>
    (\<forall>g ab. backend_of g ab stat' = (case map_of (Group stat1) g of None \<Rightarrow> None
      | Some sg \<Rightarrow> map_option (\<lambda>b. let sum' = sb_sum b + of_nat (card (share (Ab sg) ab))
          in b\<lparr>SB_ID := sort (SB_ID b), sb_sum := sum', Percentage := fdiv (f_of_u64 sum') (f_of_u64 (- 1 :: u64))\<rparr>)
          (backend_of g ab stat1))) \<and>
    DS_Time stat' = DS_Time stat \<and>
    w' = w\<lparr>counter := counter w + 1, stats := (stats w)(p \<mapsto> stat'), pool := (pool w)(counter w + 1 := None)\<rparr>"
proof -
  obtain entries stat1 stat' where r: "mapM (NewRouteEntry L) es = Done entries"
      "steps (map (AddRouteEntry L now) entries) stat = Done stat1" "DnetStat_Finalize stat1 = Done stat'"
      "stats w' = (stats w)(p \<mapsto> stat')"
    using GetRoutes_run[OF assms(1,2)] by blast
  have routed: "stat_wf stat1" "\<forall>g ab. backend_of g ab stat1 = routed_backend entries now g ab stat"
    using AddRouteEntries_routed[OF assms(3) r(2)] by blast+
  have "backend_of g ab stat' = (case map_of (Group stat1) g of None \<Rightarrow> None
      | Some sg \<Rightarrow> map_option (finalized (Ab sg) ab) (backend_of g ab stat1))" for g ab
    using Finalize_backend[OF routed(1) r(3), of g ab] by (simp add: backend_of_def split: option.splits)
  then have "\<forall>g ab. backend_of g ab stat' = (case map_of (Group stat1) g of None \<Rightarrow> None
      | Some sg \<Rightarrow> map_option (\<lambda>b. let sum' = sb_sum b + of_nat (card (share (Ab sg) ab))
          in b\<lparr>SB_ID := sort (SB_ID b), sb_sum := sum', Percentage := fdiv (f_of_u64 sum') (f_of_u64 (- 1 :: u64))\<rparr>)
          (backend_of g ab stat1))"
    unfolding finalized_def by blast
  moreover have "DS_Time stat' = DS_Time stat" using AddRouteEntries_time[OF r(2)] Finalize_time[OF r(3)] by simp
  moreover have "w' = w\<lparr>counter := counter w + 1, stats := (stats w)(p \<mapsto> stat'), pool := (pool w)(counter w + 1 := None)\<rparr>"
    using GetRoutes_shape[OF assms(1)] r(4) by auto
  ultimately show ?thesis using r(1) routed(2) by blast
qed

theorem GetRoutes_distributes_witness:
  "\<exists>w' stat' b. GetRoutes lib8 time0 [route0] sess0 3 routing0 = Done w' \<and> stats w' 3 = Some stat' \<and>
    backend_of 1 (ab_of addr0 7) stat' = Some b \<and> SB_ID b = [rawid0 32, rawid0 64] \<and> SB_VFS b = SB_VFS (snd low0)"
proof -
  let ?stat = "\<lparr>DS_Time = time0, Group = [(1, group0)]\<rparr>"
  obtain w' where w': "GetRoutes lib8 time0 [route0] sess0 3 routing0 = Done w'" using routed0 by blast
  have "stat_wf ?stat" using group_wf0(1) by (simp add: stat_wf_def)
  moreover have "stats routing0 3 = Some ?stat" by (simp add: routing0_def)
  moreover have "mapM (NewRouteEntry lib8) [route0] = Done [routed_entry0]" using route_entry0 by simp
  ultimately obtain stat1 stat' where
      1: "backend_of 1 (ab_of addr0 7) stat1 = routed_backend [routed_entry0] time0 1 (ab_of addr0 7) ?stat"
    and 2: "backend_of 1 (ab_of addr0 7) stat' = (case map_of (Group stat1) 1 of None \<Rightarrow> None
      | Some sg \<Rightarrow> map_option (\<lambda>b. let sum' = sb_sum b + of_nat (card (share (Ab sg) (ab_of addr0 7)))
          in b\<lparr>SB_ID := sort (SB_ID b), sb_sum := sum', Percentage := fdiv (f_of_u64 sum') (f_of_u64 (- 1 :: u64))\<rparr>)
          (backend_of 1 (ab_of addr0 7) stat1))"
    and 3: "w' = routing0\<lparr>counter := counter routing0 + 1, stats := (stats routing0)(3 \<mapsto> stat'),
      pool := (pool routing0)(counter routing0 + 1 := None)\<rparr>"
    using GetRoutes_distributes[OF w'] by fastforce
  have b1: "backend_of 1 (ab_of addr0 7) stat1 = Some ((snd low0)\<lparr>SB_ID := [rawid0 64, rawid0 32]\<rparr>)"
    unfolding 1
    by (simp add: routed_backend_def routed_entry0_def route_key_def backend_of_def group0_def low0_def rawid0_def)
  moreover obtain sg where "map_of (Group stat1) 1 = Some sg"
    using b1 by (auto simp: backend_of_def split: option.splits)
  moreover have "sort [rawid0 64, rawid0 32] = [rawid0 32, rawid0 64]"
    by (simp add: rawid0_def less_eq_DnetRawID_def bytes_Compare_def)
  ultimately show ?thesis using w' 2 3 by (simp add: Let_def)
qed

text \<open>
  C31. A monitoring reply: \<^verbatim>\<open>AddStatEntry\<close> never fails on an address that fits, always takes over
  the time of the decoded reply, and does nothing else when monitoring is off. Otherwise each
  enabled backend of the reply is written, in order, to the statistics kept under its group,
  address and number, which are created if they are missing, and no other backend changes.
  (A reply that could not be read decodes to the zero time: the time is then reset to 1970.)
\<close>

theorem AddStatEntry_writes:
  assumes "stat_wf stat" "fits (se_addr entry)" "unmarshal (se_stat entry) = (r, err)"
  shows "\<exists>stat'. AddStatEntry L unmarshal now entry stat = Done stat' \<and>
    DS_Time stat' = time_Unix (sint (Sec (Timestamp r))) (sint (USec (Timestamp r) * 1000)) \<and>
    (MonitorStatus r \<noteq> ''enabled'' \<longrightarrow> Group stat' = Group stat) \<and>
    (MonitorStatus r = ''enabled'' \<longrightarrow> (\<forall>g ab. backend_of g ab stat' =
      (case filter (\<lambda>v. live v \<and> vnode_key (se_addr entry) v = (g, ab)) (map snd (Backends r)) of
         [] \<Rightarrow> backend_of g ab stat
       | mine \<Rightarrow> Some (fold vnode_write mine
           (case backend_of g ab stat of None \<Rightarrow> NewStatBackend now | Some b \<Rightarrow> b)))))"
  by (rule AddStatEntry_backend[of stat entry unmarshal r err, OF assms])

theorem AddStatEntry_writes_witness:
  "\<exists>stat' b. AddStatEntry lib0 unmarshal0 time0 entry0 DnetStat_new = Done stat' \<and>
    backend_of 1 (ab_of addr0 7) stat' = Some b \<and> VFS_RecordsTotal (SB_VFS b) = 5"
proof -
  let ?r = "fst (unmarshal0 [])"
  have wf: "stat_wf DnetStat_new" by (simp add: stat_wf_def DnetStat_new_def)
  have "filter (\<lambda>v. live v \<and> vnode_key addr0 v = (1, ab_of addr0 7)) (map snd (Backends ?r)) = [vnode0]"
    by (simp add: unmarshal0_def live_def vnode_key_def vnode0_def zero_config_def)
  with AddStatEntry_writes[OF wf, of entry0 unmarshal0 ?r None lib0 time0] fits0
  show ?thesis
    by (auto simp: entry0_def unmarshal0_def vnode_write_def take_vnode_def new_VFS_def vnode0_def blobs0_def
        Let_def backend_of_def DnetStat_new_def)
qed

text \<open>
  C32. Every statistics object a program can have is well formed: no group and no backend is
  listed twice and every address key has a length its array can hold, so that the key's
  address can be read back. Reading further replies, finalizing and taking differences keep
  it so.
\<close>

theorem statistics_well_formed:
  assumes "reachable L w" "stats w p = Some stat"
  shows "stat_wf stat \<and>
    (\<forall>unmarshal now es stat'. DnetStat_loop L unmarshal now es stat = Done stat' \<longrightarrow> stat_wf stat') \<and>
    (\<forall>stat'. DnetStat_Finalize stat = Done stat' \<longrightarrow> stat_wf stat') \<and>
    (\<forall>q prev. stats w q = Some prev \<longrightarrow> stat_wf (Diff (Prev prev) stat))"
proof -
  have wf: "stat_wf st" if "stats w q = Some st" for q st
    using reachable_objs[OF assms(1)] that by (simp add: objects_ok_def)
  then show ?thesis using wf[OF assms(2)] stat_wf_loop stat_wf_Finalize stat_wf_Diff by blast
qed

theorem statistics_well_formed_witness:
  "stat_wf DnetStat_new \<and> stat_wf (Diff (Prev DnetStat_new) DnetStat_new)"
  using statistics_well_formed[OF statting0_reachable, of 3 DnetStat_new] by (simp add: statting0_def)

text \<open>
  C33. \<^verbatim>\<open>Diff\<close> gives every backend that both statistics have its rates over the time between them:
  of each command both count, successes, failures and bytes; of the disk, bytes written and
  read, and the share of the time it was busy. A counter that has gone down (the server was
  restarted) counts as one that has wrapped around at 64 bits (\<open>counter_gain\<close>). The backend takes
  over the controller of the previous statistics; nothing else in it changes. All other
  backends stay as they are, and the groups that are missing now are taken over from before.
\<close>

theorem Diff_rates:
  assumes "backend_of g ab stat = Some sb" "backend_of g ab prev = Some psb"
  shows "\<exists>commands. backend_of g ab (Diff (Prev prev) stat) = Some (sb\<lparr>SB_PID := SB_PID psb,
        SB_DStat := (SB_DStat sb)\<lparr>
          WBS := gain_rate prev stat (sector_gain (WSectors (SB_DStat psb)) (WSectors (SB_DStat sb))),
          RBS := gain_rate prev stat (sector_gain (RSectors (SB_DStat psb)) (RSectors (SB_DStat sb))),
          Util := fdiv (fdiv (fl (of_nat (counter_gain (IOTicks (SB_DStat psb)) (IOTicks (SB_DStat sb))))) (Fin 1000))
            (Seconds (time_Sub (DS_Time stat) (DS_Time prev)))\<rparr>,
        SB_Commands := commands\<rparr>) \<and>
      map fst commands = map fst (SB_Commands sb) \<and>
      (\<forall>cmd. map_of commands cmd = map_option (\<lambda>c. case map_of (SB_Commands psb) cmd of None \<Rightarrow> c
         | Some pc \<Rightarrow> c\<lparr>RPSSuccess := gain_rate prev stat (counter_gain (RequestsSuccess pc) (RequestsSuccess c)),
             RPSFailures := gain_rate prev stat (counter_gain (RequestsFailures pc) (RequestsFailures c)),
             BPS := gain_rate prev stat (counter_gain (Bytes pc) (Bytes c))\<rparr>) (map_of (SB_Commands sb) cmd)) \<and>
    DS_Time (Diff (Prev prev) stat) = DS_Time stat \<and>
    (\<forall>h ab'. backend_of h ab' prev = None \<or> backend_of h ab' stat = None \<and> map_of (Group stat) h \<noteq> None \<longrightarrow>
      backend_of h ab' (Diff (Prev prev) stat) = backend_of h ab' stat) \<and>
    (\<forall>h ab'. map_of (Group stat) h = None \<longrightarrow> backend_of h ab' (Diff (Prev prev) stat) = backend_of h ab' prev)"
proof -
  let ?d = "Seconds (time_Sub (DS_Time stat) (DS_Time prev))"
  let ?b = "diff_backend ?d psb sb"
  obtain sg where sg: "map_of (Group stat) g = Some sg" "map_of (Ab sg) ab = Some sb"
    using assms(1) by (auto simp: backend_of_def split: option.splits)
  have eq: "backend_of g ab (Diff (Prev prev) stat) = Some ?b"
    by (simp add: Diff_backend sg assms(2) del: Diff.simps)
  have b: "?b = sb\<lparr>SB_PID := SB_PID psb,
      SB_DStat := (SB_DStat sb)\<lparr>
        WBS := gain_rate prev stat (sector_gain (WSectors (SB_DStat psb)) (WSectors (SB_DStat sb))),
        RBS := gain_rate prev stat (sector_gain (RSectors (SB_DStat psb)) (RSectors (SB_DStat sb))),
        Util := fdiv (fdiv (fl (of_nat (counter_gain (IOTicks (SB_DStat psb)) (IOTicks (SB_DStat sb))))) (Fin 1000)) ?d\<rparr>,
      SB_Commands := SB_Commands ?b\<rparr>"
    by (simp add: diff_backend_def diff_DStat_gains)
  have other: "backend_of h ab' (Diff (Prev prev) stat) = backend_of h ab' stat"
    if "backend_of h ab' prev = None \<or> backend_of h ab' stat = None \<and> map_of (Group stat) h \<noteq> None" for h ab'
  proof -
    have "backend_of h ab' stat = (case map_of (Group stat) h of None \<Rightarrow> None | Some sg \<Rightarrow> map_of (Ab sg) ab')"
      by (simp add: backend_of_def)
    then show ?thesis
      using that by (auto simp: Diff_backend option.map_ident simp del: Diff.simps split: option.splits)
  qed
  have missing: "backend_of h ab' (Diff (Prev prev) stat) = backend_of h ab' prev" if "map_of (Group stat) h = None" for h ab'
    by (simp add: Diff_backend that del: Diff.simps)
  show ?thesis
  proof (rule exI[of _ "SB_Commands ?b"], intro conjI allI impI)
    show "map_of (SB_Commands ?b) cmd = map_option (\<lambda>c. case map_of (SB_Commands psb) cmd of None \<Rightarrow> c
         | Some pc \<Rightarrow> c\<lparr>RPSSuccess := gain_rate prev stat (counter_gain (RequestsSuccess pc) (RequestsSuccess c)),
             RPSFailures := gain_rate prev stat (counter_gain (RequestsFailures pc) (RequestsFailures c)),
             BPS := gain_rate prev stat (counter_gain (Bytes pc) (Bytes c))\<rparr>) (map_of (SB_Commands sb) cmd)" for cmd
      unfolding diff_backend_commands diff_CStat_gains ..
    show "DS_Time (Diff (Prev prev) stat) = DS_Time stat" by (simp add: Let_def)
  qed (rule trans[OF eq arg_cong[OF b, where f = Some]] diff_backend_keys other missing; assumption)+
qed

theorem Diff_rates_witness:
  "\<exists>sb c. backend_of 1 (ab_of addr0 7) (Diff (Prev (counted0 time0 5)) (counted0 time0 3)) = Some sb \<and>
    map_of (SB_Commands sb) ''READ'' = Some c \<and>
    RPSSuccess c = fdiv (fl 18446744073709551614) (Seconds 0)"
proof -
  obtain sb psb c pc where b: "backend_of 1 (ab_of addr0 7) (counted0 time0 3) = Some sb"
      "backend_of 1 (ab_of addr0 7) (counted0 time0 5) = Some psb"
      "map_of (SB_Commands sb) ''READ'' = Some c" "map_of (SB_Commands psb) ''READ'' = Some pc"
      "RequestsSuccess c = 3" "RequestsSuccess pc = 5"
    by (simp add: counted0_def backend_of_def)
  have "gain_rate (counted0 time0 5) (counted0 time0 3) (counter_gain 5 3) = fdiv (fl 18446744073709551614) (Seconds 0)"
    by (simp add: gain_rate_def counter_gain_def counted0_def time_Sub_def)
  with Diff_rates[OF b(1,2)] b(3-6) show ?thesis by fastforce
qed

text \<open>
  C34. The statistics may be read as values, as long as their group objects are not shared:
  adding a route entry, adding a monitoring reply and \<^verbatim>\<open>Finalize\<close>, run on pointers, have the
  outcome of the operations on values, keep the groups of a statistics apart, and leave other
  statistics without a common group alone, so that the same holds of the next operation.
\<close>

theorem stat_operations_implement:
  assumes "(rop, vop) \<in> {(AddRouteEntry_ref L now e, AddRouteEntry L now e),
      (AddStatEntry_ref L unmarshal now entry, AddStatEntry L unmarshal now entry),
      (DnetStat_Finalize_ref, DnetStat_Finalize)}"
    and "store_ok stat h" "store_ok other h" "refs stat \<inter> refs other = {}"
  shows "mapO (\<lambda>(stat, h). view h stat) (rop (stat, h)) = vop (view h stat) \<and>
    (\<forall>stat' h'. rop (stat, h) = Done (stat', h') \<longrightarrow>
      view h' other = view h other \<and> store_ok stat' h' \<and> store_ok other h' \<and> refs stat' \<inter> refs other = {})"
proof -
  have "stat_operation rop vop"
    using assms(1) route_op.stat_operation_axioms entry_op.stat_operation_axioms finalize_op.stat_operation_axioms
    by auto
  from stat_operation.simulates[OF this assms(2)] stat_operation.keeps[OF this assms(2)]
    stat_operation.others_untouched[OF this assms(2-4)]
  show ?thesis unfolding confined_def by blast
qed

theorem stat_operations_implement_witness:
  "\<exists>stat' h'. AddRouteEntry_ref lib8 time0 routed_entry0 (next0, store0) = Done (stat', h') \<and>
    view h' prev0 = view store0 prev0 \<and> view h' stat' = bs.modify time0 (route_key routed_entry0)
      (add_id (re_id routed_entry0)) (view store0 next0)"
proof -
  have "fits (re_addr routed_entry0)" by (simp add: routed_entry0_def fits0)
  from AddRouteEntry_eq[OF this]
    stat_operations_implement[of "AddRouteEntry_ref lib8 time0 routed_entry0" "AddRouteEntry lib8 time0 routed_entry0" lib8 time0 routed_entry0,
      OF _ stores0(2,1) stores0(3)[unfolded Int_commute[of "refs prev0"]]]
  show ?thesis by auto
qed

text \<open>
  C35. \<^verbatim>\<open>Diff\<close> computes the right values too and leaves the previous statistics as they are,
  but a group it takes over is the same object in both afterwards. Finalizing the new
  statistics (as \<^verbatim>\<open>GetRoutes\<close> on them does) then finalizes these groups of the previous ones
  as well, a second time when they had been finalized; its other groups do not change.
\<close>

theorem Diff_shares_groups:
  assumes "store_ok prev h" "store_ok stat h" "refs prev \<inter> refs stat = {}"
  shows "\<exists>stat' h'. Diff_ref (Prev prev) (stat, h) = Done (stat', h') \<and> store_ok stat' h' \<and>
    view h' stat' = Diff (Prev (view h prev)) (view h stat) \<and> view h' prev = view h prev \<and>
    refs stat' \<inter> refs prev = kept prev stat \<and>
    (\<forall>stat2 h2. DnetStat_Finalize_ref (stat', h') = Done (stat2, h2) \<longrightarrow>
      (\<forall>(g, p) \<in> set (SR_Group prev).
        if g \<in> fst ` set (SR_Group stat) then group_at h2 p = group_at h p
        else StatGroup_Finalize (group_at h p) = Done (group_at h2 p)))"
proof -
  obtain stat' h' where D: "Diff_ref (Prev prev) (stat, h) = Done (stat', h')"
    "view h' stat' = Diff (Prev (view h prev)) (view h stat)" "store_ok stat' h'" "refs stat' = refs stat \<union> kept prev stat"
    "\<forall>p. p \<notin> refs stat \<longrightarrow> gs_heap h' p = gs_heap h p" "gs_next h' = gs_next h"
    by (rule Diff_ref_result[OF assms])
  have prev: "p \<in> refs prev" "p < gs_next h'" "group_at h' p = group_at h p" if "(g, p) \<in> set (SR_Group prev)" for g p
  proof -
    show "p \<in> refs prev" using that by (force simp: refs_def)
    then show "p < gs_next h'" "group_at h' p = group_at h p"
      using assms(1,3) D(5,6) by (auto simp: store_ok_def group_at_def)
  qed
  have same: "group_at h2 p = group_at h p" if "DnetStat_Finalize_ref (stat', h') = Done (stat2, h2)"
    "(g, p) \<in> set (SR_Group prev)" "g \<in> fst ` set (SR_Group stat)" for stat2 h2 g p
  proof -
    have "p \<notin> refs stat'"
      using kept_refs(2)[OF assms(1,3) that(2)] that(3) prev(1)[OF that(2)] D(4) assms(3) by blast
    from Finalize_ref_groups(2)[OF D(3) that(1) prev(2)[OF that(2)] this] prev(3)[OF that(2)] show ?thesis by simp
  qed
  have again: "StatGroup_Finalize (group_at h p) = Done (group_at h2 p)"
    if "DnetStat_Finalize_ref (stat', h') = Done (stat2, h2)"
    "(g, p) \<in> set (SR_Group prev)" "g \<notin> fst ` set (SR_Group stat)" for stat2 h2 g p
    using Finalize_ref_groups(1)[OF D(3) that(1), of p] prev[OF that(2)] kept_refs(2)[OF assms(1,3) that(2)]
      that(3) D(4) by simp
  have "view h' prev = view h prev" using prev(3) by (auto simp: view_def)
  moreover have "refs stat' \<inter> refs prev = kept prev stat" using kept_refs(1)[OF assms(1,3)] D(4) by simp
  moreover have "\<forall>stat2 h2. DnetStat_Finalize_ref (stat', h') = Done (stat2, h2) \<longrightarrow>
      (\<forall>(g, p) \<in> set (SR_Group prev).
        if g \<in> fst ` set (SR_Group stat) then group_at h2 p = group_at h p
        else StatGroup_Finalize (group_at h p) = Done (group_at h2 p))"
  proof (intro allI impI ballI)
    fix stat2 h2 x assume f: "DnetStat_Finalize_ref (stat', h') = Done (stat2, h2)" "x \<in> set (SR_Group prev)"
    obtain g p where x: "x = (g, p)" by (cases x)
    show "case x of (g, p) \<Rightarrow> if g \<in> fst ` set (SR_Group stat) then group_at h2 p = group_at h p
        else StatGroup_Finalize (group_at h p) = Done (group_at h2 p)"
      using same[OF f(1) f(2)[unfolded x]] again[OF f(1) f(2)[unfolded x]]
      by (cases "g \<in> fst ` set (SR_Group stat)") (simp_all only: x prod.case if_True if_False not_False_eq_True)
  qed
  ultimately show ?thesis using D(1-3) by blast
qed

theorem Diff_shares_groups_witness:
  "\<exists>stat' h'. Diff_ref (Prev prev0) (next0, store0) = Done (stat', h') \<and> refs stat' \<inter> refs prev0 = {0} \<and>
    view h' stat' = Diff (Prev (view store0 prev0)) (view store0 next0)"
proof -
  have "kept prev0 next0 = {0}" by (auto simp: kept_def prev0_def next0_def)
  with Diff_shares_groups[OF stores0] show ?thesis by metis
qed

text \<open>
  C36. The pain of a backend's controller, after any sequence of updates, is never negative or
  minus infinity, and after the first update not even 0. It can be no number at all: an update
  without an error right after the controller was made divides 0 by 0.
\<close>

theorem PID_pain:
  "pain_ok (PIDPain (fold (\<lambda>(e, since, now). PIDUpdate e since now) us (NewStatBackend t))) \<and>
   (us \<noteq> [] \<longrightarrow> \<not> fle (PIDPain (fold (\<lambda>(e, since, now). PIDUpdate e since now) us (NewStatBackend t))) (Fin 0)) \<and>
   PIDPain (PIDUpdate (Fin 0) t t' (NewStatBackend t)) = NaN"
proof -
  let ?run = "\<lambda>us. fold (\<lambda>(e, since, now). PIDUpdate e since now) us (NewStatBackend t)"
  have ok: "pain_ok (PIDPain (?run us))" for us
  proof (induction us rule: rev_induct)
    case Nil
    show ?case by (simp add: PIDPain_def NewStatBackend_def NewPIDController_def)
  next
    case (snoc u us)
    then show ?case using PIDUpdate_pain[of "?run us"] by (cases u) simp
  qed
  moreover have "\<not> fle (PIDPain (?run us)) (Fin 0)" if "us \<noteq> []"
    using that ok[of "butlast us"] PIDUpdate_pain[of "?run (butlast us)"]
    by (cases us rule: rev_cases) auto
  moreover have "PIDPain (PIDUpdate (Fin 0) t t' (NewStatBackend t)) = NaN"
    by (simp add: PIDUpdate_def PIDPain_def NewStatBackend_def NewPIDController_def time_Sub_def Seconds_def
        f_of_int_def PIDKe_def PIDKi_def PIDKd_def Let_def fsub_def fl_0)
  ultimately show ?thesis by blast
qed

theorem PID_pain_witness:
  "\<not> fle (PIDPain (PIDUpdate (Fin 1) time0 time0 (NewStatBackend time0))) (Fin 0)"
  using PID_pain[of "[(Fin 1, time0, time0)]" time0 time0] by simp

section \<open>Whole operations\<close>

text \<open>
  C37. \<^verbatim>\<open>DnetStat\<close>, whatever other requests do in between and afterwards: its channel carries the
  replies of the request in the order they were delivered, then the final error if there is
  one, and is closed; so the loop over it ends, and it is the sequence of \<^verbatim>\<open>AddStatEntry\<close> calls
  on these entries (the error entry included), with no failed type assertion.
\<close>

theorem DnetStat_reads_all:
  assumes "reachable L w" "room 3 w" "DnetStat_request L now es s w = Done (ch, st, w1)"
    and "run L (evs @ Complete (last (inflight w1)) (Final e) # evs') w1 w2" "no_completion (last (inflight w1)) evs"
  shows "\<exists>log. finished_with log ch w2 \<and>
    log = map (stat_elem L) (replies_of (last (inflight w1)) evs) @
      (case final_error e of None \<Rightarrow> [] | Some x \<Rightarrow> [StatE (StatEntry_err x)]) \<and>
    (\<forall>unmarshal t stat. DnetStat_loop L unmarshal t log stat =
      steps (map (AddStatEntry L unmarshal t) (entries_of log)) stat)"
proof -
  have inv: "inv w1" using extends_inv
    DnetStat_request_ext[OF reachable_inv[OF assms(1)] assms(2,3)] by blast
  have s: "streaming (\<lambda>ch. FnStat ch) StatFin (last (inflight w1)) ch w1" "chan_log w1 ch = Some []"
    using DnetStat_request_streams[OF assms(2,3)] by blast+
  define log where "log = map (stat_elem L) (replies_of (last (inflight w1)) evs) @
      (case final_error e of None \<Rightarrow> [] | Some x \<Rightarrow> [StatE (StatEntry_err x)])"
  have "is_stat (stat_elem L r)" for r by (cases r) simp_all
  then have "list_all is_stat log" by (auto simp: log_def list_all_iff split: option.split)
  then show ?thesis
    using sn.stream_life[OF inv s assms(4,5)] DnetStat_loop_steps unfolding log_def[symmetric] by blast
qed

theorem DnetStat_reads_all_witness:
  "\<exists>w2. complete stat_call0 (Final enoent0) statting0 = Done w2 \<and>
    finished_with [StatE (StatEntry_err (EDnet \<lparr>Code = - 2, Flags = 0, Message = ''not found''\<rparr>))] 2 w2"
proof -
  have "may_proceed statting0 stat_call0"
    by (simp add: may_proceed_def resp_chan_def statting0_def stat_call0_def chan_has_room_def)
  moreover have c: "stat_call0 \<in> set (inflight statting0)" "completion_ok (call_fn stat_call0) (Final enoent0)"
    by (simp_all add: statting0_def stat_call0_def)
  ultimately obtain w2 where w2: "complete stat_call0 (Final enoent0) statting0 = Done w2"
    using complete_proceeds(2)[OF invD(3)[OF reachable_inv[OF statting0_reachable] c(1)] c(2)] by (auto simp: returns_iff)
  then have "run lib0 ([] @ Complete (last (inflight statting0)) (Final enoent0) # []) statting0 w2"
    using c by (auto simp: statting0_def intro!: run_Cons run_Nil)
  from DnetStat_reads_all[OF ready0_reachable _ stat_request0[unfolded stat_result0_def] this]
  have "\<exists>log. finished_with log 2 w2 \<and>
      log = (case final_error enoent0 of None \<Rightarrow> [] | Some x \<Rightarrow> [StatE (StatEntry_err x)])"
    by (auto simp: room_def ready0_eq init_world_def no_completion_def)
  then show ?thesis using w2 by (auto simp: final_error_def enoent0_def c_string_def)
qed

text \<open>
  C38. No deadlock: from every reachable state there is a sequence of receives and request ends
  that can all be carried out (each callback finds room in its channel) and after which no
  request is in flight, the pool is empty and every channel is closed.
\<close>

theorem requests_can_end:
  assumes "reachable L w"
  shows "\<exists>es w'. run L es w w' \<and> list_all draining es \<and> inflight w' = [] \<and> pool w' = Map.empty \<and>
    (\<forall>p b. chans w' p = Some b \<longrightarrow> ch_closed b)"
proof -
  obtain es w' where r: "run L es w w'" "list_all draining es" "inflight w' = []"
    using end_all[OF reachable_inv[OF assms] reachable_objs[OF assms]] by blast
  then show ?thesis using idle_clean[OF run_inv[OF r(1) reachable_inv[OF assms]] r(3)] by blast
qed

theorem requests_can_end_witness:
  "\<exists>es w'. run lib0 es reading0 w' \<and> list_all draining es \<and> inflight w' = []"
  using requests_can_end[OF reading0_reachable] by blast

text \<open>
  C39. \<^verbatim>\<open>StreamHTTP\<close> returns, without an error, when the servers answer every read of the object
  with at least one of the bytes asked for: the response has one \<^verbatim>\<open>Content-Length\<close> with the
  length of the part asked for (everything from the offset on for size 0), then exactly those
  bytes in order, however they were cut into pieces; and the key is freed.
\<close>

theorem StreamHTTP_sends_slice:
  assumes "NewKey [ArgString kstr] w = (Inr key, w1)" "I w1" "\<And>w. I w \<Longrightarrow> ckeys w key \<noteq> None"
    and "serves I env s key obj" "unat offset \<le> length obj" "length obj < 2 ^ 64"
  shows "\<exists>h w'. StreamHTTP env s kstr offset sz w = Some (Done (None, h, w')) \<and> ckeys w' key = None \<and>
    response_of (stream_slice obj offset sz) h"
  by (rule StreamHTTP_response[OF assms])

theorem StreamHTTP_sends_slice_witness:
  "\<exists>h w'. StreamHTTP server0 sess0 ''key'' 1 3 session0 = Some (Done (None, h, w')) \<and>
    response_of [20, 30, 40] h"
proof -
  have "\<exists>h w'. StreamHTTP server0 sess0 ''key'' 1 3 session0 = Some (Done (None, h, w')) \<and> ckeys w' 1 = None \<and>
      response_of (stream_slice object0 1 3) h"
    by (rule StreamHTTP_sends_slice[OF NewKey0 _ serves0]) (simp_all add: serving0_def object0_def)
  moreover have "stream_slice object0 1 3 = [20, 30, 40]" by (simp add: stream_slice_def object0_def)
  ultimately show ?thesis by auto
qed

text \<open>
  C40. \<^verbatim>\<open>StreamHTTP\<close> never returns when the servers answer with empty pieces of an object that is
  said to end elsewhere than at the offset: the rest is never 0 and every turn of the loop
  sends the header again. (An offset past the end is such a case: the size wraps around.)
\<close>

theorem StreamHTTP_endless:
  assumes "NewKey [ArgString kstr] w = (Inr key, w1)" "I w1" "serves_nothing I env s key total_size"
    and "total_size \<noteq> offset"
  shows "StreamHTTP env s kstr offset sz w = None"
  using loop_endless[OF assms(3,2,4)] assms(1) by (simp add: StreamHTTP_def)

theorem StreamHTTP_endless_witness: "StreamHTTP empty_server0 sess0 ''key'' 9 0 session0 = None"
  by (rule StreamHTTP_endless[OF NewKey0 serves_nothing0]) simp

end
